(* ===== verification/Go_Prelude.thy ===== *)
theory Go_Prelude
  imports Main "HOL-Library.Word" "HOL-Library.Char_ord"
begin

text \<open>
  What every component shares: the reading of Go's fixed-width integers, of \<open>time.Time\<close> and
  \<open>time.Duration\<close>, of \<open>context.Context\<close> and of error returns, and the collections of
  rewrite rules the component theories hand to the simplifier.

  A Go function that returns \<open>(T, error)\<close> is a function into \<open>'e + 't\<close> (\<open>Inl\<close> the
  error); one that returns only \<open>error\<close> is a function into \<open>'e option\<close>, where \<open>None\<close>
  is the nil error. A pointer or interface that may be nil is an \<open>option\<close>.
\<close>

named_theorems go_time \<open>comparison and subtraction of instants\<close>
named_theorems go_string \<open>unfolding of string helpers\<close>
named_theorems go_result \<open>case analysis of error results\<close>

section \<open>Error results\<close>

text \<open>\<open>if err := check; err != nil { return err }\<close> in front of the rest of a function.\<close>

definition guard_err :: "'e option \<Rightarrow> 'e + 'a \<Rightarrow> 'e + 'a" where
  "guard_err check rest = (case check of None \<Rightarrow> rest | Some e \<Rightarrow> Inl e)"

lemma guard_err_Inr [go_result]:
  "guard_err check rest = Inr x \<longleftrightarrow> check = None \<and> rest = Inr x"
  by (simp add: guard_err_def split: option.splits)

lemma guard_err_None [simp]: "guard_err None rest = rest"
  by (simp add: guard_err_def)

lemma guard_err_Some [simp]: "guard_err (Some e) rest = Inl e"
  by (simp add: guard_err_def)

section \<open>Fixed-width integers\<close>

text \<open>
  \<open>int\<close> and \<open>int64\<close> values are HOL integers; \<open>int64_wrap\<close> is the two's complement
  result of an operation that may leave the 64-bit range. \<open>uint64\<close> values are 64-bit words.
\<close>

type_synonym u64 = "64 word"

definition int64_wrap :: "int \<Rightarrow> int" where
  "int64_wrap x = (x + 2 ^ 63) mod 2 ^ 64 - 2 ^ 63"

definition in_int64 :: "int \<Rightarrow> bool" where
  "in_int64 x \<longleftrightarrow> - (2 ^ 63) \<le> x \<and> x < 2 ^ 63"

lemma int64_wrap_id [simp]: "in_int64 x \<Longrightarrow> int64_wrap x = x"
  by (simp add: int64_wrap_def in_int64_def)

lemma in_int64_wrap [simp]: "in_int64 (int64_wrap x)"
  using pos_mod_bound [of "2 ^ 64" "x + 2 ^ 63"] pos_mod_sign [of "2 ^ 64" "x + 2 ^ 63"]
  by (simp add: int64_wrap_def in_int64_def)

lemma int64_wrap_add: "int64_wrap (int64_wrap x + y) = int64_wrap (x + y)"
proof -
  have "(int64_wrap x + y + 2 ^ 63) mod 2 ^ 64 = ((x + 2 ^ 63) mod 2 ^ 64 + y) mod 2 ^ 64"
    by (simp add: int64_wrap_def algebra_simps)
  also have "\<dots> = (x + y + 2 ^ 63) mod 2 ^ 64"
    by (simp add: mod_simps algebra_simps)
  finally show ?thesis by (simp add: int64_wrap_def)
qed

text \<open>The wrap-around is the reading of a 64-bit word as a signed number.\<close>

lemma int64_wrap_word: "int64_wrap x = sint (word_of_int x :: 64 word)"
  by (simp add: int64_wrap_def sint_sbintrunc' signed_take_bit_eq_take_bit_shift take_bit_eq_mod)

section \<open>Instants and durations\<close>

text \<open>
  A \<open>time.Time\<close> is the number of nanoseconds since its zero value (January 1, year 1, UTC), so
  \<open>IsZero\<close> is the test for 0; the seconds of an instant are an \<open>int64\<close>. A
  \<open>time.Duration\<close> is an \<open>int64\<close> number of nanoseconds. Monotonic and wall clock readings
  are not told apart: the code only compares and subtracts instants.
\<close>

type_synonym time = int
type_synonym duration = int

definition nanosecond :: duration where "nanosecond = 1"
definition millisecond :: duration where "millisecond = 1000000"
definition second :: duration where "second = 1000000000"
definition minute :: duration where "minute = 60 * second"
definition hour :: duration where "hour = 60 * minute"

lemmas duration_units = nanosecond_def millisecond_def second_def minute_def hour_def

definition is_zero :: "time \<Rightarrow> bool" where "is_zero t \<longleftrightarrow> t = 0"
definition after :: "time \<Rightarrow> time \<Rightarrow> bool" where "after t u \<longleftrightarrow> t > u"

text \<open>\<open>t.Sub(u)\<close> saturates at the bounds of a duration.\<close>

definition min_duration :: duration where "min_duration = - (2 ^ 63)"
definition max_duration :: duration where "max_duration = 2 ^ 63 - 1"

definition time_sub :: "time \<Rightarrow> time \<Rightarrow> duration" where
  "time_sub t u = max min_duration (min max_duration (t - u))"

text \<open>
  Against a bound inside the duration range the saturation cannot be seen.
\<close>

lemma time_sub_ge [go_time]:
  "min_duration < w \<Longrightarrow> w \<le> max_duration \<Longrightarrow> w \<le> time_sub t u \<longleftrightarrow> w \<le> t - u"
  by (auto simp: time_sub_def min_duration_def max_duration_def)

lemma time_sub_gt [go_time]:
  "min_duration \<le> w \<Longrightarrow> w < max_duration \<Longrightarrow> w < time_sub t u \<longleftrightarrow> w < t - u"
  by (auto simp: time_sub_def min_duration_def max_duration_def)

lemma time_sub_lt [go_time]:
  "min_duration < w \<Longrightarrow> w \<le> max_duration \<Longrightarrow> time_sub t u < w \<longleftrightarrow> t - u < w"
  by (auto simp: time_sub_def min_duration_def max_duration_def)

lemma time_sub_bounds: "min_duration \<le> time_sub t u \<and> time_sub t u \<le> max_duration"
  by (auto simp: time_sub_def min_duration_def max_duration_def)

text \<open>
  \<open>time.Unix(sec, 0)\<close> adds the offset between the two epochs in \<open>int64\<close> arithmetic, which
  wraps; \<open>t.Unix()\<close> subtracts it again, also in \<open>int64\<close>.
\<close>

definition unix_to_internal :: int where "unix_to_internal = 62135596800"

definition time_unix :: "int \<Rightarrow> time" where
  "time_unix sec = int64_wrap (sec + unix_to_internal) * second"

definition unix :: "time \<Rightarrow> int" where
  "unix t = int64_wrap (t div second - unix_to_internal)"

lemma unix_time_unix [simp]: "in_int64 sec \<Longrightarrow> unix (time_unix sec) = sec"
proof -
  assume "in_int64 sec"
  have "time_unix sec div second = int64_wrap (sec + unix_to_internal)"
    by (simp add: time_unix_def second_def)
  then have "unix (time_unix sec) = int64_wrap (int64_wrap (sec + unix_to_internal) + (- unix_to_internal))"
    by (simp add: unix_def)
  also have "\<dots> = int64_wrap sec"
    by (subst int64_wrap_add) simp
  finally show ?thesis using \<open>in_int64 sec\<close> by simp
qed

section \<open>Contexts\<close>

text \<open>
  A \<open>context.Context\<close> as the code reads it: the error its \<open>Err\<close> method returns and the
  chain of key/value pairs \<open>WithValue\<close> has put in front. The innermost pair wins.
\<close>

datatype ctx_error = Canceled | DeadlineExceeded

record ('k, 'v) ctx =
  ctx_err :: "ctx_error option"
  ctx_pairs :: "('k \<times> 'v) list"

definition background :: "('k, 'v) ctx" where
  "background = \<lparr>ctx_err = None, ctx_pairs = []\<rparr>"

definition with_value :: "('k, 'v) ctx \<Rightarrow> 'k \<Rightarrow> 'v \<Rightarrow> ('k, 'v) ctx" where
  "with_value c k v = c\<lparr>ctx_pairs := (k, v) # ctx_pairs c\<rparr>"

definition ctx_value :: "('k, 'v) ctx \<Rightarrow> 'k \<Rightarrow> 'v option" where
  "ctx_value c k = map_of (ctx_pairs c) k"

lemma ctx_value_with_value [simp]:
  "ctx_value (with_value c k v) k' = (if k' = k then Some v else ctx_value c k')"
  by (simp add: ctx_value_def with_value_def)

lemma ctx_err_with_value [simp]: "ctx_err (with_value c k v) = ctx_err c"
  by (simp add: with_value_def)

section \<open>Numbers\<close>

lemma div_mod_inj: "x div k = y div k \<Longrightarrow> x mod k = y mod k \<Longrightarrow> x = (y :: nat)"
  by (metis div_mult_mod_eq)

lemma mult_add_inj:
  assumes "d < k" "d' < k" "m * k + d = m' * k + (d' :: nat)"
  shows "m = m' \<and> d = d'"
proof -
  have "(m * k + d) div k = m" "(m' * k + d') div k = m'" using assms(1,2) by simp_all
  with assms(3) have "m = m'" by simp
  with assms(3) show ?thesis by simp
qed

section \<open>Lists\<close>

lemma list_all_take: "list_all P xs \<Longrightarrow> list_all P (take n xs)"
  by (auto simp: list_all_iff dest: in_set_takeD)

lemma list_all_drop: "list_all P xs \<Longrightarrow> list_all P (drop n xs)"
  by (auto simp: list_all_iff dest: in_set_dropD)

lemma filter_id_iff: "filter P xs = xs \<longleftrightarrow> list_all P xs"
  by (simp add: filter_id_conv list_all_iff)

end
