(* ===== verification/Go_Strings.thy ===== *)
theory Go_Strings
  imports Go_Prelude
begin

text \<open>
  Go strings and byte slices as lists of bytes (\<open>char\<close> is one byte), and the parts of the
  standard library the components call on them: UTF-8 decoding as far as \<open>range\<close> loops and
  \<open>utf8.ValidString\<close> need it, \<open>strings.Split\<close>, \<open>Cut\<close>, \<open>TrimSpace\<close>, \<open>ContainsAny\<close>,
  \<open>strconv.FormatInt\<close> and \<open>ParseInt\<close>, \<open>encoding/hex\<close>. The lemmas are the round trips and
  character-set facts the components build on.
\<close>

section \<open>Bytes and UTF-8\<close>

definition byte :: "char \<Rightarrow> nat" where "byte c = of_char c"

definition ascii :: "char \<Rightarrow> bool" where "ascii c \<longleftrightarrow> byte c < 128"

text \<open>\<open>c < lo || c > hi\<close>, the shape of every character test of the code.\<close>

definition outside :: "char \<Rightarrow> char \<Rightarrow> char \<Rightarrow> bool" where
  "outside lo hi c \<longleftrightarrow> c < lo \<or> c > hi"

lemma byte_less_256 [simp]: "byte c < 256"
  by (simp add: byte_def)

lemma byte_eq_iff [simp]: "byte c = byte d \<longleftrightarrow> c = d"
  by (simp add: byte_def)

lemma outside_byte: "outside lo hi c \<longleftrightarrow> byte c < byte lo \<or> byte c > byte hi"
  by (simp add: outside_def byte_def less_char_def)

definition cont_byte :: "nat \<Rightarrow> nat \<Rightarrow> char \<Rightarrow> bool" where
  "cont_byte lo hi c \<longleftrightarrow> lo \<le> byte c \<and> byte c \<le> hi"

text \<open>
  The width of the UTF-8 sequence a string starts with, \<open>None\<close> where the first bytes are no
  valid sequence (Go then yields \<open>RuneError\<close> and moves on by one byte).
\<close>

definition utf8_width :: "string \<Rightarrow> nat option" where
  "utf8_width s = (case s of [] \<Rightarrow> None | c # r \<Rightarrow>
     (let b = byte c in
      if b < 128 then Some 1
      else if 194 \<le> b \<and> b \<le> 223 then
        (case r of c1 # _ \<Rightarrow> if cont_byte 128 191 c1 then Some 2 else None | _ \<Rightarrow> None)
      else if 224 \<le> b \<and> b \<le> 239 then
        (case r of c1 # c2 # _ \<Rightarrow>
           if cont_byte (if b = 224 then 160 else 128) (if b = 237 then 159 else 191) c1 \<and>
              cont_byte 128 191 c2 then Some 3 else None
         | _ \<Rightarrow> None)
      else if 240 \<le> b \<and> b \<le> 244 then
        (case r of c1 # c2 # c3 # _ \<Rightarrow>
           if cont_byte (if b = 240 then 144 else 128) (if b = 244 then 143 else 191) c1 \<and>
              cont_byte 128 191 c2 \<and> cont_byte 128 191 c3 then Some 4 else None
         | _ \<Rightarrow> None)
      else None))"

definition rune_width :: "string \<Rightarrow> nat" where
  "rune_width s = (case utf8_width s of Some w \<Rightarrow> w | None \<Rightarrow> 1)"

lemma utf8_width_pos: "utf8_width s = Some w \<Longrightarrow> 0 < w"
  by (auto simp: utf8_width_def Let_def split: list.splits if_splits)

lemma rune_width_pos [simp]: "0 < rune_width s"
  by (simp add: rune_width_def utf8_width_pos split: option.splits)

lemma utf8_width_ascii [simp]: "ascii c \<Longrightarrow> utf8_width (c # r) = Some 1"
  by (simp add: utf8_width_def ascii_def)

lemma rune_width_ascii [simp]: "ascii c \<Longrightarrow> rune_width (c # r) = 1"
  by (simp add: rune_width_def)

text \<open>
  \<open>for i := range value { char := value[i]; ... }\<close> visits the first byte of every rune,
  not every byte.
\<close>

function lead_bytes :: "string \<Rightarrow> string" where
  "lead_bytes [] = []"
| "lead_bytes (c # r) = c # lead_bytes (drop (rune_width (c # r)) (c # r))"
  by pat_completeness auto
termination
  by (relation "measure length") (auto simp del: rune_width_ascii simp: Suc_le_eq)

lemma lead_bytes_subset: "set (lead_bytes s) \<subseteq> set s"
proof (induction s rule: lead_bytes.induct)
  case (2 c r)
  then show ?case using set_drop_subset [of "rune_width (c # r)" "c # r"] by auto
qed simp

text \<open>
  Where only ASCII bytes pass the loop's test, skipping the continuation bytes makes no
  difference: the first byte of a longer sequence already fails.
\<close>

lemma lead_bytes_all_ascii:
  assumes ascii: "\<And>c. P c \<Longrightarrow> ascii c"
  shows "list_all P (lead_bytes s) \<longleftrightarrow> list_all P s"
proof (induction s rule: lead_bytes.induct)
  case (2 c r)
  show ?case
  proof (cases "P c")
    case True
    with ascii have "rune_width (c # r) = 1" by simp
    with 2 show ?thesis by simp
  qed simp
qed simp

text \<open>\<open>utf8.ValidString\<close>.\<close>

function valid_utf8 :: "string \<Rightarrow> bool" where
  "valid_utf8 s = (if s = [] then True
     else case utf8_width s of None \<Rightarrow> False | Some w \<Rightarrow> valid_utf8 (drop w s))"
  by pat_completeness auto
termination
  by (relation "measure length") (auto dest: utf8_width_pos)

declare valid_utf8.simps [simp del]

lemma valid_utf8_Nil [simp]: "valid_utf8 []"
  by (simp add: valid_utf8.simps)

lemma valid_utf8_ascii_Cons [simp]: "ascii c \<Longrightarrow> valid_utf8 (c # r) = valid_utf8 r"
  by (subst valid_utf8.simps) simp

lemma valid_utf8_ascii: "list_all ascii s \<Longrightarrow> valid_utf8 s"
  by (induction s) simp_all

section \<open>Searching and splitting\<close>

text \<open>\<open>strings.ContainsAny\<close> for a set of ASCII bytes.\<close>

definition contains_any :: "string \<Rightarrow> char list \<Rightarrow> bool" where
  "contains_any s cs = list_ex (\<lambda>c. c \<in> set cs) s"

text \<open>The bytes that break header lines: \<open>"\r\n\x00"\<close>.\<close>

definition CR :: char where "CR = char_of (13 :: nat)"
definition LF :: char where "LF = char_of (10 :: nat)"
definition NUL :: char where "NUL = char_of (0 :: nat)"

lemma byte_controls [simp]: "byte CR = 13" "byte LF = 10" "byte NUL = 0"
  by (simp_all add: byte_def CR_def LF_def NUL_def)

lemma eol_chars: "CR \<noteq> LF" "CR = CHR 0x0D" "LF = CHR 0x0A" "NUL = CHR 0x00"
  by (simp_all add: CR_def LF_def NUL_def char_of_def bit_0 bit_numeral_rec)

text \<open>\<open>strings.Split(s, sep)\<close> for a separator of one byte.\<close>

fun split_byte :: "char \<Rightarrow> string \<Rightarrow> string list" where
  "split_byte sep [] = [[]]"
| "split_byte sep (c # r) = (if c = sep then [] # split_byte sep r
     else case split_byte sep r of [] \<Rightarrow> [[c]] | p # ps \<Rightarrow> (c # p) # ps)"

fun join_bytes :: "string \<Rightarrow> string list \<Rightarrow> string" where
  "join_bytes sep [] = []"
| "join_bytes sep [p] = p"
| "join_bytes sep (p # q # ps) = p @ sep @ join_bytes sep (q # ps)"

lemma split_byte_nonempty [simp]: "split_byte sep s \<noteq> []"
  by (cases s) (auto split: list.splits)

lemma join_split [simp]: "join_bytes [sep] (split_byte sep s) = s"
proof (induction s)
  case (Cons c r)
  then show ?case by (cases "split_byte sep r"; cases "tl (split_byte sep r)") auto
qed simp

lemma split_byte_no_sep: "p \<in> set (split_byte sep s) \<Longrightarrow> sep \<notin> set p"
proof (induction s arbitrary: p)
  case (Cons c r)
  then show ?case by (cases "split_byte sep r") (auto split: if_splits)
qed simp

lemma split_byte_subset: "p \<in> set (split_byte sep s) \<Longrightarrow> set p \<subseteq> set s"
proof (induction s arbitrary: p)
  case (Cons c r)
  then show ?case by (cases "split_byte sep r") (fastforce split: if_splits)+
qed simp

lemma split_byte_single [simp]: "sep \<notin> set p \<Longrightarrow> split_byte sep p = [p]"
  by (induction p) auto

lemma split_byte_append [simp]:
  "sep \<notin> set p \<Longrightarrow> split_byte sep (p @ sep # r) = p # split_byte sep r"
  by (induction p) auto

lemma split_byte_join:
  "ps \<noteq> [] \<Longrightarrow> \<forall>p \<in> set ps. sep \<notin> set p \<Longrightarrow> split_byte sep (join_bytes [sep] ps) = ps"
  by (induction "[sep]" ps rule: join_bytes.induct) auto

text \<open>\<open>strings.Cut(s, sep)\<close> for a separator of one byte: before, after, found.\<close>

definition cut_byte :: "char \<Rightarrow> string \<Rightarrow> string \<times> string \<times> bool" where
  "cut_byte sep s = (takeWhile (\<lambda>c. c \<noteq> sep) s, drop 1 (dropWhile (\<lambda>c. c \<noteq> sep) s), sep \<in> set s)"

lemma takeWhile_until [simp]: "sep \<notin> set p \<Longrightarrow> takeWhile (\<lambda>c. c \<noteq> sep) (p @ sep # r) = p"
  by (induction p) auto

lemma dropWhile_until [simp]: "sep \<notin> set p \<Longrightarrow> dropWhile (\<lambda>c. c \<noteq> sep) (p @ sep # r) = sep # r"
  by (induction p) auto

lemma cut_byte_found: "sep \<notin> set p \<Longrightarrow> cut_byte sep (p @ sep # r) = (p, r, True)"
  by (simp add: cut_byte_def)

lemma cut_byte_decompose:
  assumes "cut_byte sep s = (p, r, True)"
  shows "s = p @ sep # r \<and> sep \<notin> set p"
proof -
  from assms have "sep \<in> set s" and p: "p = takeWhile (\<lambda>c. c \<noteq> sep) s"
    and r: "r = drop 1 (dropWhile (\<lambda>c. c \<noteq> sep) s)"
    by (auto simp: cut_byte_def)
  from \<open>sep \<in> set s\<close> obtain a b where s: "s = a @ sep # b" and "sep \<notin> set a"
    by (meson split_list_first)
  with p r show ?thesis by simp
qed

section \<open>White space\<close>

text \<open>
  The length of the Unicode white space rune a string starts with, 0 if it starts with none:
  the ASCII spaces and U+0085, U+00A0, U+1680, U+2000 to U+200A, U+2028, U+2029, U+202F,
  U+205F, U+3000 in their UTF-8 encodings.
\<close>

definition space_len :: "string \<Rightarrow> nat" where
  "space_len s = (case map byte (take 3 s) of
     [] \<Rightarrow> 0
   | b # r \<Rightarrow>
      if b \<in> {9, 10, 11, 12, 13, 32} then 1
      else if b = 194 \<and> (case r of b1 # _ \<Rightarrow> b1 \<in> {133, 160} | _ \<Rightarrow> False) then 2
      else (case r of b1 # b2 # _ \<Rightarrow>
        if (b = 225 \<and> b1 = 154 \<and> b2 = 128) \<or>
           (b = 226 \<and> b1 = 128 \<and> (128 \<le> b2 \<and> b2 \<le> 138 \<or> b2 \<in> {168, 169, 175})) \<or>
           (b = 226 \<and> b1 = 129 \<and> b2 = 159) \<or>
           (b = 227 \<and> b1 = 128 \<and> b2 = 128)
        then 3 else 0
      | _ \<Rightarrow> 0))"

text \<open>
  The same at the end of a string. The first bytes of these encodings never occur inside
  another rune, so reading backwards meets the same runes as reading forwards.
\<close>

definition space_suffix :: "string \<Rightarrow> nat" where
  "space_suffix s =
     (if s \<noteq> [] \<and> space_len (drop (length s - 1) s) = 1 then 1
      else if 2 \<le> length s \<and> space_len (drop (length s - 2) s) = 2 then 2
      else if 3 \<le> length s \<and> space_len (drop (length s - 3) s) = 3 then 3
      else 0)"

function trim_left :: "string \<Rightarrow> string" where
  "trim_left s = (if s = [] \<or> space_len s = 0 then s else trim_left (drop (space_len s) s))"
  by pat_completeness auto
termination by (relation "measure length") auto

function trim_right :: "string \<Rightarrow> string" where
  "trim_right s = (if s = [] \<or> space_suffix s = 0 then s
     else trim_right (take (length s - space_suffix s) s))"
  by pat_completeness auto
termination
proof (relation "measure length")
  fix s :: string
  assume "\<not> (s = [] \<or> space_suffix s = 0)"
  then have "0 < length s" and "0 < space_suffix s" by auto
  then show "(take (length s - space_suffix s) s, s) \<in> measure length" by auto
qed simp

declare trim_left.simps [simp del] trim_right.simps [simp del]

text \<open>\<open>strings.TrimSpace\<close>.\<close>

definition trim_space :: "string \<Rightarrow> string" where
  "trim_space s = trim_right (trim_left s)"

lemma trim_left_id: "space_len s = 0 \<Longrightarrow> trim_left s = s"
  by (simp add: trim_left.simps)

lemma trim_right_id: "space_suffix s = 0 \<Longrightarrow> trim_right s = s"
  by (simp add: trim_right.simps)

definition graphic :: "char \<Rightarrow> bool" where
  "graphic c \<longleftrightarrow> ascii c \<and> 32 < byte c"

lemma space_len_graphic [simp]: "graphic c \<Longrightarrow> space_len (c # r) = 0"
  by (auto simp: space_len_def graphic_def ascii_def split: list.splits)

lemma space_len_cases: "space_len s = 0 \<or> (\<exists>c \<in> set (take (space_len s) s). \<not> graphic c)"
  by (cases s) (auto simp: space_len_def graphic_def ascii_def split: list.splits)

lemma space_suffix_graphic:
  assumes "list_all graphic s"
  shows "space_suffix s = 0"
proof -
  have "space_len (drop n s) = 0" for n
  proof (cases "drop n s")
    case (Cons c r)
    with assms list_all_drop [of graphic s n] have "graphic c" by simp
    with Cons show ?thesis by simp
  qed (simp add: space_len_def)
  then show ?thesis by (simp add: space_suffix_def)
qed

lemma trim_space_graphic [simp]:
  assumes "list_all graphic s"
  shows "trim_space s = s"
proof -
  have "space_len s = 0"
    using assms by (cases s) (auto simp: space_len_def [of "[]"])
  then show ?thesis
    using assms by (simp add: trim_space_def trim_left_id trim_right_id space_suffix_graphic)
qed

lemma trim_left_suffix: "\<exists>p. s = p @ trim_left s"
proof (induction s rule: trim_left.induct)
  case (1 s)
  show ?case
  proof (cases "s = [] \<or> space_len s = 0")
    case False
    with 1 obtain p where "drop (space_len s) s = p @ trim_left (drop (space_len s) s)" by auto
    with False have "s = (take (space_len s) s @ p) @ trim_left s"
      by (metis append.assoc append_take_drop_id trim_left.simps)
    then show ?thesis by blast
  qed (simp add: trim_left.simps [of s])
qed

lemma trim_right_prefix: "\<exists>q. s = trim_right s @ q"
proof (induction s rule: trim_right.induct)
  case (1 s)
  show ?case
  proof (cases "s = [] \<or> space_suffix s = 0")
    case False
    let ?n = "length s - space_suffix s"
    from False 1 obtain q where "take ?n s = trim_right (take ?n s) @ q" by auto
    with False have "s = trim_right s @ (q @ drop ?n s)"
      by (metis append.assoc append_take_drop_id trim_right.simps)
    then show ?thesis by blast
  qed (simp add: trim_right.simps [of s])
qed

lemma trim_space_infix: "\<exists>p q. s = p @ trim_space s @ q"
  using trim_left_suffix [of s] trim_right_prefix [of "trim_left s"]
  by (metis trim_space_def)

lemma trim_space_subset: "set (trim_space s) \<subseteq> set s"
  using trim_space_infix [of s] by (metis UnCI set_append subsetI)

lemma length_trim_space: "length (trim_space s) \<le> length s"
  using trim_space_infix [of s] by (metis le_add1 le_add2 length_append order_trans)

section \<open>Decimal numbers\<close>

definition digit :: "nat \<Rightarrow> char" where "digit d = char_of (48 + d)"

definition is_digit :: "char \<Rightarrow> bool" where
  "is_digit c \<longleftrightarrow> \<not> outside (CHR ''0'') (CHR ''9'') c"

definition digit_val :: "char \<Rightarrow> nat" where "digit_val c = byte c - 48"

lemma is_digit_byte: "is_digit c \<longleftrightarrow> 48 \<le> byte c \<and> byte c \<le> 57"
  by (auto simp: is_digit_def outside_byte byte_def)

lemma byte_digit [simp]: "d < 10 \<Longrightarrow> byte (digit d) = 48 + d"
  by (simp add: digit_def byte_def)

lemma is_digit_digit [simp]: "d < 10 \<Longrightarrow> is_digit (digit d)"
  by (simp add: is_digit_byte)

lemma digit_val_digit [simp]: "d < 10 \<Longrightarrow> digit_val (digit d) = d"
  by (simp add: digit_val_def)

lemma digit_digit_val [simp]: "is_digit c \<Longrightarrow> digit (digit_val c) = c"
  by (simp add: is_digit_byte digit_val_def digit_def byte_def)

lemma digit_val_less [simp]: "is_digit c \<Longrightarrow> digit_val c < 10"
  by (auto simp: is_digit_byte digit_val_def)

lemma is_digit_graphic: "is_digit c \<Longrightarrow> graphic c"
  by (simp add: is_digit_byte graphic_def ascii_def)

fun nat_digits :: "nat \<Rightarrow> string" where
  "nat_digits n = (if n < 10 then [digit n] else nat_digits (n div 10) @ [digit (n mod 10)])"

declare nat_digits.simps [simp del]

text \<open>\<open>strconv.FormatInt(i, 10)\<close>.\<close>

definition format_int :: "int \<Rightarrow> string" where
  "format_int i = (if i < 0 then CHR ''-'' # nat_digits (nat (- i)) else nat_digits (nat i))"

definition digits_val :: "string \<Rightarrow> nat" where
  "digits_val s = foldl (\<lambda>n c. 10 * n + digit_val c) 0 s"

text \<open>\<open>strconv.ParseInt(s, 10, 64)\<close>; \<open>None\<close> for a syntax or range error.\<close>

definition parse_uint :: "string \<Rightarrow> nat option" where
  "parse_uint s = (if s = [] \<or> \<not> list_all is_digit s then None else Some (digits_val s))"

definition parse_int :: "string \<Rightarrow> int option" where
  "parse_int s = (case s of
     [] \<Rightarrow> None
   | c # r \<Rightarrow>
      (let neg = (c = CHR ''-''); body = (if neg \<or> c = CHR ''+'' then r else s) in
       case parse_uint body of
         None \<Rightarrow> None
       | Some n \<Rightarrow>
          if neg then (if n \<le> 2 ^ 63 then Some (- int n) else None)
          else (if n < 2 ^ 63 then Some (int n) else None)))"

lemma nat_digits_nonempty [simp]: "nat_digits n \<noteq> []"
  by (subst nat_digits.simps) simp

lemma format_int_nonempty [simp]: "format_int i \<noteq> []"
  by (simp add: format_int_def)

lemma nat_digits_all [simp]: "list_all is_digit (nat_digits n)"
proof (induction n rule: nat_digits.induct)
  case (1 n)
  then show ?case by (subst nat_digits.simps) simp
qed

lemma digits_val_snoc: "digits_val (s @ [c]) = 10 * digits_val s + digit_val c"
  by (simp add: digits_val_def)

lemma digits_val_nat_digits [simp]: "digits_val (nat_digits n) = n"
proof (induction n rule: nat_digits.induct)
  case (1 n)
  show ?case
  proof (cases "n < 10")
    case True
    then show ?thesis by (subst nat_digits.simps) (simp add: digits_val_def)
  next
    case False
    with 1 show ?thesis by (subst nat_digits.simps) (simp add: digits_val_snoc)
  qed
qed

lemma digit_val_eq_0: "is_digit c \<Longrightarrow> digit_val c = 0 \<longleftrightarrow> c = CHR ''0''"
proof -
  assume "is_digit c"
  then have "digit_val c = 0 \<longleftrightarrow> byte c = byte (CHR ''0'')"
    by (auto simp: is_digit_byte digit_val_def byte_def [of "CHR ''0''"])
  then show ?thesis by simp
qed

lemma length_nat_digits: "n < 10 ^ k \<Longrightarrow> 0 < k \<Longrightarrow> length (nat_digits n) \<le> k"
proof (induction n arbitrary: k rule: nat_digits.induct)
  case (1 n)
  show ?case
  proof (cases "n < 10")
    case True
    with 1(3) show ?thesis by (subst nat_digits.simps) simp
  next
    case False
    obtain j where k: "k = Suc j" using 1(3) by (cases k) auto
    with 1(2) have "n div 10 < 10 ^ j" by (simp add: less_mult_imp_div_less mult.commute)
    moreover have "0 < j" using False 1(2) k by (cases j) auto
    ultimately have "length (nat_digits (n div 10)) \<le> j" using 1(1) False by blast
    with False k show ?thesis by (subst nat_digits.simps) simp
  qed
qed

lemma nat_digits_graphic [simp]: "list_all graphic (nat_digits n)"
  using nat_digits_all [of n] by (auto simp: list_all_iff intro: is_digit_graphic)

lemma nat_digits_not_in: "\<not> is_digit c \<Longrightarrow> c \<notin> set (nat_digits n)"
  using nat_digits_all [of n] by (auto simp: list_all_iff)

text \<open>A decimal numeral without superfluous zeros is the one \<open>FormatInt\<close> prints.\<close>

definition canonical_digits :: "string \<Rightarrow> bool" where
  "canonical_digits s \<longleftrightarrow> s \<noteq> [] \<and> list_all is_digit s \<and> (1 < length s \<longrightarrow> hd s \<noteq> CHR ''0'')"

lemma digits_val_pos:
  "list_all is_digit s \<Longrightarrow> s \<noteq> [] \<Longrightarrow> hd s \<noteq> CHR ''0'' \<Longrightarrow> 0 < digits_val s"
proof (induction s rule: rev_induct)
  case (snoc c s)
  show ?case
  proof (cases "s = []")
    case True
    with snoc.prems have "digit_val c \<noteq> 0" by (simp add: digit_val_eq_0)
    with True show ?thesis by (simp add: digits_val_def)
  next
    case False
    with snoc show ?thesis by (simp add: digits_val_snoc)
  qed
qed simp

lemma nat_digits_digits_val:
  "canonical_digits s \<Longrightarrow> nat_digits (digits_val s) = s"
proof (induction s rule: rev_induct)
  case (snoc c s)
  from snoc.prems have c: "is_digit c" by (simp add: canonical_digits_def)
  show ?case
  proof (cases "s = []")
    case True
    with c show ?thesis by (subst nat_digits.simps) (simp add: digits_val_def)
  next
    case False
    with snoc.prems have can: "canonical_digits s" and "0 < digits_val s"
      by (auto simp: canonical_digits_def intro: digits_val_pos)
    then have "\<not> digits_val (s @ [c]) < 10" by (simp add: digits_val_snoc)
    moreover have "digits_val (s @ [c]) div 10 = digits_val s"
      and "digits_val (s @ [c]) mod 10 = digit_val c"
      using c by (simp_all add: digits_val_snoc)
    ultimately show ?thesis
      using c snoc.IH [OF can] by (subst nat_digits.simps) simp
  qed
qed (simp add: canonical_digits_def)

lemma canonical_nat_digits: "canonical_digits (nat_digits n)"
proof (induction n rule: nat_digits.induct)
  case (1 n)
  show ?case
  proof (cases "n < 10")
    case True
    then show ?thesis by (subst nat_digits.simps) (simp add: canonical_digits_def)
  next
    case False
    let ?m = "nat_digits (n div 10)"
    from False 1 have can: "canonical_digits ?m" by simp
    have "hd ?m \<noteq> CHR ''0''"
    proof
      assume "hd ?m = CHR ''0''"
      with can have "?m = [CHR ''0'']"
        by (cases ?m) (auto simp: canonical_digits_def)
      then have "digits_val ?m = 0" by (simp add: digits_val_def digit_val_def byte_def)
      then have "n div 10 = 0" by simp
      with False show False by simp
    qed
    with False can show ?thesis
      by (subst nat_digits.simps) (simp add: canonical_digits_def)
  qed
qed

lemma is_digit_not_sign: "is_digit c \<Longrightarrow> c \<noteq> CHR ''-'' \<and> c \<noteq> CHR ''+''"
  by (auto simp: is_digit_byte byte_def)

lemma parse_int_digits:
  assumes "s \<noteq> []" "list_all is_digit s"
  shows "parse_int s = (if digits_val s < 2 ^ 63 then Some (int (digits_val s)) else None)"
  using assms is_digit_not_sign by (cases s) (auto simp: parse_int_def parse_uint_def Let_def)

lemma parse_format_int:
  "0 \<le> i \<Longrightarrow> in_int64 i \<Longrightarrow> parse_int (format_int i) = Some i"
  by (simp add: format_int_def parse_int_digits in_int64_def)

section \<open>Hexadecimal\<close>

definition hex_digit :: "nat \<Rightarrow> char" where
  "hex_digit n = char_of (if n < 10 then 48 + n else 87 + n)"

definition hex_val :: "char \<Rightarrow> nat option" where
  "hex_val c = (let b = byte c in
     if 48 \<le> b \<and> b \<le> 57 then Some (b - 48)
     else if 97 \<le> b \<and> b \<le> 102 then Some (b - 87)
     else if 65 \<le> b \<and> b \<le> 70 then Some (b - 55)
     else None)"

text \<open>\<open>hex.EncodeToString\<close> and \<open>hex.DecodeString\<close> (\<open>None\<close> for its errors).\<close>

fun hex_encode :: "string \<Rightarrow> string" where
  "hex_encode [] = []"
| "hex_encode (c # r) = hex_digit (byte c div 16) # hex_digit (byte c mod 16) # hex_encode r"

fun hex_decode :: "string \<Rightarrow> string option" where
  "hex_decode [] = Some []"
| "hex_decode [c] = None"
| "hex_decode (c # d # r) = (case (hex_val c, hex_val d, hex_decode r) of
     (Some h, Some l, Some bs) \<Rightarrow> Some (char_of (16 * h + l) # bs)
   | _ \<Rightarrow> None)"

lemma byte_hex_digit: "n < 16 \<Longrightarrow> byte (hex_digit n) = (if n < 10 then 48 + n else 87 + n)"
  by (simp add: hex_digit_def byte_def)

lemma hex_val_digit [simp]: "n < 16 \<Longrightarrow> hex_val (hex_digit n) = Some n"
  by (simp add: hex_val_def byte_hex_digit Let_def)

lemma hex_val_less: "hex_val c = Some n \<Longrightarrow> n < 16"
  by (auto simp: hex_val_def Let_def split: if_splits)

lemma length_hex_encode [simp]: "length (hex_encode s) = 2 * length s"
  by (induction s) auto

lemma hex_decode_encode [simp]: "hex_decode (hex_encode s) = Some s"
proof (induction s)
  case (Cons c r)
  have "byte c div 16 < 16" using byte_less_256 [of c] by (simp add: less_mult_imp_div_less)
  with Cons show ?case by (simp add: byte_def)
qed simp

lemma length_hex_decode: "hex_decode s = Some bs \<Longrightarrow> length s = 2 * length bs"
  by (induction s arbitrary: bs rule: hex_decode.induct) (auto split: option.splits)

lemma hex_digit_graphic: "n < 16 \<Longrightarrow> graphic (hex_digit n)"
  by (simp add: graphic_def ascii_def byte_hex_digit)

lemma hex_encode_graphic [simp]: "list_all graphic (hex_encode s)"
  using byte_less_256 by (induction s) (auto intro!: hex_digit_graphic simp: less_mult_imp_div_less)

lemma hex_encode_bytes: "c \<in> set (hex_encode s) \<Longrightarrow> is_digit c \<or> 97 \<le> byte c \<and> byte c \<le> 102"
proof (induction s)
  case (Cons d r)
  have "byte d div 16 < 16" using byte_less_256 [of d] by (simp add: less_mult_imp_div_less)
  with Cons show ?case by (auto simp: byte_hex_digit is_digit_byte split: if_splits)
qed simp

text \<open>\<open>strings.ToLower\<close> on an ASCII string.\<close>

definition lower_ascii :: "char \<Rightarrow> char" where
  "lower_ascii c = (if \<not> outside (CHR ''A'') (CHR ''Z'') c then char_of (byte c + 32) else c)"

lemma lower_hex_digit [simp]: "n < 16 \<Longrightarrow> lower_ascii (hex_digit n) = hex_digit n"
proof -
  assume "n < 16"
  then have "outside (CHR ''A'') (CHR ''Z'') (hex_digit n)"
    unfolding outside_byte by (simp add: byte_hex_digit) (simp add: byte_def)
  then show ?thesis by (simp add: lower_ascii_def)
qed

lemma lower_hex_encode [simp]: "map lower_ascii (hex_encode s) = hex_encode s"
  using byte_less_256 by (induction s) (auto simp: less_mult_imp_div_less)

lemma lower_hex_val:
  assumes "hex_val c = Some n" "lower_ascii c = c"
  shows "hex_digit n = c"
proof -
  have "outside (CHR ''A'') (CHR ''Z'') c"
  proof (rule ccontr)
    assume "\<not> ?thesis"
    then have "byte (lower_ascii c) = byte c + 32" and "byte c \<le> 90"
      by (auto simp: lower_ascii_def outside_byte byte_def)
    with assms(2) show False by simp
  qed
  with assms(1) show ?thesis
    unfolding outside_byte
    by (auto simp: hex_val_def hex_digit_def byte_def Let_def split: if_splits)
qed

lemma hex_encode_decode:
  "hex_decode s = Some bs \<Longrightarrow> map lower_ascii s = s \<Longrightarrow> hex_encode bs = s"
proof (induction s arbitrary: bs rule: hex_decode.induct)
  case (3 c d r)
  then obtain h l bs' where *: "hex_val c = Some h" "hex_val d = Some l" "hex_decode r = Some bs'"
    "bs = char_of (16 * h + l) # bs'" by (auto split: option.splits)
  with 3 show ?case
    using hex_val_less [of c h] hex_val_less [of d l] lower_hex_val
    by (auto simp: byte_def)
qed auto

end
