(* ===== verification/Validators.thy ===== *)
theory Validators
  imports Go_Strings
begin

text \<open>
  The contract the identifier checks of all packages share (\<open>validIdentifier\<close>,
  \<open>validFeature\<close>, \<open>validTopic\<close>, \<open>validMetadataKey\<close>, \<open>validRequestID\<close>): a length
  bound and a loop \<open>for i := range value\<close> over a class of graphic ASCII bytes. The locale states
  it once; every package interprets it on its own definition and gets the byte-wise reading, the
  absence of separators and the closure facts from here.

  The second part is the check of optional free text (\<open>validOptionalText\<close>, \<open>validText\<close>,
  \<open>validHeaderText\<close>), which audit, storage and mail each define with the same body.
\<close>

locale byte_validator =
  fixes valid :: "string \<Rightarrow> bool" and limit :: nat and allowed :: "char \<Rightarrow> bool"
  assumes valid_scan: "valid s \<longleftrightarrow> s \<noteq> [] \<and> length s \<le> limit \<and> list_all allowed (lead_bytes s)"
    and allowed_graphic: "allowed c \<Longrightarrow> graphic c"
begin

text \<open>The loop over rune starts checks every byte.\<close>

lemma valid_iff: "valid s \<longleftrightarrow> s \<noteq> [] \<and> length s \<le> limit \<and> list_all allowed s"
proof -
  have "list_all allowed (lead_bytes s) \<longleftrightarrow> list_all allowed s"
    by (rule lead_bytes_all_ascii) (auto dest: allowed_graphic simp: graphic_def)
  then show ?thesis by (simp add: valid_scan)
qed

lemma valid_graphic: "valid s \<Longrightarrow> list_all graphic s"
  by (auto simp: valid_iff list_all_iff allowed_graphic)

lemma valid_nonempty: "valid s \<Longrightarrow> s \<noteq> []"
  by (simp add: valid_iff)

lemma valid_length: "valid s \<Longrightarrow> length s \<le> limit"
  by (simp add: valid_iff)

lemma valid_no_control:
  assumes "valid s" "c \<in> set s"
  shows "33 \<le> byte c \<and> byte c < 128"
  using valid_graphic [OF assms(1)] assms(2) by (auto simp: list_all_iff graphic_def ascii_def)

lemma valid_utf8_text: "valid s \<Longrightarrow> valid_utf8 s"
  by (rule valid_utf8_ascii) (auto dest!: valid_graphic simp: list_all_iff graphic_def)

lemma valid_trim [simp]: "valid s \<Longrightarrow> trim_space s = s"
  by (simp add: valid_graphic)

lemma valid_append_left: "valid (a @ b) \<Longrightarrow> a \<noteq> [] \<Longrightarrow> valid a"
  by (simp add: valid_iff)

lemma valid_append_right: "valid (a @ b) \<Longrightarrow> b \<noteq> [] \<Longrightarrow> valid b"
  by (simp add: valid_iff)

end

section \<open>Character classes of the code\<close>

text \<open>The rejecting tests as the sources write them, up to the extra characters.\<close>

definition not_alnum :: "char \<Rightarrow> bool" where
  "not_alnum c \<longleftrightarrow> outside (CHR ''a'') (CHR ''z'') c \<and> outside (CHR ''A'') (CHR ''Z'') c \<and>
     outside (CHR ''0'') (CHR ''9'') c"

definition not_lower_alnum :: "char \<Rightarrow> bool" where
  "not_lower_alnum c \<longleftrightarrow> outside (CHR ''a'') (CHR ''z'') c \<and> outside (CHR ''0'') (CHR ''9'') c"

lemma alnum_graphic: "\<not> not_alnum c \<Longrightarrow> graphic c"
  by (auto simp: not_alnum_def outside_byte graphic_def ascii_def byte_def)

lemma lower_alnum_graphic: "\<not> not_lower_alnum c \<Longrightarrow> graphic c"
  by (auto simp: not_lower_alnum_def outside_byte graphic_def ascii_def byte_def)

lemma punctuation_graphic [simp]:
  "graphic (CHR ''-'')" "graphic (CHR ''_'')" "graphic (CHR ''.'')" "graphic (CHR '':'')"
  "graphic (CHR ''/'')" "graphic (CHR '','')" "graphic (CHR ''='')"
  by (simp_all add: graphic_def ascii_def byte_def)

lemmas char_class_graphic = alnum_graphic lower_alnum_graphic

section \<open>Optional text\<close>

text \<open>\<open>audit.validOptionalText\<close>, \<open>storage.validText\<close> and \<open>mail.validHeaderText\<close> have this body.\<close>

definition text_ok :: "string \<Rightarrow> nat \<Rightarrow> bool" where
  "text_ok value limit =
     (if length value > limit \<or> \<not> valid_utf8 value then False
      else \<not> contains_any value [CR, LF, NUL])"

lemma text_ok_iff:
  "text_ok v n \<longleftrightarrow> length v \<le> n \<and> valid_utf8 v \<and> CR \<notin> set v \<and> LF \<notin> set v \<and> NUL \<notin> set v"
  by (auto simp: text_ok_def contains_any_def list_ex_iff)

lemma text_ok_Nil [simp]: "text_ok [] n"
  by (simp add: text_ok_iff)

end
