(* ===== verification/Authz.thy ===== *)
theory Authz
  imports Validators
begin

text \<open>
  \<open>authz/authz.go\<close>: the scope an application attaches to a context and the check of one explicit
  action. The application's \<open>Authorizer\<close> is a parameter: a function from the context and the
  request to its error.
\<close>

datatype 'e authz_error = ErrUnauthenticated | ErrForbidden | ErrInvalidScope | AuthorizerErr 'e

record scope =
  SubjectID :: string
  TenantID :: string

record authz_request =
  rq_scope :: scope
  rq_action :: string

text \<open>The key type is private to the package; other packages' pairs cannot collide with it.\<close>

datatype authz_key = ScopeKey | ForeignKey string
datatype authz_value = ScopeValue scope | ForeignValue string

type_synonym authz_ctx = "(authz_key, authz_value) ctx"
type_synonym 'e authorizer = "authz_ctx \<Rightarrow> authz_request \<Rightarrow> 'e option"

definition maxIdentifierBytes_authz :: nat where "maxIdentifierBytes_authz = 128"

definition validIdentifier_authz :: "string \<Rightarrow> bool" where
  "validIdentifier_authz value =
     (if length value = 0 \<or> length value > maxIdentifierBytes_authz then False
      else list_all (\<lambda>char. \<not> (not_alnum char \<and> char \<noteq> CHR ''-'' \<and> char \<noteq> CHR ''_'' \<and>
        char \<noteq> CHR ''.'' \<and> char \<noteq> CHR '':'')) (lead_bytes value))"

definition Request_Validate :: "authz_request \<Rightarrow> 'e authz_error option" where
  "Request_Validate r =
     (if \<not> validIdentifier_authz (SubjectID (rq_scope r)) \<or>
         \<not> validIdentifier_authz (TenantID (rq_scope r)) \<or>
         \<not> validIdentifier_authz (rq_action r)
      then Some ErrInvalidScope else None)"

definition WithScope :: "authz_ctx \<Rightarrow> scope \<Rightarrow> authz_ctx" where
  "WithScope ctx scope = with_value ctx ScopeKey (ScopeValue scope)"

text \<open>The failed type assertion yields the zero scope and false.\<close>

definition ScopeFrom :: "authz_ctx \<Rightarrow> scope \<times> bool" where
  "ScopeFrom ctx = (case ctx_value ctx ScopeKey of
     Some (ScopeValue s) \<Rightarrow> (s, True)
   | _ \<Rightarrow> (\<lparr>SubjectID = [], TenantID = []\<rparr>, False))"

definition Require :: "authz_ctx \<Rightarrow> 'e authorizer option \<Rightarrow> string \<Rightarrow> 'e authz_error option" where
  "Require ctx authorizer action =
     (let (scope, ok) = ScopeFrom ctx in
      if \<not> ok \<or> SubjectID scope = [] then Some ErrUnauthenticated
      else let request = \<lparr>rq_scope = scope, rq_action = action\<rparr> in
        case Request_Validate request of
          Some err \<Rightarrow> Some err
        | None \<Rightarrow>
            (case authorizer of
               None \<Rightarrow> Some ErrForbidden
             | Some authorize \<Rightarrow>
                 (case authorize ctx request of
                    Some err \<Rightarrow> Some (AuthorizerErr err)
                  | None \<Rightarrow> None)))"

section \<open>The identifier check\<close>

interpretation authz_id: byte_validator validIdentifier_authz maxIdentifierBytes_authz
  "\<lambda>char. \<not> (not_alnum char \<and> char \<noteq> CHR ''-'' \<and> char \<noteq> CHR ''_'' \<and> char \<noteq> CHR ''.'' \<and> char \<noteq> CHR '':'')"
  by unfold_locales (auto simp: validIdentifier_authz_def dest: char_class_graphic)

lemma Request_Validate_None:
  "Request_Validate r = None \<longleftrightarrow> validIdentifier_authz (SubjectID (rq_scope r)) \<and>
     validIdentifier_authz (TenantID (rq_scope r)) \<and> validIdentifier_authz (rq_action r)"
  by (simp add: Request_Validate_def)

section \<open>Scopes\<close>

lemma ScopeFrom_WithScope [simp]: "ScopeFrom (WithScope ctx s) = (s, True)"
  by (simp add: ScopeFrom_def WithScope_def)

lemma ScopeFrom_foreign [simp]: "ScopeFrom (with_value ctx (ForeignKey k) v) = ScopeFrom ctx"
  by (simp add: ScopeFrom_def)

lemma ScopeFrom_background [simp]: "snd (ScopeFrom background) = False"
  by (simp add: ScopeFrom_def ctx_value_def background_def)

section \<open>Require\<close>

text \<open>What an identifier is, by its bytes: 1 to 128 ASCII letters, digits, dashes, dots, underscores, colons.\<close>

definition identifier_byte :: "nat \<Rightarrow> bool" where
  "identifier_byte b \<longleftrightarrow> 97 \<le> b \<and> b \<le> 122 \<or> 65 \<le> b \<and> b \<le> 90 \<or> 48 \<le> b \<and> b \<le> 57 \<or> b \<in> {45, 46, 58, 95}"

definition scope_identifier :: "string \<Rightarrow> bool" where
  "scope_identifier v \<longleftrightarrow> 1 \<le> length v \<and> length v \<le> 128 \<and> list_all identifier_byte (map of_char v)"

lemma byte_is: "c = d \<longleftrightarrow> byte c = byte d"
  by (simp add: byte_def)

lemma validIdentifier_authz_iff: "validIdentifier_authz v \<longleftrightarrow> scope_identifier v"
proof -
  have "\<not> (not_alnum c \<and> c \<noteq> CHR ''-'' \<and> c \<noteq> CHR ''_'' \<and> c \<noteq> CHR ''.'' \<and> c \<noteq> CHR '':'') \<longleftrightarrow>
      identifier_byte (of_char c)" for c
    unfolding byte_is [of c] by (auto simp: identifier_byte_def not_alnum_def outside_byte byte_def)
  then show ?thesis
    by (cases v) (simp_all add: authz_id.valid_iff scope_identifier_def maxIdentifierBytes_authz_def list.pred_map comp_def)
qed

text \<open>
  C33. \<open>Require\<close> fails closed: it returns the nil error exactly when the innermost scope attached to the
  context names a subject and a tenant, the subject, the tenant and the action are each 1 to 128 bytes
  of ASCII letters, digits, dashes, dots, underscores and colons, an authorizer is configured, and that
  authorizer, asked about exactly this subject, tenant and action, has no objection.
\<close>

theorem Require_allows_iff:
  "Require ctx authorizer action = None \<longleftrightarrow>
     (\<exists>subject tenant authorize.
        map_of (ctx_pairs ctx) ScopeKey = Some (ScopeValue \<lparr>SubjectID = subject, TenantID = tenant\<rparr>) \<and>
        scope_identifier subject \<and> scope_identifier tenant \<and> scope_identifier action \<and> authorizer = Some authorize \<and>
        authorize ctx \<lparr>rq_scope = \<lparr>SubjectID = subject, TenantID = tenant\<rparr>, rq_action = action\<rparr> = None)"
proof (cases "map_of (ctx_pairs ctx) ScopeKey")
  case None
  then show ?thesis by (simp add: Require_def ScopeFrom_def ctx_value_def)
next
  case (Some v)
  show ?thesis
  proof (cases v)
    case (ScopeValue sc)
    moreover obtain subject tenant where "sc = \<lparr>SubjectID = subject, TenantID = tenant\<rparr>" by (cases sc)
    ultimately show ?thesis
      by (auto simp: Require_def ScopeFrom_def ctx_value_def Some Request_Validate_def validIdentifier_authz_iff
          scope_identifier_def split: option.splits)
  next
    case (ForeignValue x)
    then show ?thesis by (simp add: Require_def ScopeFrom_def ctx_value_def Some)
  qed
qed

text \<open>
  The errors are classified in the order of the checks and the authorizer has no say before
  them: a context without a subject is unauthenticated, a malformed request is rejected, whatever
  the authorizer would answer, and only a well-formed request reaches it.
\<close>

theorem Require_errors:
  "Require (WithScope ctx s) authorizer action =
     (if SubjectID s = [] then Some ErrUnauthenticated
      else if \<not> (validIdentifier_authz (SubjectID s) \<and> validIdentifier_authz (TenantID s) \<and>
                 validIdentifier_authz action) then Some ErrInvalidScope
      else case authorizer of
        None \<Rightarrow> Some ErrForbidden
      | Some authorize \<Rightarrow>
          map_option AuthorizerErr
            (authorize (WithScope ctx s) \<lparr>rq_scope = s, rq_action = action\<rparr>))"
  by (auto simp: Require_def Let_def Request_Validate_def split: option.splits)

end
