(* ===== verification/Entitlement.thy ===== *)
theory Entitlement
  imports Validators "HOL-Library.Multiset"
begin

text \<open>
  \<open>entitlement/entitlement.go\<close>: the decision whether the active grants of a customer cover a
  requirement. Quantities are \<open>uint64\<close> words, as in the code; the specification below sums
  them as unbounded numbers, so the equivalence shows that the capped aggregation of the loop
  neither overflows nor underflows.
\<close>

section \<open>Data\<close>

datatype ent_error = ErrInvalidRequirement | ErrInvalidGrant | ErrInvalidTime

record requirement =
  rq_Feature :: string
  rq_Quantity :: u64

record grant =
  g_Feature :: string
  g_Quantity :: u64
  StartsAt :: time
  EndsAt :: time
  RevokedAt :: time

datatype reason = ReasonUnknown | ReasonGranted | ReasonNoGrant | ReasonNotStarted
  | ReasonExpired | ReasonRevoked | ReasonInsufficientQuantity

record decision =
  Allowed :: bool
  Reason :: reason
  Granted :: u64

definition MaxGrants :: nat where "MaxGrants = 128"
definition MaxFeatureBytes :: nat where "MaxFeatureBytes = 128"

section \<open>Operations\<close>

definition validFeature :: "string \<Rightarrow> bool" where
  "validFeature value =
     (if length value = 0 \<or> length value > MaxFeatureBytes then False
      else list_all (\<lambda>char. \<not> (not_alnum char \<and> char \<noteq> CHR ''.'' \<and> char \<noteq> CHR ''_'' \<and>
        char \<noteq> CHR ''-'')) (lead_bytes value))"

definition Requirement_Validate :: "requirement \<Rightarrow> ent_error option" where
  "Requirement_Validate r =
     (if \<not> validFeature (rq_Feature r) \<or> rq_Quantity r = 0 then Some ErrInvalidRequirement else None)"

definition Grant_Validate :: "grant \<Rightarrow> ent_error option" where
  "Grant_Validate g =
     (if \<not> validFeature (g_Feature g) \<or> g_Quantity g = 0 then Some ErrInvalidGrant
      else if \<not> is_zero (StartsAt g) \<and> \<not> is_zero (EndsAt g) \<and> \<not> after (EndsAt g) (StartsAt g)
      then Some ErrInvalidGrant
      else None)"

text \<open>The variables of the loop.\<close>

record tally =
  granted :: u64
  matched :: bool
  notStarted :: bool
  expired :: bool
  revoked :: bool
  active :: bool

fun decide_loop :: "time \<Rightarrow> requirement \<Rightarrow> grant list \<Rightarrow> tally \<Rightarrow> ent_error + tally" where
  "decide_loop now r [] t = Inr t"
| "decide_loop now r (g # gs) t =
     (case Grant_Validate g of
        Some err \<Rightarrow> Inl err
      | None \<Rightarrow>
          if g_Feature g \<noteq> rq_Feature r then decide_loop now r gs t
          else let t = t\<lparr>matched := True\<rparr> in
          if \<not> is_zero (RevokedAt g) \<and> \<not> after (RevokedAt g) now
          then decide_loop now r gs (t\<lparr>revoked := True\<rparr>)
          else if \<not> is_zero (StartsAt g) \<and> after (StartsAt g) now
          then decide_loop now r gs (t\<lparr>notStarted := True\<rparr>)
          else if \<not> is_zero (EndsAt g) \<and> \<not> after (EndsAt g) now
          then decide_loop now r gs (t\<lparr>expired := True\<rparr>)
          else let t = t\<lparr>active := True\<rparr>; remaining = rq_Quantity r - granted t in
            if g_Quantity g \<ge> remaining
            then decide_loop now r gs (t\<lparr>granted := rq_Quantity r\<rparr>)
            else decide_loop now r gs (t\<lparr>granted := granted t + g_Quantity g\<rparr>))"

definition zero_tally :: tally where
  "zero_tally = \<lparr>granted = 0, matched = False, notStarted = False, expired = False,
     revoked = False, active = False\<rparr>"

text \<open>A composite literal leaves the fields it does not name at their zero values.\<close>

definition verdict :: "requirement \<Rightarrow> tally \<Rightarrow> decision" where
  "verdict r t =
     (if granted t = rq_Quantity r
      then \<lparr>Allowed = True, Reason = ReasonGranted, Granted = granted t\<rparr>
      else if active t
      then \<lparr>Allowed = False, Reason = ReasonInsufficientQuantity, Granted = granted t\<rparr>
      else if \<not> matched t then \<lparr>Allowed = False, Reason = ReasonNoGrant, Granted = 0\<rparr>
      else if revoked t then \<lparr>Allowed = False, Reason = ReasonRevoked, Granted = 0\<rparr>
      else if notStarted t then \<lparr>Allowed = False, Reason = ReasonNotStarted, Granted = 0\<rparr>
      else if expired t then \<lparr>Allowed = False, Reason = ReasonExpired, Granted = 0\<rparr>
      else \<lparr>Allowed = False, Reason = ReasonNoGrant, Granted = 0\<rparr>)"

definition Decide :: "time \<Rightarrow> requirement \<Rightarrow> grant list \<Rightarrow> ent_error + decision" where
  "Decide now r grants =
     (if is_zero now then Inl ErrInvalidTime
      else case Requirement_Validate r of
        Some err \<Rightarrow> Inl err
      | None \<Rightarrow>
          if length grants > MaxGrants then Inl ErrInvalidGrant
          else case decide_loop now r grants zero_tally of
            Inl err \<Rightarrow> Inl err
          | Inr t \<Rightarrow> Inr (verdict r t))"

section \<open>The feature check\<close>

interpretation feature_id: byte_validator validFeature MaxFeatureBytes
  "\<lambda>char. \<not> (not_alnum char \<and> char \<noteq> CHR ''.'' \<and> char \<noteq> CHR ''_'' \<and> char \<noteq> CHR ''-'')"
  by unfold_locales (auto simp: validFeature_def dest: char_class_graphic)

section \<open>Specification\<close>

definition is_revoked :: "time \<Rightarrow> grant \<Rightarrow> bool" where
  "is_revoked now g \<longleftrightarrow> RevokedAt g \<noteq> 0 \<and> RevokedAt g \<le> now"

definition is_pending :: "time \<Rightarrow> grant \<Rightarrow> bool" where
  "is_pending now g \<longleftrightarrow> StartsAt g \<noteq> 0 \<and> now < StartsAt g"

definition is_over :: "time \<Rightarrow> grant \<Rightarrow> bool" where
  "is_over now g \<longleftrightarrow> EndsAt g \<noteq> 0 \<and> EndsAt g \<le> now"

definition is_active :: "time \<Rightarrow> grant \<Rightarrow> bool" where
  "is_active now g \<longleftrightarrow> \<not> is_revoked now g \<and> \<not> is_pending now g \<and> \<not> is_over now g"

definition for_feature :: "requirement \<Rightarrow> grant list \<Rightarrow> grant list" where
  "for_feature r gs = filter (\<lambda>g. g_Feature g = rq_Feature r) gs"

text \<open>The quantity the active grants add up to, as an unbounded number.\<close>

definition available :: "time \<Rightarrow> requirement \<Rightarrow> grant list \<Rightarrow> nat" where
  "available now r gs = sum_list (map (\<lambda>g. unat (g_Quantity g)) (filter (is_active now) (for_feature r gs)))"

definition decision_spec :: "time \<Rightarrow> requirement \<Rightarrow> grant list \<Rightarrow> decision" where
  "decision_spec now r gs =
     (let ms = for_feature r gs; total = available now r gs in
      if unat (rq_Quantity r) \<le> total
      then \<lparr>Allowed = True, Reason = ReasonGranted, Granted = rq_Quantity r\<rparr>
      else if list_ex (is_active now) ms
      then \<lparr>Allowed = False, Reason = ReasonInsufficientQuantity, Granted = of_nat total\<rparr>
      else if ms = [] then \<lparr>Allowed = False, Reason = ReasonNoGrant, Granted = 0\<rparr>
      else if list_ex (is_revoked now) ms then \<lparr>Allowed = False, Reason = ReasonRevoked, Granted = 0\<rparr>
      else if list_ex (is_pending now) ms then \<lparr>Allowed = False, Reason = ReasonNotStarted, Granted = 0\<rparr>
      else \<lparr>Allowed = False, Reason = ReasonExpired, Granted = 0\<rparr>)"

lemmas grant_state_defs = is_revoked_def is_pending_def is_over_def is_active_def is_zero_def after_def

section \<open>The loop computes the specification\<close>

text \<open>The first invalid grant stops the loop, and there is only one error it can report.\<close>

lemma Grant_Validate_err: "Grant_Validate g = Some e \<Longrightarrow> e = ErrInvalidGrant"
  by (auto simp: Grant_Validate_def split: if_splits)

lemma decide_loop_invalid:
  "list_ex (\<lambda>g. Grant_Validate g \<noteq> None) gs \<Longrightarrow> decide_loop now r gs t = Inl ErrInvalidGrant"
  by (induction gs arbitrary: t) (auto simp: Let_def dest: Grant_Validate_err split: option.splits)

text \<open>One step of the capped addition on words is capped addition on numbers.\<close>

lemma capped_add:
  fixes q g x :: u64
  assumes "unat q = min (unat r) n" and "q \<le> r"
  shows "unat (if x \<ge> r - q then r else q + x) = min (unat r) (n + unat x)"
proof -
  from assms(2) have sub: "unat (r - q) = unat r - unat q" by (simp add: unat_sub)
  have le: "unat q \<le> unat r" using assms(2) by (simp add: word_le_nat_alt)
  show ?thesis
  proof (cases "x \<ge> r - q")
    case True
    then have "unat r - unat q \<le> unat x" by (simp add: word_le_nat_alt sub)
    with assms(1) le True show ?thesis by (auto simp: min_def split: if_splits)
  next
    case False
    then have "unat x < unat r - unat q" by (simp add: word_le_nat_alt sub)
    moreover have "unat r < 2 ^ 64" using unsigned_less [of r] by simp
    ultimately have "unat (q + x) = unat q + unat x" by (simp add: unat_word_ariths)
    with False assms(1) le \<open>unat x < unat r - unat q\<close> show ?thesis
      by (auto simp: min_def split: if_splits)
  qed
qed

text \<open>
  The loop invariant: the flags record what the grants seen so far contain, and \<open>granted\<close> is
  their available quantity capped at the requirement.
\<close>

definition tally_of :: "time \<Rightarrow> requirement \<Rightarrow> grant list \<Rightarrow> tally \<Rightarrow> bool" where
  "tally_of now r seen t \<longleftrightarrow>
     unat (granted t) = min (unat (rq_Quantity r)) (available now r seen) \<and>
     (matched t \<longleftrightarrow> for_feature r seen \<noteq> []) \<and>
     (active t \<longleftrightarrow> list_ex (is_active now) (for_feature r seen)) \<and>
     (revoked t \<longleftrightarrow> list_ex (is_revoked now) (for_feature r seen)) \<and>
     (notStarted t \<longrightarrow> list_ex (is_pending now) (for_feature r seen)) \<and>
     (\<not> revoked t \<longrightarrow> notStarted t = list_ex (is_pending now) (for_feature r seen)) \<and>
     (for_feature r seen \<noteq> [] \<longrightarrow> active t \<or> revoked t \<or> notStarted t \<or> expired t)"

lemma tally_of_zero: "tally_of now r [] zero_tally"
  by (simp add: tally_of_def zero_tally_def for_feature_def available_def)

lemma for_feature_snoc [simp]:
  "for_feature r (seen @ [g]) =
     (if g_Feature g = rq_Feature r then for_feature r seen @ [g] else for_feature r seen)"
  by (simp add: for_feature_def)

lemma available_snoc [simp]:
  "available now r (seen @ [g]) = available now r seen +
     (if g_Feature g = rq_Feature r \<and> is_active now g then unat (g_Quantity g) else 0)"
  by (simp add: available_def)

lemma decide_loop_tally:
  assumes "tally_of now r seen t" "list_all (\<lambda>g. Grant_Validate g = None) gs"
  shows "\<exists>t'. decide_loop now r gs t = Inr t' \<and> tally_of now r (seen @ gs) t'"
  using assms
proof (induction gs arbitrary: seen t)
  case (Cons g gs)
  then have valid: "Grant_Validate g = None" by simp
  have step: "\<exists>t1. decide_loop now r (g # gs) t = decide_loop now r gs t1 \<and> tally_of now r (seen @ [g]) t1"
  proof (cases "g_Feature g = rq_Feature r \<and> is_active now g")
    case True
    let ?q = "if g_Quantity g \<ge> rq_Quantity r - granted t then rq_Quantity r else granted t + g_Quantity g"
    have "granted t \<le> rq_Quantity r"
      using Cons.prems(1) by (simp add: tally_of_def word_le_nat_alt)
    then have "unat ?q = min (unat (rq_Quantity r)) (available now r seen + unat (g_Quantity g))"
      using Cons.prems(1) by (intro capped_add) (auto simp: tally_of_def)
    with True Cons.prems(1) have "tally_of now r (seen @ [g]) (t\<lparr>matched := True, active := True, granted := ?q\<rparr>)"
      by (auto simp: tally_of_def grant_state_defs)
    moreover have "decide_loop now r (g # gs) t =
        decide_loop now r gs (t\<lparr>matched := True, active := True, granted := ?q\<rparr>)"
      using True valid by (auto simp: Let_def grant_state_defs)
    ultimately show ?thesis by blast
  next
    case False
    consider "g_Feature g \<noteq> rq_Feature r" | "g_Feature g = rq_Feature r" "is_revoked now g"
      | "g_Feature g = rq_Feature r" "\<not> is_revoked now g" "is_pending now g"
      | "g_Feature g = rq_Feature r" "\<not> is_revoked now g" "\<not> is_pending now g" "is_over now g"
      using False by (auto simp: is_active_def)
    then show ?thesis
    proof cases
      case 1
      with valid Cons.prems(1) show ?thesis by (auto simp: tally_of_def)
    next
      case 2
      with valid Cons.prems(1) have
        "tally_of now r (seen @ [g]) (t\<lparr>matched := True, revoked := True\<rparr>)"
        by (auto simp: tally_of_def is_active_def)
      with 2 valid show ?thesis by (auto simp: Let_def grant_state_defs)
    next
      case 3
      with valid Cons.prems(1) have
        "tally_of now r (seen @ [g]) (t\<lparr>matched := True, notStarted := True\<rparr>)"
        by (auto simp: tally_of_def is_active_def)
      with 3 valid show ?thesis by (auto simp: Let_def grant_state_defs)
    next
      case 4
      with valid Cons.prems(1) have
        "tally_of now r (seen @ [g]) (t\<lparr>matched := True, expired := True\<rparr>)"
        by (auto simp: tally_of_def is_active_def)
      with 4 valid show ?thesis by (auto simp: Let_def grant_state_defs)
    qed
  qed
  then obtain t1 where "decide_loop now r (g # gs) t = decide_loop now r gs t1"
    and "tally_of now r (seen @ [g]) t1" by blast
  moreover have "list_all (\<lambda>g. Grant_Validate g = None) gs" using Cons.prems(2) by simp
  ultimately show ?case using Cons.IH [of "seen @ [g]" t1] by simp
qed simp

lemma verdict_spec:
  assumes "tally_of now r gs t"
  shows "verdict r t = decision_spec now r gs"
proof -
  from assms have g: "unat (granted t) = min (unat (rq_Quantity r)) (available now r gs)"
    by (simp add: tally_of_def)
  have full: "granted t = rq_Quantity r \<longleftrightarrow> unat (rq_Quantity r) \<le> available now r gs"
    using g by (auto simp: word_unat_eq_iff min_def split: if_splits)
  have unat_of_nat_granted: "granted t = of_nat (unat (granted t))" by simp
  have rest: "\<not> unat (rq_Quantity r) \<le> available now r gs \<Longrightarrow> granted t = of_nat (available now r gs)"
    using g by (subst unat_of_nat_granted) (simp add: min_def)
  show ?thesis
    using assms full rest by (auto simp: verdict_def decision_spec_def Let_def tally_of_def)
qed


section \<open>Properties of the decision\<close>

text \<open>
  C15. \<open>Decide\<close> is its specification on every input: a zero time, a malformed requirement, too
  many grants and any malformed grant are errors, in this order; otherwise access is allowed
  exactly when the active grants of the feature add up to the requirement as unbounded numbers
  (so the \<open>uint64\<close> aggregation neither wraps nor depends on where it is capped), and the
  reason is the first that applies.
\<close>

theorem Decide_spec:
  "Decide now r gs =
     (if now = 0 then Inl ErrInvalidTime
      else if Requirement_Validate r \<noteq> None then Inl ErrInvalidRequirement
      else if 128 < length gs \<or> list_ex (\<lambda>g. Grant_Validate g \<noteq> None) gs then Inl ErrInvalidGrant
      else Inr (decision_spec now r gs))"
proof (cases "list_ex (\<lambda>g. Grant_Validate g \<noteq> None) gs")
  case True
  then show ?thesis
    by (auto simp: Decide_def is_zero_def MaxGrants_def decide_loop_invalid Requirement_Validate_def)
next
  case False
  then have "list_all (\<lambda>g. Grant_Validate g = None) gs" by (auto simp: list_ex_iff list_all_iff)
  from decide_loop_tally [OF tally_of_zero this]
  obtain t where "decide_loop now r gs zero_tally = Inr t" and "tally_of now r gs t" by auto
  with False verdict_spec show ?thesis
    by (auto simp: Decide_def is_zero_def MaxGrants_def Requirement_Validate_def)
qed

lemma available_mset:
  "available now r gs = (\<Sum>g\<in>#filter_mset (\<lambda>g. g_Feature g = rq_Feature r \<and> is_active now g) (mset gs). unat (g_Quantity g))"
  by (simp add: available_def for_feature_def flip: sum_mset_sum_list)

lemma available_perm: "mset gs = mset gs' \<Longrightarrow> available now r gs = available now r gs'"
  by (simp add: available_mset)

lemma list_ex_mset: "mset xs = mset ys \<Longrightarrow> list_ex P xs = list_ex P ys"
  by (metis list_ex_iff set_mset_mset)

lemma for_feature_perm: "mset gs = mset gs' \<Longrightarrow> mset (for_feature r gs) = mset (for_feature r gs')"
  by (simp add: for_feature_def)

lemma decision_spec_perm:
  assumes "mset gs = mset gs'"
  shows "decision_spec now r gs = decision_spec now r gs'"
proof -
  note same = list_ex_mset [OF for_feature_perm [OF assms]]
  have "for_feature r gs = [] \<longleftrightarrow> for_feature r gs' = []"
    using for_feature_perm [OF assms] by (metis mset_zero_iff)
  then show ?thesis
    by (simp add: decision_spec_def Let_def available_perm [OF assms] same)
qed

text \<open>
  The decision does not depend on the order in which a provider lists the grants: not the
  outcome, not the reason, not the granted quantity and not the error.
\<close>

theorem Decide_order_independent:
  "mset gs = mset gs' \<Longrightarrow> Decide now r gs = Decide now r gs'"
  using list_ex_mset [of gs gs'] decision_spec_perm [of gs gs'] mset_eq_length [of gs gs']
  by (simp add: Decide_spec)

definition seat_grant :: "nat \<Rightarrow> time \<Rightarrow> grant" where
  "seat_grant n ends = \<lparr>g_Feature = ''seats'', g_Quantity = of_nat n, StartsAt = 0, EndsAt = ends, RevokedAt = 0\<rparr>"

theorem Decide_order_independent_witness:
  "Decide 50 \<lparr>rq_Feature = ''seats'', rq_Quantity = 5\<rparr> [seat_grant 3 0, seat_grant 4 0] =
   Decide 50 \<lparr>rq_Feature = ''seats'', rq_Quantity = 5\<rparr> [seat_grant 4 0, seat_grant 3 0] \<and>
   Decide 50 \<lparr>rq_Feature = ''seats'', rq_Quantity = 5\<rparr> [seat_grant 4 0, seat_grant 3 0] =
     Inr \<lparr>Allowed = True, Reason = ReasonGranted, Granted = 5\<rparr>"
proof -
  have "mset [seat_grant 3 0, seat_grant 4 0] = mset [seat_grant 4 0, seat_grant 3 0]"
    by (simp add: add_mset_commute)
  note perm = Decide_order_independent [OF this]
  have "Decide 50 \<lparr>rq_Feature = ''seats'', rq_Quantity = 5\<rparr> [seat_grant 4 0, seat_grant 3 0] =
     Inr \<lparr>Allowed = True, Reason = ReasonGranted, Granted = 5\<rparr>"
    by code_simp
  with perm show ?thesis by simp
qed

lemma available_Cons_le: "available now r gs \<le> available now r (g # gs)"
  by (simp add: available_def for_feature_def)

text \<open>
  Access never gets lost by holding more: one further well-formed grant, whatever its
  feature, its dates or its revocation, keeps an allowed requirement allowed, as long as the
  number of grants stays within the bound.
\<close>

theorem Decide_monotone:
  assumes "Decide now r gs = Inr d" "Allowed d" "Grant_Validate g = None" "length gs < 128"
  shows "Decide now r (g # gs) = Inr \<lparr>Allowed = True, Reason = ReasonGranted, Granted = rq_Quantity r\<rparr>"
proof -
  from assms(1) have spec: "d = decision_spec now r gs" and ok: "now \<noteq> 0" "Requirement_Validate r = None"
    "\<not> list_ex (\<lambda>g. Grant_Validate g \<noteq> None) gs"
    by (auto simp: Decide_spec split: if_splits)
  from spec assms(2) have "unat (rq_Quantity r) \<le> available now r gs"
    by (auto simp: decision_spec_def Let_def split: if_splits)
  then have "unat (rq_Quantity r) \<le> available now r (g # gs)"
    using available_Cons_le order_trans by blast
  then have "decision_spec now r (g # gs) = \<lparr>Allowed = True, Reason = ReasonGranted, Granted = rq_Quantity r\<rparr>"
    by (simp add: decision_spec_def Let_def)
  with ok assms(3,4) show ?thesis by (simp add: Decide_spec)
qed

theorem Decide_monotone_witness:
  "Decide 50 \<lparr>rq_Feature = ''seats'', rq_Quantity = 5\<rparr> [seat_grant 2 40, seat_grant 6 0] =
     Inr \<lparr>Allowed = True, Reason = ReasonGranted, Granted = 5\<rparr>"
proof -
  have allowed: "Decide 50 \<lparr>rq_Feature = ''seats'', rq_Quantity = 5\<rparr> [seat_grant 6 0] =
     Inr \<lparr>Allowed = True, Reason = ReasonGranted, Granted = 5\<rparr>"
    by code_simp
  have valid: "Grant_Validate (seat_grant 2 40) = None" by code_simp
  show ?thesis using Decide_monotone [OF allowed _ valid] by simp
qed

end
