(* ===== verification/Ratelimit.thy ===== *)
theory Ratelimit
  imports Go_Strings "HOL-Library.AList"
begin

text \<open>
  \<open>ratelimit/ratelimit.go\<close>: the bounded fixed-window limiter. Go's map of entries is an
  association list with distinct keys; the limiter's operations never depend on its order. A call
  is the step of the goroutine that holds the mutex; \<open>now\<close> is the clock reading the call took
  before it got the mutex, so a sequence of calls need not carry ascending readings.
\<close>

section \<open>Data\<close>

datatype rl_error = ErrInvalidPolicy | ErrInvalidKey | ErrCapacity | RlCtxErr ctx_error

record policy =
  Limit :: int
  Window :: duration

record entry =
  count :: int
  started :: time

record memory =
  mem_policy :: policy
  maxKeys :: int
  entries :: "(string \<times> entry) list"

definition DefaultWindow :: duration where "DefaultWindow = minute"
definition MaxWindow :: duration where "MaxWindow = 24 * hour"
definition DefaultMaxKeys :: int where "DefaultMaxKeys = 10000"
definition MaxKeys :: int where "MaxKeys = 1000000"
definition maxKeyBytes :: nat where "maxKeyBytes = 256"

lemmas rl_constants = DefaultWindow_def MaxWindow_def DefaultMaxKeys_def MaxKeys_def duration_units

section \<open>Operations\<close>

definition NewMemory :: "policy \<Rightarrow> int \<Rightarrow> rl_error + memory" where
  "NewMemory policy max_keys =
     (let policy = (if Window policy = 0 then policy\<lparr>Window := DefaultWindow\<rparr> else policy) in
      if Limit policy < 1 \<or> Window policy < millisecond \<or> Window policy > MaxWindow
      then Inl ErrInvalidPolicy
      else let max_keys = (if max_keys = 0 then DefaultMaxKeys else max_keys) in
      if max_keys < 1 \<or> max_keys > MaxKeys then Inl ErrInvalidPolicy
      else Inr \<lparr>mem_policy = policy, maxKeys = max_keys, entries = []\<rparr>)"

definition validKey :: "string \<Rightarrow> rl_error option" where
  "validKey key = (if length key = 0 \<or> length key > maxKeyBytes then Some ErrInvalidKey else None)"

definition window_over :: "memory \<Rightarrow> time \<Rightarrow> entry \<Rightarrow> bool" where
  "window_over m now e \<longleftrightarrow> time_sub now (started e) \<ge> Window (mem_policy m)"

definition evictExpired :: "time \<Rightarrow> memory \<Rightarrow> memory" where
  "evictExpired now m = m\<lparr>entries := filter (\<lambda>(k, e). \<not> window_over m now e) (entries m)\<rparr>"

definition store_entry :: "string \<Rightarrow> entry \<Rightarrow> memory \<Rightarrow> memory" where
  "store_entry key e m = m\<lparr>entries := AList.update key e (entries m)\<rparr>"

text \<open>The part of \<open>Allow\<close> under the mutex.\<close>

definition allow_locked :: "memory \<Rightarrow> time \<Rightarrow> string \<Rightarrow> memory \<times> (rl_error + bool)" where
  "allow_locked m now key =
     (let found = map_of (entries m) key in
      if found = None \<or> window_over m now (the found) then
        (let m = (if found = None \<and> int (length (entries m)) \<ge> maxKeys m
                  then evictExpired now m else m) in
         if found = None \<and> int (length (entries m)) \<ge> maxKeys m then (m, Inl ErrCapacity)
         else (store_entry key \<lparr>count = 1, started = now\<rparr> m, Inr True))
      else let current = the found in
        if count current \<ge> Limit (mem_policy m) then (m, Inr False)
        else (store_entry key (current\<lparr>count := count current + 1\<rparr>) m, Inr True))"

definition Allow ::
  "('k, 'v) ctx option \<Rightarrow> memory option \<Rightarrow> time \<Rightarrow> string \<Rightarrow> memory option \<times> (rl_error + bool)" where
  "Allow ctx mem now key =
     (case (ctx, mem) of
        (Some c, Some m) \<Rightarrow>
          (case validKey key of
             Some err \<Rightarrow> (mem, Inl err)
           | None \<Rightarrow>
               (case ctx_err c of
                  Some err \<Rightarrow> (mem, Inl (RlCtxErr err))
                | None \<Rightarrow> (let (m', res) = allow_locked m now key in (Some m', res))))
      | _ \<Rightarrow> (mem, Inl ErrInvalidPolicy))"

section \<open>Invariant\<close>

definition mem_ok :: "memory \<Rightarrow> bool" where
  "mem_ok m \<longleftrightarrow>
     1 \<le> Limit (mem_policy m) \<and> millisecond \<le> Window (mem_policy m) \<and> Window (mem_policy m) \<le> MaxWindow \<and>
     1 \<le> maxKeys m \<and> maxKeys m \<le> MaxKeys \<and>
     distinct (map fst (entries m)) \<and> int (length (entries m)) \<le> maxKeys m \<and>
     (\<forall>k e. map_of (entries m) k = Some e \<longrightarrow> 1 \<le> count e \<and> count e \<le> Limit (mem_policy m))"

lemma NewMemory_ok: "NewMemory p n = Inr m \<Longrightarrow> mem_ok m \<and> entries m = []"
  by (auto simp: NewMemory_def mem_ok_def Let_def rl_constants split: if_splits)

lemma mem_ok_count:
  "mem_ok m \<Longrightarrow> map_of (entries m) k = Some e \<Longrightarrow> 1 \<le> count e \<and> count e \<le> Limit (mem_policy m)"
  by (simp add: mem_ok_def)

text \<open>Under the invariant the saturation of \<open>Sub\<close> is invisible.\<close>

lemma window_over_iff:
  "mem_ok m \<Longrightarrow> window_over m now e \<longleftrightarrow> started e + Window (mem_policy m) \<le> now"
proof -
  assume "mem_ok m"
  then have "min_duration < Window (mem_policy m)" "Window (mem_policy m) \<le> max_duration"
    by (simp_all add: mem_ok_def min_duration_def max_duration_def rl_constants)
  then show ?thesis by (auto simp: window_over_def time_sub_ge)
qed

lemma map_of_filter_distinct:
  "distinct (map fst xs) \<Longrightarrow>
     map_of (filter (\<lambda>(k, v). P v) xs) k = (case map_of xs k of None \<Rightarrow> None | Some v \<Rightarrow> if P v then Some v else None)"
  by (induction xs) (force split: option.splits dest: map_of_SomeD)+

lemma map_of_evictExpired:
  "distinct (map fst (entries m)) \<Longrightarrow> map_of (entries (evictExpired now m)) k =
     (case map_of (entries m) k of None \<Rightarrow> None | Some e \<Rightarrow> if window_over m now e then None else Some e)"
  by (simp add: evictExpired_def map_of_filter_distinct [of _ "\<lambda>e. \<not> window_over m now e"]
      split: option.splits)

lemma evictExpired_simps [simp]:
  "mem_policy (evictExpired now m) = mem_policy m" "maxKeys (evictExpired now m) = maxKeys m"
  by (simp_all add: evictExpired_def)

lemma evictExpired_ok: "mem_ok m \<Longrightarrow> mem_ok (evictExpired now m)"
proof -
  assume ok: "mem_ok m"
  have "distinct (map fst (entries (evictExpired now m)))"
    using ok by (simp add: evictExpired_def mem_ok_def distinct_map_filter)
  moreover have "length (entries (evictExpired now m)) \<le> length (entries m)"
    by (simp add: evictExpired_def)
  ultimately show ?thesis
    using ok map_of_evictExpired [of m now]
    by (auto simp: mem_ok_def split: option.splits if_splits)
qed

lemma store_entry_simps [simp]:
  "mem_policy (store_entry k e m) = mem_policy m" "maxKeys (store_entry k e m) = maxKeys m"
  "map_of (entries (store_entry k e m)) = (map_of (entries m))(k \<mapsto> e)"
  by (simp_all add: store_entry_def update_conv')

lemma length_update:
  "length (AList.update k e xs) = (if k \<in> fst ` set xs then length xs else Suc (length xs))"
  by (induction xs) auto

lemma store_entry_ok:
  assumes "mem_ok m" "1 \<le> count e" "count e \<le> Limit (mem_policy m)"
    and "map_of (entries m) k = None \<longrightarrow> int (length (entries m)) < maxKeys m"
  shows "mem_ok (store_entry k e m)"
proof -
  have "int (length (entries (store_entry k e m))) \<le> maxKeys m"
    using assms(1,4) by (auto simp: store_entry_def mem_ok_def length_update map_of_eq_None_iff)
  moreover have "distinct (map fst (entries (store_entry k e m)))"
    using assms(1) by (simp add: store_entry_def mem_ok_def distinct_update)
  ultimately show ?thesis using assms(1-3) by (auto simp: mem_ok_def)
qed

lemma allow_locked_policy [simp]:
  "mem_policy (fst (allow_locked m now key)) = mem_policy m"
  "maxKeys (fst (allow_locked m now key)) = maxKeys m"
  by (auto simp: allow_locked_def Let_def)

lemma allow_locked_ok: "mem_ok m \<Longrightarrow> mem_ok (fst (allow_locked m now key))"
proof -
  assume ok: "mem_ok m"
  note ev = evictExpired_ok [OF ok, of now]
  have lim: "1 \<le> Limit (mem_policy m)" using ok by (simp add: mem_ok_def)
  have count: "map_of (entries m) key = Some e \<Longrightarrow> 1 \<le> count e" for e
    using ok by (auto simp: mem_ok_def)
  show ?thesis
    using ok ev lim count map_of_evictExpired [of m now key]
    by (auto simp: allow_locked_def Let_def intro!: store_entry_ok dest: count)
qed


section \<open>What one call does to one key\<close>

text \<open>
  The state of a key is its entry. A call for another key leaves it alone or evicts it after its
  window; a call for the key itself starts a window, counts, refuses, or finds no room.
\<close>

lemma allow_locked_other:
  assumes "mem_ok m" "k \<noteq> key"
  shows "map_of (entries (fst (allow_locked m now k))) key = map_of (entries m) key \<or>
    (map_of (entries (fst (allow_locked m now k))) key = None \<and>
     (\<exists>e. map_of (entries m) key = Some e \<and> started e + Window (mem_policy m) \<le> now))"
proof -
  have "distinct (map fst (entries m))" using assms(1) by (simp add: mem_ok_def)
  with assms show ?thesis
    by (auto simp: allow_locked_def Let_def map_of_evictExpired window_over_iff split: option.splits)
qed

lemma allow_locked_new:
  assumes "mem_ok m" "map_of (entries m) key = None"
  shows "(\<exists>m'. allow_locked m now key = (m', Inr True) \<and>
            map_of (entries m') key = Some \<lparr>count = 1, started = now\<rparr>) \<or>
         (\<exists>m'. allow_locked m now key = (m', Inl ErrCapacity) \<and> map_of (entries m') key = None)"
proof -
  have "distinct (map fst (entries m))" using assms(1) by (simp add: mem_ok_def)
  with assms show ?thesis
    by (auto simp: allow_locked_def Let_def map_of_evictExpired)
qed

lemma allow_locked_over:
  assumes "mem_ok m" "map_of (entries m) key = Some e" "started e + Window (mem_policy m) \<le> now"
  shows "\<exists>m'. allow_locked m now key = (m', Inr True) \<and>
           map_of (entries m') key = Some \<lparr>count = 1, started = now\<rparr>"
  using assms by (auto simp: allow_locked_def Let_def window_over_iff)

lemma allow_locked_count:
  assumes "mem_ok m" "map_of (entries m) key = Some e" "now < started e + Window (mem_policy m)"
    "count e < Limit (mem_policy m)"
  shows "\<exists>m'. allow_locked m now key = (m', Inr True) \<and>
           map_of (entries m') key = Some \<lparr>count = count e + 1, started = started e\<rparr>"
  using assms by (auto simp: allow_locked_def Let_def window_over_iff)

lemma allow_locked_refuse:
  assumes "mem_ok m" "map_of (entries m) key = Some e" "now < started e + Window (mem_policy m)"
    "Limit (mem_policy m) \<le> count e"
  shows "allow_locked m now key = (m, Inr False)"
  using assms by (auto simp: allow_locked_def Let_def window_over_iff)

section \<open>Sequences of calls\<close>

fun run_calls :: "memory \<Rightarrow> (time \<times> string) list \<Rightarrow> memory" where
  "run_calls m [] = m"
| "run_calls m ((now, k) # cs) = run_calls (fst (allow_locked m now k)) cs"

fun allowed_times :: "memory \<Rightarrow> (time \<times> string) list \<Rightarrow> string \<Rightarrow> time list" where
  "allowed_times m [] key = []"
| "allowed_times m ((now, k) # cs) key =
     (if k = key \<and> snd (allow_locked m now k) = Inr True
      then now # allowed_times (fst (allow_locked m now k)) cs key
      else allowed_times (fst (allow_locked m now k)) cs key)"

fun results_for :: "memory \<Rightarrow> (time \<times> string) list \<Rightarrow> string \<Rightarrow> (rl_error + bool) list" where
  "results_for m [] key = []"
| "results_for m ((now, k) # cs) key =
     (if k = key then snd (allow_locked m now k) # results_for (fst (allow_locked m now k)) cs key
      else results_for (fst (allow_locked m now k)) cs key)"

lemma run_calls_ok: "mem_ok m \<Longrightarrow> mem_ok (run_calls m cs)"
  by (induction m cs rule: run_calls.induct) (auto intro: allow_locked_ok)

lemma run_calls_policy [simp]:
  "mem_policy (run_calls m cs) = mem_policy m" "maxKeys (run_calls m cs) = maxKeys m"
  by (induction m cs rule: run_calls.induct) auto

definition count_if :: "('a \<Rightarrow> bool) \<Rightarrow> 'a list \<Rightarrow> int" where
  "count_if P xs = int (length (filter P xs))"

lemma count_if_simps [simp]:
  "count_if P [] = 0" "count_if P (x # xs) = (if P x then 1 else 0) + count_if P xs"
  by (simp_all add: count_if_def)

text \<open>
  \<open>Allow\<close> reads the clock before it waits for the lock, so the readings of a sequence of calls come
  in any order. A call of a key is overtaken at an instant if its reading is before it and a call
  with a reading at or after it has already had the lock; \<open>past\<close> tells whether there was one.
\<close>

fun overtaken :: "time \<Rightarrow> bool \<Rightarrow> (time \<times> string) list \<Rightarrow> string \<Rightarrow> int" where
  "overtaken t past [] key = 0"
| "overtaken t past ((now, k) # cs) key =
     (if past \<and> now < t \<and> k = key then 1 else 0) + overtaken t (past \<or> t \<le> now) cs key"

lemma overtaken_ge: "0 \<le> overtaken t past cs key"
  by (induction t past cs key rule: overtaken.induct) auto

text \<open>Readings in the order of the lock overtake nothing.\<close>

lemma overtaken_late: "\<forall>c \<in> set cs. t \<le> fst c \<Longrightarrow> overtaken t past cs key = 0"
  by (induction t past cs key rule: overtaken.induct) auto

lemma overtaken_ascending: "sorted (map fst cs) \<Longrightarrow> overtaken t False cs key = 0"
proof (induction cs)
  case (Cons c cs)
  then show ?case by (cases c; cases "t \<le> fst c") (auto intro!: overtaken_late)
qed simp

section \<open>The bound on an interval\<close>

text \<open>
  What an interval of the length of the window, starting at \<open>T\<close>, may still allow to a key: nothing
  once a reading after its end was seen, twice the limit but one before a reading in it was (the
  call that began the window is before the interval, or there is only one window in it), and in
  between the rest of the running window, and one more limit unless that window began in the
  interval. Every call pays for itself out of this credit; one overtaken at the start of the
  interval may begin a window that the interval has already used up, and puts the difference in.
\<close>

definition credit :: "memory \<Rightarrow> string \<Rightarrow> time \<Rightarrow> bool \<Rightarrow> bool \<Rightarrow> int" where
  "credit m key T begun over =
     (if over then 0 else if \<not> begun then 2 * Limit (mem_policy m) - 1
      else case map_of (entries m) key of
          None \<Rightarrow> Limit (mem_policy m)
        | Some e \<Rightarrow> Limit (mem_policy m) - count e + (if T \<le> started e then 0 else Limit (mem_policy m)))"

lemma credit_bounds:
  assumes "mem_ok m"
  shows "0 \<le> credit m key T begun over \<and> credit m key T begun over \<le> 2 * Limit (mem_policy m) - 1"
proof (cases "map_of (entries m) key")
  case None
  with assms show ?thesis by (simp add: credit_def mem_ok_def)
next
  case (Some e)
  from mem_ok_count [OF assms Some] show ?thesis by (simp add: credit_def Some)
qed

text \<open>A call of the key itself.\<close>

lemma allow_locked_own:
  assumes "mem_ok m"
  obtains (full) m' where "allow_locked m now key = (m', Inl ErrCapacity)" "map_of (entries m) key = None"
      "map_of (entries m') key = None"
    | (fresh) m' where "allow_locked m now key = (m', Inr True)"
      "\<And>e. map_of (entries m) key = Some e \<Longrightarrow> started e + Window (mem_policy m) \<le> now"
      "map_of (entries m') key = Some \<lparr>count = 1, started = now\<rparr>"
    | (counted) m' e where "allow_locked m now key = (m', Inr True)" "map_of (entries m) key = Some e"
      "count e < Limit (mem_policy m)" "map_of (entries m') key = Some \<lparr>count = count e + 1, started = started e\<rparr>"
    | (refused) "allow_locked m now key = (m, Inr False)"
proof (cases "map_of (entries m) key")
  case None
  with allow_locked_new [OF assms None, of now] show ?thesis by (auto intro: full fresh)
next
  case (Some e)
  consider "started e + Window (mem_policy m) \<le> now"
    | "now < started e + Window (mem_policy m)" "count e < Limit (mem_policy m)"
    | "now < started e + Window (mem_policy m)" "Limit (mem_policy m) \<le> count e" by linarith
  then show ?thesis
  proof cases
    case 1
    with allow_locked_over [OF assms Some 1] Some show ?thesis by (auto intro: fresh)
  next
    case 2
    with allow_locked_count [OF assms Some 2] Some show ?thesis by (auto intro: counted)
  next
    case 3
    with allow_locked_refuse [OF assms Some 3] show ?thesis by (auto intro: refused)
  qed
qed

lemma credit_step:
  assumes ok: "mem_ok m" and over: "over \<longrightarrow> begun"
  shows "(if k = key \<and> snd (allow_locked m now k) = Inr True \<and> T \<le> now \<and> now < T + Window (mem_policy m) then 1 else 0) +
      credit (fst (allow_locked m now k)) key T (begun \<or> T \<le> now) (over \<or> T + Window (mem_policy m) \<le> now)
    \<le> credit m key T begun over +
      (Limit (mem_policy m) - 1) * (if begun \<and> now < T \<and> k = key then 1 else 0) +
      (if over \<and> now < T + Window (mem_policy m) \<and> k = key then 1 else 0)"
proof -
  let ?m' = "fst (allow_locked m now k)" and ?L = "Limit (mem_policy m)" and ?W = "Window (mem_policy m)"
  have pol: "mem_policy ?m' = mem_policy m" by simp
  have L: "1 \<le> ?L" "1 \<le> ?W" using ok by (auto simp: mem_ok_def duration_units)
  have ok': "mem_ok ?m'" using ok by (rule allow_locked_ok)
  have c: "map_of (entries m) key = Some e \<Longrightarrow> 1 \<le> count e \<and> count e \<le> ?L" for e
    using ok by (rule mem_ok_count)
  note b = credit_bounds [OF ok, of key T begun over] credit_bounds [OF ok', of key T begun over]
  show ?thesis
  proof (cases "k = key")
    case False
    with allow_locked_other [OF ok False, of now] c L b show ?thesis
      by (auto simp: credit_def pol split: option.splits)
  next
    case True
    show ?thesis
      using ok
    proof (cases rule: allow_locked_own [of m now key])
      case (full m')
      then show ?thesis using True over L pol by (auto simp: credit_def)
    next
      case (fresh m')
      then show ?thesis using True over L pol c by (auto simp: credit_def split: option.splits)
    next
      case (counted m' e)
      then show ?thesis using True over L pol c by (auto simp: credit_def)
    next
      case refused
      then show ?thesis using True over L pol c by (auto simp: credit_def split: option.splits)
    qed
  qed
qed

lemma interval_credit:
  assumes "mem_ok m" "over \<longrightarrow> begun"
  shows "count_if (\<lambda>a. T \<le> a \<and> a < T + Window (mem_policy m)) (allowed_times m cs key)
    \<le> credit m key T begun over + (Limit (mem_policy m) - 1) * overtaken T begun cs key +
      overtaken (T + Window (mem_policy m)) over cs key"
  using assms
proof (induction cs arbitrary: m begun over)
  case Nil
  then show ?case using credit_bounds [of m key T begun over] by simp
next
  case (Cons c cs)
  obtain now k where c: "c = (now, k)" by (cases c)
  let ?m' = "fst (allow_locked m now k)"
  have "mem_ok ?m'" using Cons.prems(1) by (rule allow_locked_ok)
  from Cons.IH [OF this, of "over \<or> T + Window (mem_policy m) \<le> now" "begun \<or> T \<le> now"]
    credit_step [OF Cons.prems, of k key now T] Cons.prems
  show ?case by (auto simp: c algebra_simps mem_ok_def duration_units split: if_splits)
qed

lemma any_interval:
  assumes "mem_ok m"
  shows "count_if (\<lambda>a. T \<le> a \<and> a < T + Window (mem_policy m)) (allowed_times m cs key)
    \<le> 2 * Limit (mem_policy m) - 1 + (Limit (mem_policy m) - 1) * overtaken T False cs key +
      overtaken (T + Window (mem_policy m)) False cs key"
  using interval_credit [OF assms, of False False T cs key] by (simp add: credit_def)


section \<open>The limiter of one key\<close>

text \<open>What a limiter with unlimited memory would answer to the calls of a single key.\<close>

fun key_step :: "policy \<Rightarrow> time \<Rightarrow> entry option \<Rightarrow> entry option \<times> bool" where
  "key_step p now None = (Some \<lparr>count = 1, started = now\<rparr>, True)"
| "key_step p now (Some e) =
     (if started e + Window p \<le> now then (Some \<lparr>count = 1, started = now\<rparr>, True)
      else if count e < Limit p then (Some \<lparr>count = count e + 1, started = started e\<rparr>, True)
      else (Some e, False))"

fun key_run :: "policy \<Rightarrow> entry option \<Rightarrow> time list \<Rightarrow> bool list" where
  "key_run p s [] = []"
| "key_run p s (now # ts) = snd (key_step p now s) # key_run p (fst (key_step p now s)) ts"

definition times_of :: "(time \<times> string) list \<Rightarrow> string \<Rightarrow> time list" where
  "times_of cs key = map fst (filter (\<lambda>c. snd c = key) cs)"

lemma times_of_simps [simp]:
  "times_of [] key = []"
  "times_of ((now, k) # cs) key = (if k = key then now # times_of cs key else times_of cs key)"
  by (simp_all add: times_of_def)

text \<open>
  What the other keys can do to it: a call of another key with a reading past the end of its window
  may make it forget the window, because the entry was evicted to make room. The answers to the
  key's calls are explained by such a limiter if it gives them in some way of forgetting.
\<close>

fun explains :: "policy \<Rightarrow> string \<Rightarrow> entry option \<Rightarrow> (time \<times> string) list \<Rightarrow> (rl_error + bool) list \<Rightarrow> bool" where
  "explains p key s [] rs = (rs = [])"
| "explains p key s ((now, k) # cs) rs =
     (if k = key
      then (case rs of [] \<Rightarrow> False
            | r # rs \<Rightarrow> r = Inr (snd (key_step p now s)) \<and> explains p key (fst (key_step p now s)) cs rs)
      else explains p key s cs rs \<or>
        (case s of None \<Rightarrow> False | Some e \<Rightarrow> started e + Window p \<le> now \<and> explains p key None cs rs))"

text \<open>No call of the key got the lock after a call with a later reading.\<close>

fun in_turn :: "(time \<times> string) list \<Rightarrow> string \<Rightarrow> bool" where
  "in_turn [] key = True"
| "in_turn ((now, k) # cs) key = (list_all (\<lambda>c. snd c = key \<longrightarrow> now \<le> fst c) cs \<and> in_turn cs key)"

lemma allow_locked_key_step:
  assumes "mem_ok m" "snd (allow_locked m now key) \<noteq> Inl ErrCapacity"
  shows "snd (allow_locked m now key) = Inr (snd (key_step (mem_policy m) now (map_of (entries m) key))) \<and>
    map_of (entries (fst (allow_locked m now key))) key =
      fst (key_step (mem_policy m) now (map_of (entries m) key))"
proof (cases "map_of (entries m) key")
  case None
  with allow_locked_new [OF assms(1) None, of now] assms(2) show ?thesis by auto
next
  case (Some e)
  consider "started e + Window (mem_policy m) \<le> now"
    | "now < started e + Window (mem_policy m)" "count e < Limit (mem_policy m)"
    | "now < started e + Window (mem_policy m)" "Limit (mem_policy m) \<le> count e" by linarith
  then show ?thesis
  proof cases
    case 1
    from allow_locked_over [OF assms(1) Some 1] 1 Some show ?thesis by auto
  next
    case 2
    from allow_locked_count [OF assms(1) Some 2] 2 Some show ?thesis by auto
  next
    case 3
    from allow_locked_refuse [OF assms(1) Some 3] 3 Some show ?thesis by auto
  qed
qed

lemma results_for_explained:
  assumes "mem_ok m" "Inl ErrCapacity \<notin> set (results_for m cs key)"
  shows "explains (mem_policy m) key (map_of (entries m) key) cs (results_for m cs key)"
  using assms
proof (induction m cs key rule: results_for.induct)
  case (2 m now k cs key)
  let ?m' = "fst (allow_locked m now k)"
  have ok': "mem_ok ?m'" using 2 by (simp add: allow_locked_ok)
  show ?case
  proof (cases "k = key")
    case True
    with 2(4) have "snd (allow_locked m now key) \<noteq> Inl ErrCapacity" by auto
    from allow_locked_key_step [OF 2(3) this] "2.IH"(1) [OF True ok'] 2(4) True
    show ?thesis by simp
  next
    case False
    with allow_locked_other [OF 2(3) False, of now] "2.IH"(2) [OF False ok'] 2(4)
    show ?thesis by auto
  qed
qed simp

text \<open>
  When no call of the key is overtaken, forgetting makes no difference: the forgotten window is over
  for all the calls to come.
\<close>

lemma explained_in_turn:
  assumes "explains p key s cs rs" "in_turn cs key"
    and "s = s' \<or> s = None \<and> (\<exists>e. s' = Some e \<and> (\<forall>c \<in> set cs. snd c = key \<longrightarrow> started e + Window p \<le> fst c))"
  shows "rs = map Inr (key_run p s' (times_of cs key))"
  using assms
proof (induction cs arbitrary: s s' rs)
  case (Cons c cs)
  obtain now k where c: "c = (now, k)" by (cases c)
  show ?case
  proof (cases "k = key")
    case True
    with Cons.prems(1) obtain rs' where rs: "rs = Inr (snd (key_step p now s)) # rs'"
      "explains p key (fst (key_step p now s)) cs rs'"
      by (auto simp: c split: list.splits)
    from Cons.prems(3) True have "key_step p now s = key_step p now s'" by (auto simp: c)
    with Cons.IH [OF rs(2), of "fst (key_step p now s)"] Cons.prems(2) True rs(1) show ?thesis by (simp add: c)
  next
    case False
    with Cons.prems(1) consider (kept) "explains p key s cs rs"
      | (forgot) e where "s = Some e" "started e + Window p \<le> now" "explains p key None cs rs"
      by (auto simp: c split: option.splits)
    then show ?thesis
    proof cases
      case kept
      from Cons.IH [OF this, of s'] Cons.prems(2,3) False show ?thesis by (auto simp: c)
    next
      case forgot
      have "\<forall>d \<in> set cs. snd d = key \<longrightarrow> started e + Window p \<le> fst d"
        using Cons.prems(2) forgot(2) by (fastforce simp: c list_all_iff)
      with Cons.IH [OF forgot(3), of s'] Cons.prems(2,3) forgot(1) False show ?thesis by (auto simp: c)
    qed
  qed
qed simp

section \<open>Properties of the limiter\<close>

text \<open>
  Bounded memory: after any sequence of calls, in whatever order their clock readings come,
  a limiter from \<open>NewMemory\<close> holds at most its configured number of keys (never more than a
  million), no key twice, and every counter lies between 1 and the limit.
\<close>

theorem Memory_bounded:
  assumes "NewMemory p n = Inr m"
  shows "int (length (entries (run_calls m cs))) \<le> maxKeys m \<and> maxKeys m \<le> 1000000 \<and>
    distinct (map fst (entries (run_calls m cs))) \<and>
    (\<forall>(k, e) \<in> set (entries (run_calls m cs)). 1 \<le> count e \<and> count e \<le> Limit p)"
proof -
  from assms NewMemory_ok have ok: "mem_ok (run_calls m cs)" by (blast intro: run_calls_ok)
  moreover have "Limit (mem_policy m) = Limit p"
    using assms by (auto simp: NewMemory_def Let_def split: if_splits)
  ultimately show ?thesis by (auto simp: mem_ok_def MaxKeys_def)
qed

definition demo_memory :: memory where
  "demo_memory = \<lparr>mem_policy = \<lparr>Limit = 2, Window = 1000000\<rparr>, maxKeys = 1, entries = []\<rparr>"

lemma demo_memory_new: "NewMemory \<lparr>Limit = 2, Window = 1000000\<rparr> 1 = Inr demo_memory"
  by (simp add: NewMemory_def demo_memory_def Let_def rl_constants)

theorem Memory_bounded_witness:
  "length (entries (run_calls demo_memory [(5, ''a''), (6, ''b''), (7, ''a''), (8, ''a'')])) \<le> 1"
  using Memory_bounded [OF demo_memory_new, of "[(5, ''a''), (6, ''b''), (7, ''a''), (8, ''a'')]"]
  by (simp add: demo_memory_def)

text \<open>
  C8. The rate the limiter enforces: whatever calls are made for whatever keys, evictions and
  capacity errors included, and in whatever order their clock readings come to the lock, no interval
  as long as the window, wherever it starts, contains as many as twice the limit of allowed calls of
  one key (twice, not once, because windows are fixed: an interval can meet two of them), but for
  limit - 1 more for every call of the key that was overtaken at the start of the interval and one
  more for every call that was overtaken at its end. When the readings come in order there are no
  such calls.
\<close>

theorem Memory_rate_bound:
  assumes "NewMemory p n = Inr m"
  shows "count_if (\<lambda>a. T \<le> a \<and> a < T + Window (mem_policy m)) (allowed_times m cs key)
    \<le> 2 * Limit p - 1 + (Limit p - 1) * overtaken T False cs key +
      overtaken (T + Window (mem_policy m)) False cs key"
proof -
  have "Limit (mem_policy m) = Limit p"
    using assms by (auto simp: NewMemory_def Let_def split: if_splits)
  with any_interval [of m T cs key] NewMemory_ok [OF assms] show ?thesis by simp
qed

text \<open>
  The bound is met. Readings in order give five calls in an interval with a limit of three; with one
  call that read the clock before the interval and got the lock after its window was evicted, that
  window is restarted, and there are seven.
\<close>

definition demo_memory3 :: memory where
  "demo_memory3 = \<lparr>mem_policy = \<lparr>Limit = 3, Window = 1000000\<rparr>, maxKeys = 2, entries = []\<rparr>"

definition stale_calls :: "(time \<times> string) list" where
  "stale_calls = [(5, ''a''), (5, ''b''), (10, ''a''), (10, ''a''), (1000005, ''c''), (9, ''a''),
     (1000005, ''a''), (1000005, ''a''), (1000009, ''a''), (1000009, ''a''), (1000009, ''a'')]"

lemma stale_reading_exceeds_twice_the_limit:
  "count_if (\<lambda>a. 10 \<le> a \<and> a < 10 + 1000000) (allowed_times demo_memory3 stale_calls ''a'') = 7 \<and>
   overtaken 10 False stale_calls ''a'' = 1 \<and> overtaken (10 + 1000000) False stale_calls ''a'' = 0"
  by code_simp

lemma in_order_bound_is_met:
  "count_if (\<lambda>a. 10 \<le> a \<and> a < 10 + 1000000)
     (allowed_times demo_memory3 (map (\<lambda>t. (t, ''a'')) [5, 10, 10, 1000005, 1000005, 1000005, 1000005]) ''a'') = 5"
  by code_simp

theorem Memory_rate_bound_witness:
  "count_if (\<lambda>a. 10 \<le> a \<and> a < 10 + 1000000) (allowed_times demo_memory3 stale_calls ''a'') \<le> 7"
proof -
  have "NewMemory \<lparr>Limit = 3, Window = 1000000\<rparr> 2 = Inr demo_memory3"
    by (simp add: NewMemory_def demo_memory3_def Let_def rl_constants)
  from Memory_rate_bound [OF this, of 10 stale_calls "''a''"] show ?thesis
    using stale_reading_exceeds_twice_the_limit by (simp add: demo_memory3_def)
qed

text \<open>
  C21. Sharing one bounded store: as long as none of the key's calls meets a full store, the answers
  it gets, with all the other keys' calls in between and in whatever order the clock readings come,
  are those of a limiter of its own that may forget a window only when a call of another key has a
  reading past the window's end; and if no call of the key gets the lock after a call with a later
  reading, they are exactly those of a limiter of its own with unlimited memory.
\<close>

theorem Memory_refines_single_key:
  assumes "NewMemory p n = Inr m" "Inl ErrCapacity \<notin> set (results_for m cs key)"
  shows "explains (mem_policy m) key None cs (results_for m cs key) \<and>
    (in_turn cs key \<longrightarrow> results_for m cs key = map Inr (key_run (mem_policy m) None (times_of cs key)))"
  using results_for_explained [of m cs key] explained_in_turn [of "mem_policy m" key None cs _ None]
    NewMemory_ok [OF assms(1)] assms(2) by auto

theorem Memory_refines_single_key_witness:
  "results_for demo_memory [(5, ''a''), (1000006, ''b''), (2000010, ''a'')] ''a'' =
   map Inr (key_run \<lparr>Limit = 2, Window = 1000000\<rparr> None [5, 2000010])"
proof -
  let ?cs = "[(5, ''a''), (1000006, ''b''), (2000010, ''a'')]"
  have "Inl ErrCapacity \<notin> set (results_for demo_memory ?cs ''a'')" by code_simp
  from Memory_refines_single_key [OF demo_memory_new this] show ?thesis
    by (simp add: demo_memory_def)
qed

text \<open>
  The limiter refuses for lack of room only when it has to: the key is new, all configured
  slots are taken, and every one of them holds a window that is still running. The stored entries
  are then untouched, and every other input error comes before.
\<close>

theorem Allow_capacity_iff:
  assumes "mem_ok m"
  shows "snd (Allow (Some c) (Some m) now key) = Inl ErrCapacity \<longleftrightarrow>
    validKey key = None \<and> ctx_err c = None \<and> map_of (entries m) key = None \<and>
    int (length (entries m)) = maxKeys m \<and>
    (\<forall>(k, e) \<in> set (entries m). now < started e + Window (mem_policy m))"
proof -
  have len: "int (length (entries m)) \<le> maxKeys m" using assms by (simp add: mem_ok_def)
  have keep: "length (entries (evictExpired now m)) = length (entries m) \<longleftrightarrow>
      (\<forall>(k, e) \<in> set (entries m). now < started e + Window (mem_policy m))"
  proof -
    have "length (entries (evictExpired now m)) = length (entries m) \<longleftrightarrow>
        filter (\<lambda>(k, e). \<not> window_over m now e) (entries m) = entries m"
      by (metis (no_types, lifting) evictExpired_def length_filter_less linorder_neq_iff
          filter_id_conv memory.select_convs(3) memory.surjective memory.update_convs(3))
    also have "\<dots> \<longleftrightarrow> (\<forall>(k, e) \<in> set (entries m). now < started e + Window (mem_policy m))"
      using assms by (auto simp: filter_id_conv window_over_iff not_le)
    finally show ?thesis .
  qed
  have le: "length (entries (evictExpired now m)) \<le> length (entries m)"
    by (simp add: evictExpired_def)
  have "snd (allow_locked m now key) = Inl ErrCapacity \<longleftrightarrow> map_of (entries m) key = None \<and>
      int (length (entries m)) = maxKeys m \<and> length (entries (evictExpired now m)) = length (entries m)"
    using len le by (auto simp: allow_locked_def Let_def)
  with keep show ?thesis
    by (auto simp: Allow_def validKey_def split: option.splits prod.splits)
qed

theorem Allow_capacity_iff_witness:
  "snd (Allow (Some (background :: (unit, unit) ctx)) (Some (run_calls demo_memory [(5, ''a'')])) 6 ''b'') = Inl ErrCapacity"
proof -
  let ?m = "run_calls demo_memory [(5, ''a'')]"
  have "mem_ok ?m" using NewMemory_ok [OF demo_memory_new] run_calls_ok by blast
  moreover have "entries ?m = [(''a'', \<lparr>count = 1, started = 5\<rparr>)]" by code_simp
  ultimately show ?thesis
    by (simp add: Allow_capacity_iff validKey_def maxKeyBytes_def background_def demo_memory_def)
qed

end
