(* ===== verification/Sha256.thy ===== *)
theory Sha256
  imports Go_Strings
begin

unbundle bit_operations_syntax

text \<open>
  \<open>crypto/sha256\<close> and \<open>crypto/hmac\<close> as the code uses them: the hash of one byte string
  (FIPS 180-4) and its keyed form (RFC 2104). \<open>auth/session.go\<close> hashes session tokens and
  \<open>webhook/webhook.go\<close> signs payloads with them. The correctness statements of those
  components need one fact only, the length of a digest.
\<close>

type_synonym u32 = "32 word"

definition sha_k :: "u32 list" where
  "sha_k = [
    1116352408, 1899447441, 3049323471, 3921009573, 961987163, 1508970993, 2453635748, 2870763221,
    3624381080, 310598401, 607225278, 1426881987, 1925078388, 2162078206, 2614888103, 3248222580,
    3835390401, 4022224774, 264347078, 604807628, 770255983, 1249150122, 1555081692, 1996064986,
    2554220882, 2821834349, 2952996808, 3210313671, 3336571891, 3584528711, 113926993, 338241895,
    666307205, 773529912, 1294757372, 1396182291, 1695183700, 1986661051, 2177026350, 2456956037,
    2730485921, 2820302411, 3259730800, 3345764771, 3516065817, 3600352804, 4094571909, 275423344,
    430227734, 506948616, 659060556, 883997877, 958139571, 1322822218, 1537002063, 1747873779,
    1955562222, 2024104815, 2227730452, 2361852424, 2428436474, 2756734187, 3204031479, 3329325298]"

definition ror :: "nat \<Rightarrow> u32 \<Rightarrow> u32" where
  "ror n x = drop_bit n x OR push_bit (32 - n) x"

definition sha_ch :: "u32 \<Rightarrow> u32 \<Rightarrow> u32 \<Rightarrow> u32" where
  "sha_ch x y z = (x AND y) XOR (NOT x AND z)"

definition sha_maj :: "u32 \<Rightarrow> u32 \<Rightarrow> u32 \<Rightarrow> u32" where
  "sha_maj x y z = (x AND y) XOR (x AND z) XOR (y AND z)"

definition big_sigma0 :: "u32 \<Rightarrow> u32" where "big_sigma0 x = ror 2 x XOR ror 13 x XOR ror 22 x"
definition big_sigma1 :: "u32 \<Rightarrow> u32" where "big_sigma1 x = ror 6 x XOR ror 11 x XOR ror 25 x"
definition small_sigma0 :: "u32 \<Rightarrow> u32" where "small_sigma0 x = ror 7 x XOR ror 18 x XOR drop_bit 3 x"
definition small_sigma1 :: "u32 \<Rightarrow> u32" where "small_sigma1 x = ror 17 x XOR ror 19 x XOR drop_bit 10 x"

text \<open>The message schedule, newest word first.\<close>

fun sha_schedule :: "nat \<Rightarrow> u32 list \<Rightarrow> u32 list" where
  "sha_schedule 0 ws = ws"
| "sha_schedule (Suc n) ws =
     sha_schedule n ((small_sigma1 (ws ! 1) + ws ! 6 + small_sigma0 (ws ! 14) + ws ! 15) # ws)"

record sha_state =
  sa :: u32
  sb :: u32
  sc :: u32
  sd :: u32
  se :: u32
  sf :: u32
  sg :: u32
  sh :: u32

definition sha_round :: "u32 \<times> u32 \<Rightarrow> sha_state \<Rightarrow> sha_state" where
  "sha_round kw s =
     (let t1 = sh s + big_sigma1 (se s) + sha_ch (se s) (sf s) (sg s) + fst kw + snd kw;
          t2 = big_sigma0 (sa s) + sha_maj (sa s) (sb s) (sc s)
      in \<lparr>sa = t1 + t2, sb = sa s, sc = sb s, sd = sc s, se = sd s + t1, sf = se s, sg = sf s, sh = sg s\<rparr>)"

definition word_of_bytes :: "string \<Rightarrow> u32" where
  "word_of_bytes bs = foldl (\<lambda>w b. 256 * w + of_nat (byte b)) 0 bs"

fun words_of_bytes :: "string \<Rightarrow> u32 list" where
  "words_of_bytes (a # b # c # d # r) = word_of_bytes [a, b, c, d] # words_of_bytes r"
| "words_of_bytes r = []"

definition sha_block :: "sha_state \<Rightarrow> string \<Rightarrow> sha_state" where
  "sha_block s bs =
     (let ws = rev (sha_schedule 48 (rev (words_of_bytes bs)));
          t = fold sha_round (zip sha_k ws) s
      in \<lparr>sa = sa s + sa t, sb = sb s + sb t, sc = sc s + sc t, sd = sd s + sd t,
          se = se s + se t, sf = sf s + sf t, sg = sg s + sg t, sh = sh s + sh t\<rparr>)"

definition sha_init :: sha_state where
  "sha_init = \<lparr>sa = 1779033703, sb = 3144134277, sc = 1013904242, sd = 2773480762,
     se = 1359893119, sf = 2600822924, sg = 528734635, sh = 1541459225\<rparr>"

text \<open>The bytes of a number, most significant first.\<close>

fun be_bytes :: "nat \<Rightarrow> int \<Rightarrow> string" where
  "be_bytes 0 n = []"
| "be_bytes (Suc k) n = be_bytes k (n div 256) @ [char_of (n mod 256)]"

definition sha_pad :: "string \<Rightarrow> string" where
  "sha_pad m = m @ char_of (128 :: nat) # replicate ((119 - length m mod 64) mod 64) NUL @
     be_bytes 8 (8 * int (length m))"

function sha_blocks :: "sha_state \<Rightarrow> string \<Rightarrow> sha_state" where
  "sha_blocks s m = (if length m < 64 then s else sha_blocks (sha_block s (take 64 m)) (drop 64 m))"
  by pat_completeness auto
termination by (relation "measure (\<lambda>(s, m). length m)") auto

declare sha_blocks.simps [simp del]

definition sha_digest :: "sha_state \<Rightarrow> string" where
  "sha_digest s = concat (map (\<lambda>w. be_bytes 4 (uint w)) [sa s, sb s, sc s, sd s, se s, sf s, sg s, sh s])"

definition sha256 :: "string \<Rightarrow> string" where
  "sha256 m = sha_digest (sha_blocks sha_init (sha_pad m))"

definition hmac_key :: "string \<Rightarrow> string" where
  "hmac_key k = (let k0 = (if length k > 64 then sha256 k else k) in k0 @ replicate (64 - length k0) NUL)"

definition xor_bytes :: "nat \<Rightarrow> string \<Rightarrow> string" where
  "xor_bytes n s = map (\<lambda>c. char_of (byte c XOR n)) s"

definition hmac_sha256 :: "string \<Rightarrow> string \<Rightarrow> string" where
  "hmac_sha256 k m = sha256 (xor_bytes 92 (hmac_key k) @ sha256 (xor_bytes 54 (hmac_key k) @ m))"

definition sha_size :: nat where "sha_size = 32"

lemma length_be_bytes [simp]: "length (be_bytes k n) = k"
  by (induction k arbitrary: n) auto

lemma length_sha256 [simp]: "length (sha256 m) = 32"
  by (simp add: sha256_def sha_digest_def)

lemma length_hmac_sha256 [simp]: "length (hmac_sha256 k m) = 32"
  by (simp add: hmac_sha256_def)

text \<open>Every padded message is a whole number of blocks, so no byte of it is left out.\<close>

lemma sha_pad_blocks: "64 dvd length (sha_pad m)"
proof -
  define r where "r = length m mod 64"
  obtain q where q: "length m = 64 * q + r" unfolding r_def by (metis mult_div_mod_eq)
  have "r < 64" by (simp add: r_def)
  then have "(119 - r) mod 64 = (if r \<le> 55 then 55 - r else 119 - r)"
    by (auto simp: mod_if)
  with q \<open>r < 64\<close> have "length (sha_pad m) = 64 * (if r \<le> 55 then q + 1 else q + 2)"
    by (auto simp: sha_pad_def simp flip: r_def)
  then show ?thesis by (metis dvd_triv_left)
qed

end
