(* ===== verification/Go_IO.thy ===== *)
theory Go_IO
  imports Go_Strings
begin

text \<open>
  Readers: \<open>io.LimitReader\<close> and \<open>io.ReadAll\<close> as \<open>webhook.ReadBody\<close>, \<open>storage.Value\<close> and the
  request decoder of \<open>api\<close> use them. A reader is the bytes it will yield and the error it ends
  with, if any; a limited reader passes on at most the given number of bytes and ends before the
  error if the limit comes first.
\<close>

record reader =
  rd_data :: string
  rd_err :: "string option"

definition LimitReader :: "reader \<Rightarrow> int \<Rightarrow> reader" where
  "LimitReader r n =
     (if n \<le> int (length (rd_data r)) then \<lparr>rd_data = take (nat n) (rd_data r), rd_err = None\<rparr> else r)"

definition ReadAll :: "reader \<Rightarrow> string + string" where
  "ReadAll r = (case rd_err r of Some err \<Rightarrow> Inl err | None \<Rightarrow> Inr (rd_data r))"

definition limit_read_all :: "reader \<Rightarrow> int \<Rightarrow> string + string" where
  "limit_read_all r n = ReadAll (LimitReader r n)"

lemma limit_read_all_cases:
  "limit_read_all r n =
     (if n \<le> int (length (rd_data r)) then Inr (take (nat n) (rd_data r))
      else case rd_err r of Some err \<Rightarrow> Inl err | None \<Rightarrow> Inr (rd_data r))"
  by (simp add: limit_read_all_def ReadAll_def LimitReader_def)

text \<open>Reading one byte more than allowed tells a body that is too long from one that fits.\<close>

lemma limited_length:
  assumes "limit_read_all r (n + 1) = Inr d" "0 \<le> n"
  shows "int (length d) \<le> n + 1 \<and> (int (length d) \<le> n \<longleftrightarrow> int (length (rd_data r)) \<le> n) \<and>
    (int (length d) \<le> n \<longrightarrow> d = rd_data r)"
  using assms by (auto simp: limit_read_all_cases split: if_splits option.splits)

end
