(* ===== verification/Webhook.thy ===== *)
theory Webhook
  imports Sha256 Go_IO
begin

text \<open>
  \<open>webhook/webhook.go\<close>: signing and verifying payloads with HMAC-SHA256. The header parser is
  modelled on bytes with \<open>strings.Split\<close>, \<open>Cut\<close>, \<open>TrimSpace\<close> and \<open>strconv.ParseInt\<close>
  as the code calls them; instants are compared with the saturating \<open>Sub\<close>, and
  \<open>time.Unix\<close> wraps. \<open>hmac.Equal\<close> is equality: its running time is not modelled.
\<close>

section \<open>Data\<close>

datatype wh_error = ErrInvalidSecret | ErrInvalidTimestamp | ErrInvalidSignature
  | ErrStaleTimestamp | ErrBodyTooLarge | ReaderErr string

record wh_config =
  Secrets :: "string list"
  cfg_MaxAge :: duration
  cfg_MaxBodyBytes :: int

record verifier =
  secrets :: "string list"
  maxAge :: duration
  maxBodyBytes :: int

definition MinSecretBytes :: nat where "MinSecretBytes = 32"
definition MaxSecretBytes :: nat where "MaxSecretBytes = 1024"
definition MaxSecrets :: nat where "MaxSecrets = 8"
definition DefaultMaxAge :: duration where "DefaultMaxAge = 5 * minute"
definition MaxAge :: duration where "MaxAge = 24 * hour"
definition DefaultMaxBodyBytes :: int where "DefaultMaxBodyBytes = 1048576"
definition MaxBodyBytes :: int where "MaxBodyBytes = 8388608"
definition MaxSignatureHeaderBytes :: nat where "MaxSignatureHeaderBytes = 1024"
definition MaxSignatures :: nat where "MaxSignatures = 8"

lemmas wh_constants = MinSecretBytes_def MaxSecretBytes_def MaxSecrets_def DefaultMaxAge_def
  MaxAge_def DefaultMaxBodyBytes_def MaxBodyBytes_def MaxSignatureHeaderBytes_def
  MaxSignatures_def sha_size_def duration_units

section \<open>Operations\<close>

definition validSecret :: "string \<Rightarrow> bool" where
  "validSecret secret \<longleftrightarrow> length secret \<ge> MinSecretBytes \<and> length secret \<le> MaxSecretBytes"

definition NewVerifier :: "wh_config \<Rightarrow> wh_error + verifier" where
  "NewVerifier config =
     (if length (Secrets config) = 0 \<or> length (Secrets config) > MaxSecrets then Inl ErrInvalidSecret
      else if \<not> list_all validSecret (Secrets config) then Inl ErrInvalidSecret
      else let age = (if cfg_MaxAge config = 0 then DefaultMaxAge else cfg_MaxAge config) in
      if age < 0 \<or> age > MaxAge then Inl ErrInvalidTimestamp
      else let body = (if cfg_MaxBodyBytes config = 0 then DefaultMaxBodyBytes else cfg_MaxBodyBytes config) in
      if body < 1 \<or> body > MaxBodyBytes then Inl ErrBodyTooLarge
      else Inr \<lparr>secrets = Secrets config, maxAge = age, maxBodyBytes = body\<rparr>)"

text \<open>\<open>sum\<close> in the code.\<close>

definition wh_sum :: "string \<Rightarrow> int \<Rightarrow> string \<Rightarrow> string" where
  "wh_sum secret u body = hmac_sha256 secret (format_int u @ [CHR ''.''] @ body)"

definition unixTimestamp :: "time \<Rightarrow> wh_error + int" where
  "unixTimestamp timestamp =
     (if is_zero timestamp \<or> unix timestamp < 0 then Inl ErrInvalidTimestamp
      else Inr (unix timestamp))"

definition Sign :: "string \<Rightarrow> time \<Rightarrow> string \<Rightarrow> wh_error + string" where
  "Sign secret timestamp body =
     (if \<not> validSecret secret then Inl ErrInvalidSecret
      else if int (length body) > MaxBodyBytes then Inl ErrBodyTooLarge
      else case unixTimestamp timestamp of
        Inl err \<Rightarrow> Inl err
      | Inr u \<Rightarrow> Inr (''t='' @ format_int u @ '',v1='' @ hex_encode (wh_sum secret u body)))"

text \<open>The loop in \<open>parseUnix\<close> ranges over rune starts.\<close>

definition parseUnix :: "string \<Rightarrow> wh_error + int" where
  "parseUnix value =
     (if value = [] \<or> (length value > 1 \<and> hd value = CHR ''0'') then Inl ErrInvalidTimestamp
      else if \<not> list_all (\<lambda>c. \<not> outside (CHR ''0'') (CHR ''9'') c) (lead_bytes value)
      then Inl ErrInvalidTimestamp
      else case parse_int value of None \<Rightarrow> Inl ErrInvalidTimestamp | Some u \<Rightarrow> Inr u)"

text \<open>The variables of the loop: \<open>unix\<close> and \<open>timeFound\<close> as an option, and \<open>signatures\<close>.\<close>

type_synonym header_acc = "int option \<times> string list"

definition parse_part :: "string \<Rightarrow> header_acc \<Rightarrow> wh_error + header_acc" where
  "parse_part part acc =
     (let (key, val, ok) = cut_byte (CHR ''='') (trim_space part); (time, sigs) = acc in
      if \<not> ok \<or> val = [] then Inl ErrInvalidSignature
      else if key = ''t'' then
        (if time \<noteq> None then Inl ErrInvalidSignature
         else case parseUnix val of Inl err \<Rightarrow> Inl err | Inr u \<Rightarrow> Inr (Some u, sigs))
      else if key = ''v1'' then
        (if length sigs = MaxSignatures \<or> length val \<noteq> sha_size * 2 then Inl ErrInvalidSignature
         else case hex_decode val of
           None \<Rightarrow> Inl ErrInvalidSignature
         | Some s \<Rightarrow> if length s \<noteq> sha_size then Inl ErrInvalidSignature
                     else Inr (time, sigs @ [s]))
      else Inl ErrInvalidSignature)"

fun parse_parts :: "string list \<Rightarrow> header_acc \<Rightarrow> wh_error + header_acc" where
  "parse_parts [] acc = Inr acc"
| "parse_parts (p # ps) acc =
     (case parse_part p acc of Inl err \<Rightarrow> Inl err | Inr acc' \<Rightarrow> parse_parts ps acc')"

definition parseHeader :: "string \<Rightarrow> wh_error + (time \<times> string list)" where
  "parseHeader header =
     (if length header = 0 \<or> length header > MaxSignatureHeaderBytes then Inl ErrInvalidSignature
      else case parse_parts (split_byte (CHR '','') header) (None, []) of
        Inl err \<Rightarrow> Inl err
      | Inr (None, sigs) \<Rightarrow> Inl ErrInvalidSignature
      | Inr (Some u, sigs) \<Rightarrow>
          if sigs = [] then Inl ErrInvalidSignature else Inr (time_unix u, sigs))"

text \<open>The receiver may be nil. Every secret is tried against every signature.\<close>

definition VerifyAt :: "verifier option \<Rightarrow> time \<Rightarrow> string \<Rightarrow> string \<Rightarrow> wh_error + time" where
  "VerifyAt v now header body =
     (case v of
        None \<Rightarrow> Inl ErrInvalidSignature
      | Some v \<Rightarrow>
          if int (length body) > maxBodyBytes v then Inl ErrBodyTooLarge
          else case parseHeader header of
            Inl err \<Rightarrow> Inl err
          | Inr (timestamp, signatures) \<Rightarrow>
              if is_zero now then Inl ErrInvalidTimestamp
              else let age = time_sub now timestamp in
              if age > maxAge v \<or> age < - maxAge v then Inl ErrStaleTimestamp
              else let valid = fold (\<lambda>secret valid.
                       let expected = wh_sum secret (unix timestamp) body in
                       fold (\<lambda>signature valid. if expected = signature then True else valid)
                         signatures valid)
                     (secrets v) False in
              if \<not> valid then Inl ErrInvalidSignature else Inr timestamp)"

definition ReadBody :: "verifier option \<Rightarrow> reader option \<Rightarrow> wh_error + string" where
  "ReadBody v body =
     (case (v, body) of
        (Some v, Some body) \<Rightarrow>
          (case limit_read_all body (maxBodyBytes v + 1) of
             Inl err \<Rightarrow> Inl (ReaderErr err)
           | Inr data \<Rightarrow> if int (length data) > maxBodyBytes v then Inl ErrBodyTooLarge else Inr data)
      | _ \<Rightarrow> Inl ErrBodyTooLarge)"

section \<open>Configuration\<close>

definition verifier_ok :: "verifier \<Rightarrow> bool" where
  "verifier_ok v \<longleftrightarrow> secrets v \<noteq> [] \<and> length (secrets v) \<le> 8 \<and> list_all validSecret (secrets v) \<and>
     0 \<le> maxAge v \<and> maxAge v \<le> 24 * hour \<and> 1 \<le> maxBodyBytes v \<and> maxBodyBytes v \<le> 8388608"

lemma NewVerifier_ok: "NewVerifier config = Inr v \<Longrightarrow> verifier_ok v"
  by (auto simp: NewVerifier_def verifier_ok_def Let_def wh_constants split: if_splits)

section \<open>Timestamps\<close>

lemma parseUnix_loop:
  "list_all (\<lambda>c. \<not> outside (CHR ''0'') (CHR ''9'') c) (lead_bytes s) = list_all is_digit s"
proof -
  have "list_all is_digit (lead_bytes s) = list_all is_digit s"
    by (rule lead_bytes_all_ascii) (auto dest: is_digit_graphic simp: graphic_def)
  then show ?thesis by (simp add: is_digit_def [abs_def])
qed

lemma parseUnix_iff:
  "parseUnix s = Inr u \<longleftrightarrow> canonical_digits s \<and> digits_val s < 2 ^ 63 \<and> u = int (digits_val s)"
  unfolding parseUnix_def parseUnix_loop
  by (auto simp: canonical_digits_def parse_int_digits split: option.splits if_splits)

text \<open>The only accepted spelling of a number is the one that is signed.\<close>

lemma parseUnix_format: "parseUnix s = Inr u \<Longrightarrow> format_int u = s \<and> 0 \<le> u \<and> in_int64 u"
  by (auto simp: parseUnix_iff format_int_def nat_digits_digits_val in_int64_def)

lemma parseUnix_format_int: "0 \<le> u \<Longrightarrow> in_int64 u \<Longrightarrow> parseUnix (format_int u) = Inr u"
  using canonical_nat_digits by (simp add: parseUnix_iff format_int_def in_int64_def)

section \<open>The header\<close>

text \<open>A part of a header: a timestamp in its only spelling, or one hex-encoded signature.\<close>

definition time_part :: "string \<Rightarrow> int \<Rightarrow> bool" where
  "time_part p u \<longleftrightarrow> trim_space p = ''t='' @ format_int u \<and> 0 \<le> u \<and> in_int64 u"

definition sig_part :: "string \<Rightarrow> string \<Rightarrow> bool" where
  "sig_part p d \<longleftrightarrow> (\<exists>s. trim_space p = ''v1='' @ s \<and> hex_decode s = Some d) \<and> length d = 32"

lemma cut_key_simps [simp]:
  "cut_byte (CHR ''='') (CHR ''t'' # CHR ''='' # s) = (''t'', s, True)"
  "cut_byte (CHR ''='') (CHR ''v'' # CHR ''1'' # CHR ''='' # s) = (''v1'', s, True)"
  by (simp_all add: cut_byte_def)

lemma parse_part_time:
  assumes "time_part p u"
  shows "parse_part p (None, sigs) = Inr (Some u, sigs)"
  using assms by (simp add: time_part_def parse_part_def parseUnix_format_int)

lemma parse_part_sig:
  assumes "sig_part p d" "length sigs < 8"
  shows "parse_part p (tm, sigs) = Inr (tm, sigs @ [d])"
  using assms length_hex_decode by (fastforce simp: sig_part_def parse_part_def wh_constants)

lemma parse_part_sound:
  assumes "parse_part p (tm, sigs) = Inr (tm', sigs')" "length sigs \<le> 8"
  shows "(tm = None \<and> sigs' = sigs \<and> (\<exists>u. tm' = Some u \<and> time_part p u)) \<or>
         (tm' = tm \<and> length sigs' \<le> 8 \<and> (\<exists>d. sigs' = sigs @ [d] \<and> sig_part p d))"
proof -
  obtain key val ok where cut: "cut_byte (CHR ''='') (trim_space p) = (key, val, ok)"
    by (cases "cut_byte (CHR ''='') (trim_space p)") auto
  with assms(1) have ok by (auto simp: parse_part_def split: if_splits)
  with cut have "cut_byte (CHR ''='') (trim_space p) = (key, val, True)" by simp
  from cut_byte_decompose [OF this] have trim: "trim_space p = key @ CHR ''='' # val" by blast
  consider "key = ''t''" | "key = ''v1''"
    using cut assms(1) by (auto simp: parse_part_def split: if_splits)
  then show ?thesis
  proof cases
    case 1
    with cut assms(1) obtain u where "tm = None" "sigs' = sigs" "parseUnix val = Inr u" "tm' = Some u"
      by (auto simp: parse_part_def split: if_splits sum.splits)
    moreover from this have "time_part p u"
      using parseUnix_format [of val u] trim 1 by (simp add: time_part_def)
    ultimately show ?thesis by blast
  next
    case 2
    with cut assms obtain d where "tm' = tm" "sigs' = sigs @ [d]" "hex_decode val = Some d"
      "length d = 32" "length sigs < 8"
      by (auto simp: parse_part_def wh_constants split: if_splits option.splits)
    moreover from this have "sig_part p d" using trim 2 by (auto simp: sig_part_def)
    ultimately show ?thesis by auto
  qed
qed

lemma parse_parts_sound:
  assumes "parse_parts ps (tm, sigs) = Inr (tm', sigs')" "length sigs \<le> 8"
  shows "length sigs' \<le> 8 \<and> (tm' = tm \<or> (\<exists>p \<in> set ps. \<exists>u. tm' = Some u \<and> time_part p u)) \<and>
    (\<forall>d \<in> set sigs'. d \<in> set sigs \<or> (\<exists>p \<in> set ps. sig_part p d))"
  using assms
proof (induction ps arbitrary: tm sigs)
  case (Cons p ps)
  from Cons.prems(1) obtain tm1 sigs1 where step: "parse_part p (tm, sigs) = Inr (tm1, sigs1)"
    and rest: "parse_parts ps (tm1, sigs1) = Inr (tm', sigs')" by (auto split: sum.splits)
  from parse_part_sound [OF step Cons.prems(2)] have "length sigs1 \<le> 8" using Cons.prems(2) by auto
  from Cons.IH [OF rest this] parse_part_sound [OF step Cons.prems(2)] show ?case by auto
qed simp

lemma parseHeader_sound:
  assumes "parseHeader header = Inr (t, sigs)"
  shows "(\<exists>p \<in> set (split_byte (CHR '','') header). \<exists>u. time_part p u \<and> t = time_unix u) \<and>
    (\<forall>d \<in> set sigs. \<exists>p \<in> set (split_byte (CHR '','') header). sig_part p d) \<and>
    sigs \<noteq> [] \<and> length sigs \<le> 8 \<and> length header \<le> 1024"
proof -
  from assms obtain u where "parse_parts (split_byte (CHR '','') header) (None, []) = Inr (Some u, sigs)"
    "t = time_unix u" "sigs \<noteq> []" "length header \<le> 1024"
    by (auto simp: parseHeader_def wh_constants split: if_splits sum.splits option.splits)
  with parse_parts_sound [of "split_byte (CHR '','') header" None "[]" "Some u" sigs]
  show ?thesis by auto
qed

section \<open>Verification\<close>

definition signed_by :: "verifier \<Rightarrow> string list \<Rightarrow> int \<Rightarrow> string \<Rightarrow> bool" where
  "signed_by v sigs u body \<longleftrightarrow> (\<exists>secret \<in> set (secrets v). wh_sum secret u body \<in> set sigs)"

text \<open>The nested loops compute the existence of a matching pair.\<close>

lemma inner_loop:
  "fold (\<lambda>signature. If (expected = signature) True) sigs b \<longleftrightarrow> b \<or> expected \<in> set sigs"
  by (induction sigs arbitrary: b) auto

lemma outer_loop:
  "fold (\<lambda>secret. fold (\<lambda>signature. If (f secret = signature) True) sigs) ss b \<longleftrightarrow>
   b \<or> (\<exists>secret \<in> set ss. f secret \<in> set sigs)"
  by (induction ss arbitrary: b) (auto simp: inner_loop)

lemma VerifyAt_Inr:
  "VerifyAt (Some v) now header body = Inr t \<longleftrightarrow>
     int (length body) \<le> maxBodyBytes v \<and> now \<noteq> 0 \<and>
     (\<exists>sigs. parseHeader header = Inr (t, sigs) \<and> time_sub now t \<le> maxAge v \<and>
        - maxAge v \<le> time_sub now t \<and> signed_by v sigs (unix t) body)"
  by (auto simp: VerifyAt_def outer_loop signed_by_def is_zero_def Let_def
      split: if_splits sum.splits)

text \<open>For an admissible age the saturating subtraction says what it seems to say.\<close>

lemma age_iff:
  assumes "verifier_ok v"
  shows "time_sub now t \<le> maxAge v \<and> - maxAge v \<le> time_sub now t \<longleftrightarrow> \<bar>now - t\<bar> \<le> maxAge v"
proof -
  have "0 \<le> maxAge v" "maxAge v < max_duration" "min_duration < - maxAge v"
    using assms by (auto simp: verifier_ok_def duration_units max_duration_def min_duration_def)
  then show ?thesis
    using time_sub_gt [of "maxAge v" now t] time_sub_ge [of "- maxAge v" now t] by auto
qed

text \<open>
  A huge timestamp would wrap to an instant in the far past; since the age is checked against
  the wrapped instant, it is stale.
\<close>

lemma fresh_not_wrapped:
  assumes "verifier_ok v" "\<bar>now - time_unix u\<bar> \<le> maxAge v" "0 \<le> now" "0 \<le> u" "in_int64 u"
  shows "time_unix u = (u + 62135596800) * 1000000000"
proof (cases "in_int64 (u + unix_to_internal)")
  case True
  then show ?thesis by (simp add: time_unix_def unix_to_internal_def second_def)
next
  case False
  with assms(4,5) have "(u + unix_to_internal + 2 ^ 63) mod 2 ^ 64 = u + unix_to_internal + 2 ^ 63 - 2 ^ 64"
    by (auto simp: in_int64_def unix_to_internal_def mod_pos_geq)
  then have "int64_wrap (u + unix_to_internal) = u + unix_to_internal - 2 ^ 64"
    by (simp add: int64_wrap_def)
  then have "time_unix u = (u + unix_to_internal - 2 ^ 64) * second"
    by (simp add: time_unix_def)
  moreover have "maxAge v \<le> 86400 * second" using assms(1) by (simp add: verifier_ok_def duration_units)
  ultimately show ?thesis
    using assms(2,3,5) by (auto simp: in_int64_def unix_to_internal_def second_def)
qed


lemma time_part_format: "0 \<le> u \<Longrightarrow> in_int64 u \<Longrightarrow> time_part (''t='' @ format_int u) u"
  using trim_space_graphic [of "''t='' @ nat_digits (nat u)"]
  by (simp add: time_part_def format_int_def graphic_def ascii_def byte_def)

lemma sig_part_encode: "length d = 32 \<Longrightarrow> sig_part (''v1='' @ hex_encode d) d"
  using trim_space_graphic [of "''v1='' @ hex_encode d"]
  by (simp add: sig_part_def graphic_def ascii_def byte_def)

lemma comma_free:
  "0 \<le> u \<Longrightarrow> CHR '','' \<notin> set (format_int u)" "CHR '','' \<notin> set (hex_encode d)"
  using nat_digits_not_in [of "CHR '',''" "nat u"] hex_encode_bytes [of "CHR '',''" d]
  by (auto simp: format_int_def is_digit_byte byte_def)

lemma length_format_int:
  "0 \<le> u \<Longrightarrow> in_int64 u \<Longrightarrow> length (format_int u) \<le> 19"
  by (simp add: format_int_def in_int64_def, rule length_nat_digits) (simp_all add: nat_less_iff)

lemma parseHeader_signed:
  assumes "0 \<le> u" "in_int64 u" "length d = 32"
  shows "parseHeader (''t='' @ format_int u @ '',v1='' @ hex_encode d) = Inr (time_unix u, [d])"
proof -
  have parts: "split_byte (CHR '','') (''t='' @ format_int u @ '',v1='' @ hex_encode d) =
      [''t='' @ format_int u, ''v1='' @ hex_encode d]"
    using split_byte_append [of "CHR '',''" "''t='' @ format_int u" "''v1='' @ hex_encode d"]
      comma_free assms(1) by simp
  have "parse_part (''t='' @ format_int u) (None, []) = Inr (Some u, [])"
    by (rule parse_part_time) (rule time_part_format [OF assms(1,2)])
  moreover have "parse_part (''v1='' @ hex_encode d) (Some u, []) = Inr (Some u, [d])"
    using parse_part_sig [OF sig_part_encode [OF assms(3)], of "[]" "Some u"] by simp
  ultimately have "parse_parts (split_byte (CHR '','') (''t='' @ format_int u @ '',v1='' @ hex_encode d))
      (None, []) = Inr (Some u, [d])"
    unfolding parts by simp
  moreover have "length (''t='' @ format_int u @ '',v1='' @ hex_encode d) \<le> 1024"
    using length_format_int [OF assms(1,2)] assms(3) by simp
  ultimately show ?thesis by (simp add: parseHeader_def wh_constants)
qed

lemma Sign_Inr:
  "Sign secret t body = Inr header \<longleftrightarrow> validSecret secret \<and> int (length body) \<le> 8388608 \<and>
     t \<noteq> 0 \<and> 0 \<le> unix t \<and>
     header = ''t='' @ format_int (unix t) @ '',v1='' @ hex_encode (wh_sum secret (unix t) body)"
  by (auto simp: Sign_def unixTimestamp_def is_zero_def MaxBodyBytes_def split: if_splits)

lemma verify_signed:
  assumes v: "verifier_ok v" and sign: "Sign secret t body = Inr header" and "secret \<in> set (secrets v)"
    and "int (length body) \<le> maxBodyBytes v" and "now \<noteq> 0" and "\<bar>now - time_unix (unix t)\<bar> \<le> maxAge v"
  shows "VerifyAt (Some v) now header body = Inr (time_unix (unix t))"
proof -
  let ?d = "wh_sum secret (unix t) body"
  have u: "0 \<le> unix t" "in_int64 (unix t)" using sign by (auto simp: Sign_Inr unix_def)
  have "parseHeader header = Inr (time_unix (unix t), [?d])"
    using sign parseHeader_signed [OF u, of ?d] by (simp add: Sign_Inr wh_sum_def)
  with assms u age_iff [OF v] show ?thesis by (auto simp: VerifyAt_Inr signed_by_def)
qed

section \<open>Properties\<close>

text \<open>
  C4. What \<open>VerifyAt\<close> accepts: with a verifier from \<open>NewVerifier\<close>, a header is accepted
  only if it spells a timestamp \<open>u\<close> in canonical decimal and carries, in hexadecimal, the
  HMAC under one of the configured secrets of exactly those digits, a period and the raw body;
  the returned instant is \<open>u\<close> without wrap-around, it lies within the configured age of
  \<open>now\<close> in both directions, and body and header respect their bounds.
\<close>

theorem VerifyAt_sound:
  assumes "NewVerifier config = Inr v" "0 \<le> now" "VerifyAt (Some v) now header body = Inr t"
  shows "\<exists>u secret p q. p \<in> set (split_byte (CHR '','') header) \<and> q \<in> set (split_byte (CHR '','') header) \<and>
     trim_space p = ''t='' @ format_int u \<and> secret \<in> set (Secrets config) \<and>
     sig_part q (hmac_sha256 secret (format_int u @ ''.'' @ body)) \<and>
     t = (u + 62135596800) * 1000000000 \<and> \<bar>now - t\<bar> \<le> maxAge v \<and> maxAge v \<le> 24 * hour \<and>
     int (length body) \<le> maxBodyBytes v \<and> length header \<le> 1024"
proof -
  have ok: "verifier_ok v" by (rule NewVerifier_ok [OF assms(1)])
  have secrets: "secrets v = Secrets config"
    using assms(1) by (auto simp: NewVerifier_def Let_def split: if_splits)
  from assms(3) obtain sigs where header: "parseHeader header = Inr (t, sigs)"
    and age: "\<bar>now - t\<bar> \<le> maxAge v" and signed: "signed_by v sigs (unix t) body"
    and len: "int (length body) \<le> maxBodyBytes v"
    using age_iff [OF ok] by (auto simp: VerifyAt_Inr)
  from parseHeader_sound [OF header] obtain p u where p: "p \<in> set (split_byte (CHR '','') header)"
    "time_part p u" "t = time_unix u" by blast
  from signed obtain secret where secret: "secret \<in> set (secrets v)" "wh_sum secret (unix t) body \<in> set sigs"
    by (auto simp: signed_by_def)
  with parseHeader_sound [OF header] obtain q where q: "q \<in> set (split_byte (CHR '','') header)"
    "sig_part q (wh_sum secret (unix t) body)" by blast
  have "unix t = u" using p by (simp add: time_part_def)
  with p q secret secrets fresh_not_wrapped [OF ok _ assms(2), of u] age ok len
    parseHeader_sound [OF header]
  show ?thesis
    by (intro exI [of _ u] exI [of _ secret] exI [of _ p] exI [of _ q])
      (auto simp: time_part_def wh_sum_def verifier_ok_def)
qed

definition demo_secret :: string where "demo_secret = replicate 32 (CHR ''s'')"

definition demo_config :: wh_config where
  "demo_config = \<lparr>Secrets = [replicate 32 (CHR ''c''), demo_secret], cfg_MaxAge = 60000000000, cfg_MaxBodyBytes = 0\<rparr>"

definition demo_verifier :: verifier where
  "demo_verifier = \<lparr>secrets = [replicate 32 (CHR ''c''), demo_secret], maxAge = 60000000000, maxBodyBytes = 1048576\<rparr>"

definition demo_time :: time where "demo_time = (1767323045 + 62135596800) * 1000000000"

lemma demo_verifier_new: "NewVerifier demo_config = Inr demo_verifier"
  by (simp add: NewVerifier_def demo_config_def demo_verifier_def demo_secret_def validSecret_def
      wh_constants Let_def)

lemma demo_unix: "unix demo_time = 1767323045" "time_unix 1767323045 = demo_time"
  by (simp_all add: unix_def time_unix_def demo_time_def unix_to_internal_def second_def in_int64_def)

definition demo_header :: "string \<Rightarrow> string" where
  "demo_header body = ''t='' @ format_int 1767323045 @ '',v1='' @ hex_encode (wh_sum demo_secret 1767323045 body)"

lemma demo_sign: "Sign demo_secret demo_time ''body'' = Inr (demo_header ''body'')"
  unfolding Sign_Inr demo_unix by (simp add: demo_header_def demo_time_def validSecret_def wh_constants demo_secret_def)

lemma demo_verify: "VerifyAt (Some demo_verifier) (demo_time + 30000000000) (demo_header ''body'') ''body'' = Inr demo_time"
  using verify_signed [OF NewVerifier_ok [OF demo_verifier_new] demo_sign, of "demo_time + 30000000000"]
  by (simp add: demo_unix demo_verifier_def) (simp add: demo_time_def)

theorem VerifyAt_sound_witness:
  "\<exists>u secret. secret \<in> set (Secrets demo_config) \<and> demo_time = (u + 62135596800) * 1000000000 \<and>
     (\<exists>q \<in> set (split_byte (CHR '','') (demo_header ''body'')).
        sig_part q (hmac_sha256 secret (format_int u @ ''.'' @ ''body'')))"
proof -
  have "0 \<le> demo_time + 30000000000" by (simp add: demo_time_def)
  from VerifyAt_sound [OF demo_verifier_new this demo_verify] show ?thesis by blast
qed

text \<open>
  C23. Round trip: a header made by \<open>Sign\<close> with one of the verifier's secrets, current or
  rotated, is accepted for the same body by every verifier whose body limit admits it and at
  every time within the configured age, and \<open>VerifyAt\<close> returns the signed time, cut to seconds.
\<close>

theorem Sign_VerifyAt:
  assumes "NewVerifier config = Inr v" "secret \<in> set (Secrets config)" "Sign secret t body = Inr header"
    and "int (length body) \<le> maxBodyBytes v" "now \<noteq> 0" "\<bar>now - time_unix (unix t)\<bar> \<le> maxAge v"
  shows "VerifyAt (Some v) now header body = Inr (time_unix (unix t))"
proof -
  have "secrets v = Secrets config"
    using assms(1) by (auto simp: NewVerifier_def Let_def split: if_splits)
  with assms verify_signed [OF NewVerifier_ok [OF assms(1)] assms(3)] show ?thesis by simp
qed

theorem Sign_VerifyAt_witness:
  "VerifyAt (Some demo_verifier) (demo_time - 60000000000) (demo_header ''body'') ''body'' = Inr demo_time"
  using Sign_VerifyAt [OF demo_verifier_new _ demo_sign, of "demo_time - 60000000000"]
  by (simp add: demo_unix demo_config_def demo_verifier_def) (simp add: demo_time_def)

lemma parse_parts_counts:
  assumes "parse_parts ps (tm, sigs) = Inr (tm', sigs')" "length sigs \<le> 8"
  shows "list_all (\<lambda>p. (\<exists>u. time_part p u) \<or> (\<exists>d. sig_part p d)) ps \<and>
    length (filter (\<lambda>p. \<exists>u. time_part p u) ps) + (if tm = None then 0 else 1) = (if tm' = None then 0 else 1) \<and>
    length sigs + length (filter (\<lambda>p. \<exists>d. sig_part p d) ps) = length sigs'"
  using assms
proof (induction ps arbitrary: tm sigs)
  case (Cons p ps)
  from Cons.prems(1) obtain tm1 sigs1 where step: "parse_part p (tm, sigs) = Inr (tm1, sigs1)"
    and rest: "parse_parts ps (tm1, sigs1) = Inr (tm', sigs')" by (auto split: sum.splits)
  have excl: "\<not> (time_part p u \<and> sig_part p d)" for u d by (auto simp: time_part_def sig_part_def)
  from parse_part_sound [OF step Cons.prems(2)] show ?case
  proof
    assume *: "tm = None \<and> sigs1 = sigs \<and> (\<exists>u. tm1 = Some u \<and> time_part p u)"
    with Cons.IH [OF rest] Cons.prems(2) excl show ?thesis by (auto split: if_splits)
  next
    assume *: "tm1 = tm \<and> length sigs1 \<le> 8 \<and> (\<exists>d. sigs1 = sigs @ [d] \<and> sig_part p d)"
    with Cons.IH [OF rest] excl show ?thesis by auto
  qed
qed simp

lemma parse_parts_complete:
  assumes "list_all (\<lambda>p. (\<exists>u. time_part p u) \<or> (\<exists>d. sig_part p d)) ps"
    and "length (filter (\<lambda>p. \<exists>u. time_part p u) ps) + (if tm = None then 0 else 1) \<le> 1"
    and "length sigs + length (filter (\<lambda>p. \<exists>d. sig_part p d) ps) \<le> 8"
  shows "\<exists>r. parse_parts ps (tm, sigs) = Inr r"
  using assms
proof (induction ps arbitrary: tm sigs)
  case (Cons p ps)
  from Cons.prems(1) consider u where "time_part p u" | d where "sig_part p d" by auto
  then show ?case
  proof cases
    case (1 u)
    then have "\<exists>u. time_part p u" by blast
    moreover from 1 have "\<not> (\<exists>d. sig_part p d)" by (auto simp: time_part_def sig_part_def)
    ultimately have "tm = None" using Cons.prems(2) by (cases tm) auto
    with parse_part_time [OF 1] Cons.IH [of "Some u" sigs] Cons.prems \<open>\<exists>u. time_part p u\<close>
      \<open>\<not> (\<exists>d. sig_part p d)\<close> show ?thesis by auto
  next
    case (2 d)
    then have "\<exists>d. sig_part p d" by blast
    moreover from 2 have "\<not> (\<exists>u. time_part p u)" by (auto simp: time_part_def sig_part_def)
    ultimately show ?thesis
      using parse_part_sig [OF 2, of sigs tm] Cons.IH [of tm "sigs @ [d]"] Cons.prems
      by (auto split: if_splits)
  qed
qed simp

text \<open>
  Strictness of the header: it is accepted exactly when it is non-empty and within its bound,
  every comma-separated part is a well-formed timestamp or signature, exactly one is a timestamp
  and one to eight are signatures. One malformed part anywhere rejects it, whatever the others are.
\<close>

theorem parseHeader_accepts_iff:
  "(\<exists>r. parseHeader header = Inr r) \<longleftrightarrow>
     (let parts = split_byte (CHR '','') header in
      0 < length header \<and> length header \<le> 1024 \<and>
      list_all (\<lambda>p. (\<exists>u. time_part p u) \<or> (\<exists>d. sig_part p d)) parts \<and>
      length (filter (\<lambda>p. \<exists>u. time_part p u) parts) = 1 \<and>
      length (filter (\<lambda>p. \<exists>d. sig_part p d) parts) \<in> {1..8})"
  (is "?acc \<longleftrightarrow> ?spec")
proof
  let ?parts = "split_byte (CHR '','') header"
  assume ?acc
  then obtain u sigs where run: "parse_parts ?parts (None, []) = Inr (Some u, sigs)" and ne: "sigs \<noteq> []"
    and len: "0 < length header \<and> length header \<le> 1024"
    by (auto simp: parseHeader_def wh_constants split: if_splits sum.splits option.splits)
  have "Suc 0 \<le> length sigs" using ne by (simp add: Suc_le_eq)
  with len parse_parts_counts [OF run] parse_parts_sound [OF run] show ?spec by (auto simp: Let_def)
next
  let ?parts = "split_byte (CHR '','') header"
  assume ?spec
  then have len: "0 < length header" "length header \<le> 1024"
    and ok: "list_all (\<lambda>p. (\<exists>u. time_part p u) \<or> (\<exists>d. sig_part p d)) ?parts"
    and times: "length (filter (\<lambda>p. \<exists>u. time_part p u) ?parts) = 1"
    and sigs: "1 \<le> length (filter (\<lambda>p. \<exists>d. sig_part p d) ?parts)"
      "length (filter (\<lambda>p. \<exists>d. sig_part p d) ?parts) \<le> 8"
    by (simp_all only: Let_def atLeastAtMost_iff)
  from parse_parts_complete [OF ok, of None "[]"] times sigs obtain tm ss where
    run: "parse_parts ?parts (None, []) = Inr (tm, ss)" by auto
  note counts = parse_parts_counts [OF run, simplified]
  have "tm \<noteq> None" using counts times by (cases tm) simp_all
  moreover have "ss \<noteq> []" using counts sigs(1) by (cases ss) simp_all
  ultimately show ?acc using run len by (auto simp: parseHeader_def wh_constants)
qed

end
