(* ===== verification/Auth.thy ===== *)
theory Auth
  imports Sha256 Validators
begin

text \<open>
  \<open>auth/auth.go\<close> and \<open>auth/session.go\<close>: passwords, opaque tokens and sessions. The
  third-party \<open>bcrypt\<close> package and the application's stores are parameters;
  \<open>VerifyLogin\<close> also returns the list of bcrypt comparisons it makes, in order, because the
  code makes one for an unknown user on purpose. \<open>crypto/rand\<close> is the source of the random
  bytes of a token. \<open>subtle.ConstantTimeCompare\<close> is equality: its running time is not modelled.
\<close>

section \<open>Data\<close>

datatype auth_error = ErrInvalidCredentials | ErrTokenExpired | ErrTokenInvalid
  | ErrSessionExpired | ErrSessionRevoked | ErrPasswordTooShort
  | FindUserErr string | FindSessionErr string | BcryptErr string | RandErr string

record user =
  user_ID :: string
  Email :: string
  Name :: string
  PasswordHash :: string
  EmailVerified :: bool
  user_CreatedAt :: time

record session =
  ID :: string
  UserID :: string
  sess_TokenHash :: string
  CreatedAt :: time
  ExpiresAt :: time
  RevokedAt :: time

type_synonym user_lookup = "string \<Rightarrow> string + user option"
type_synonym session_lookup = "string \<Rightarrow> string + session option"

definition MinRawTokenBytes :: nat where "MinRawTokenBytes = 32"
definition MaxRawTokenBytes :: nat where "MaxRawTokenBytes = 4096"

definition dummyPasswordHash :: string where
  "dummyPasswordHash = ''$2a$10$nwEFPH4gVgWZBOOw/fEi5e1Vy9LK.AYICiUc5zSWvdyT/75zjwFQy''"

section \<open>Passwords\<close>

text \<open>\<open>generate\<close> is \<open>bcrypt.GenerateFromPassword\<close> at its default cost.\<close>

definition HashPassword :: "(string \<Rightarrow> string + string) \<Rightarrow> string \<Rightarrow> auth_error + string" where
  "HashPassword generate password =
     (if length password < 12 then Inl ErrPasswordTooShort
      else case generate password of Inl err \<Rightarrow> Inl (BcryptErr err) | Inr hash \<Rightarrow> Inr hash)"

text \<open>\<open>compare\<close> is \<open>bcrypt.CompareHashAndPassword\<close>: \<open>None\<close> when the password matches.\<close>

definition CheckPassword :: "(string \<Rightarrow> string \<Rightarrow> string option) \<Rightarrow> string \<Rightarrow> string \<Rightarrow> bool" where
  "CheckPassword compare hash password \<longleftrightarrow> compare hash password = None"

definition VerifyLogin ::
  "(string \<Rightarrow> string \<Rightarrow> string option) \<Rightarrow> user_lookup \<Rightarrow> string \<Rightarrow> string \<Rightarrow>
     (auth_error + user) \<times> (string \<times> string) list" where
  "VerifyLogin compare lookup email password =
     (case lookup email of
        Inl err \<Rightarrow> (Inl (FindUserErr err), [])
      | Inr None \<Rightarrow> (Inl ErrInvalidCredentials, [(dummyPasswordHash, password)])
      | Inr (Some u) \<Rightarrow>
          (if \<not> CheckPassword compare (PasswordHash u) password
           then Inl ErrInvalidCredentials else Inr u,
           [(PasswordHash u, password)]))"

section \<open>Tokens\<close>

definition b64_digit :: "nat \<Rightarrow> char" where
  "b64_digit n = char_of (if n < 26 then 65 + n else if n < 52 then 71 + n
     else if n < 62 then n - 4 else if n = 62 then 45 else 95)"

text \<open>\<open>base64.RawURLEncoding.EncodeToString\<close>: no padding, \<open>-\<close> and \<open>_\<close> for 62 and 63.\<close>

fun b64_encode :: "string \<Rightarrow> string" where
  "b64_encode [] = []"
| "b64_encode [a] = [b64_digit (byte a div 4), b64_digit (byte a mod 4 * 16)]"
| "b64_encode [a, b] = [b64_digit (byte a div 4), b64_digit (byte a mod 4 * 16 + byte b div 16),
     b64_digit (byte b mod 16 * 4)]"
| "b64_encode (a # b # c # r) = [b64_digit (byte a div 4), b64_digit (byte a mod 4 * 16 + byte b div 16),
     b64_digit (byte b mod 16 * 4 + byte c div 64), b64_digit (byte c mod 64)] @ b64_encode r"

text \<open>\<open>rand n\<close> fills a buffer of \<open>n\<close> bytes or fails.\<close>

definition NewToken :: "(nat \<Rightarrow> string + string) \<Rightarrow> int \<Rightarrow> auth_error + string" where
  "NewToken rand bytes =
     (let bytes = (if bytes < 32 then 32 else bytes) in
      case rand (nat bytes) of Inl err \<Rightarrow> Inl (RandErr err) | Inr raw \<Rightarrow> Inr (b64_encode raw))"

definition NewCSRFToken :: "(nat \<Rightarrow> string + string) \<Rightarrow> auth_error + string" where
  "NewCSRFToken rand = NewToken rand 32"

definition VerifyCSRFToken :: "string \<Rightarrow> string \<Rightarrow> bool" where
  "VerifyCSRFToken expected supplied =
     (if expected = [] \<or> supplied = [] \<or> length expected > MaxRawTokenBytes \<or>
         length supplied > MaxRawTokenBytes then False
      else expected = supplied)"

definition TokenHash :: "string \<Rightarrow> auth_error + string" where
  "TokenHash token =
     (if length token < MinRawTokenBytes \<or> length token > MaxRawTokenBytes then Inl ErrTokenInvalid
      else Inr (hex_encode (sha256 token)))"

section \<open>Sessions\<close>

text \<open>\<open>ToLower\<close> is only reached for strings of hexadecimal digits.\<close>

definition validTokenHash :: "string \<Rightarrow> bool" where
  "validTokenHash value =
     (if length value \<noteq> sha_size * 2 then False
      else hex_decode value \<noteq> None \<and> map lower_ascii value = value)"

definition ActiveAt :: "session \<Rightarrow> time \<Rightarrow> auth_error option" where
  "ActiveAt s now =
     (if is_zero now \<or> ID s = [] \<or> UserID s = [] \<or> \<not> validTokenHash (sess_TokenHash s) \<or>
         is_zero (ExpiresAt s) then Some ErrTokenInvalid
      else if \<not> is_zero (RevokedAt s) \<and> \<not> after (RevokedAt s) now then Some ErrSessionRevoked
      else if \<not> after (ExpiresAt s) now then Some ErrSessionExpired
      else None)"

definition AuthenticateSession :: "session_lookup option \<Rightarrow> string \<Rightarrow> time \<Rightarrow> auth_error + session" where
  "AuthenticateSession store token now =
     (case store of
        None \<Rightarrow> Inl ErrTokenInvalid
      | Some lookup \<Rightarrow>
          if is_zero now then Inl ErrTokenInvalid
          else case TokenHash token of
            Inl err \<Rightarrow> Inl err
          | Inr hash \<Rightarrow>
              (case lookup hash of
                 Inl err \<Rightarrow> Inl (FindSessionErr err)
               | Inr None \<Rightarrow> Inl ErrTokenInvalid
               | Inr (Some s) \<Rightarrow>
                   if sess_TokenHash s \<noteq> hash then Inl ErrTokenInvalid
                   else case ActiveAt s now of Some err \<Rightarrow> Inl err | None \<Rightarrow> Inr s))"

section \<open>Token encoding\<close>

lemma byte_b64_digit:
  "n < 64 \<Longrightarrow> byte (b64_digit n) = (if n < 26 then 65 + n else if n < 52 then 71 + n
     else if n < 62 then n - 4 else if n = 62 then 45 else 95)"
  by (auto simp: b64_digit_def byte_def)

lemma b64_digit_inj: "m < 64 \<Longrightarrow> n < 64 \<Longrightarrow> b64_digit m = b64_digit n \<Longrightarrow> m = n"
  by (drule arg_cong [where f = byte]) (auto simp: byte_b64_digit split: if_splits)

lemma b64_digit_eq [simp]: "m < 64 \<Longrightarrow> n < 64 \<Longrightarrow> b64_digit m = b64_digit n \<longleftrightarrow> m = n"
  using b64_digit_inj by blast

definition url_safe :: "char \<Rightarrow> bool" where
  "url_safe c \<longleftrightarrow> \<not> not_alnum c \<or> c = CHR ''-'' \<or> c = CHR ''_''"

lemma url_safe_byte:
  "url_safe c \<longleftrightarrow> (97 \<le> byte c \<and> byte c \<le> 122) \<or> (65 \<le> byte c \<and> byte c \<le> 90) \<or>
     (48 \<le> byte c \<and> byte c \<le> 57) \<or> byte c = 45 \<or> byte c = 95"
proof -
  have lits: "byte (CHR ''a'') = 97" "byte (CHR ''z'') = 122" "byte (CHR ''A'') = 65"
    "byte (CHR ''Z'') = 90" "byte (CHR ''0'') = 48" "byte (CHR ''9'') = 57"
    "byte (CHR ''-'') = 45" "byte (CHR ''_'') = 95"
    by (simp_all add: byte_def)
  have "c = CHR ''-'' \<longleftrightarrow> byte c = 45" "c = CHR ''_'' \<longleftrightarrow> byte c = 95"
    using byte_eq_iff [of c] lits by metis+
  then show ?thesis unfolding url_safe_def not_alnum_def outside_byte lits by auto
qed

lemma url_safe_b64_digit: "n < 64 \<Longrightarrow> url_safe (b64_digit n)"
  by (auto simp: url_safe_byte byte_b64_digit)

lemma sextets [simp]:
  "byte a div 4 < 64" "byte a mod 4 * 16 < 64" "byte a mod 4 * 16 + byte b div 16 < 64"
  "byte b mod 16 * 4 < 64" "byte b mod 16 * 4 + byte c div 64 < 64" "byte c mod 64 < 64"
proof -
  have "byte a < 256" "byte b < 256" "byte c < 256" by simp_all
  then have "byte a div 4 < 64" "byte b div 16 < 16" "byte c div 64 < 4" by linarith+
  moreover have "byte a mod 4 < 4" "byte b mod 16 < 16" by simp_all
  ultimately show "byte a div 4 < 64" "byte a mod 4 * 16 < 64" "byte a mod 4 * 16 + byte b div 16 < 64"
    "byte b mod 16 * 4 < 64" "byte b mod 16 * 4 + byte c div 64 < 64" "byte c mod 64 < 64"
    by linarith+
qed

lemma length_b64_encode: "length (b64_encode s) = (4 * length s + 2) div 3"
  by (induction s rule: b64_encode.induct) auto

lemma b64_encode_url_safe: "list_all url_safe (b64_encode s)"
  by (induction s rule: b64_encode.induct) (auto intro!: url_safe_b64_digit)

lemma b64_group_inj:
  assumes "b64_digit (byte a div 4) = b64_digit (byte a' div 4)"
    "b64_digit (byte a mod 4 * 16 + byte b div 16) = b64_digit (byte a' mod 4 * 16 + byte b' div 16)"
  shows "a = a' \<and> byte b div 16 = byte b' div 16"
proof -
  from assms have "byte a div 4 = byte a' div 4"
    and "byte a mod 4 * 16 + byte b div 16 = byte a' mod 4 * 16 + byte b' div 16"
    by simp_all
  moreover have "byte b div 16 < 16" "byte b' div 16 < 16"
    using byte_less_256 [of b] byte_less_256 [of b'] by linarith+
  ultimately have "byte a mod 4 = byte a' mod 4 \<and> byte b div 16 = byte b' div 16"
    by (intro mult_add_inj)
  with \<open>byte a div 4 = byte a' div 4\<close> show ?thesis using div_mod_inj [of "byte a" 4 "byte a'"] by simp
qed


text \<open>Tokens made from different random bytes are different.\<close>

lemma b64_encode_inj: "length s = length t \<Longrightarrow> b64_encode s = b64_encode t \<Longrightarrow> s = t"
proof (induction s arbitrary: t rule: b64_encode.induct)
  case (2 a)
  then obtain a' where t: "t = [a']" by (cases t) auto
  with 2 have "byte a div 4 = byte a' div 4" "byte a mod 4 * 16 = byte a' mod 4 * 16"
    by simp_all
  then have "byte a = byte a'" by - (rule div_mod_inj [of _ 4], simp_all)
  with t show ?case by simp
next
  case (3 a b)
  then obtain a' b' where t: "t = [a', b']" by (cases t; cases "tl t") auto
  with 3 have "a = a'" and b: "byte b div 16 = byte b' div 16" using b64_group_inj [of a a' b b'] by auto
  from 3 t have "byte b mod 16 * 4 = byte b' mod 16 * 4" by simp_all
  with b have "byte b = byte b'" by - (rule div_mod_inj [of _ 16], simp_all)
  with t \<open>a = a'\<close> show ?case by simp
next
  case (4 a b c r)
  then obtain a' b' c' r' where t: "t = a' # b' # c' # r'"
    by (cases t; cases "tl t"; cases "tl (tl t)") auto
  with 4 have "a = a'" and b: "byte b div 16 = byte b' div 16" using b64_group_inj [of a a' b b'] by auto
  from 4(3) t have eqs: "byte b mod 16 * 4 + byte c div 64 = byte b' mod 16 * 4 + byte c' div 64"
    "byte c mod 64 = byte c' mod 64"
    by simp_all
  have "byte c div 64 < 4" "byte c' div 64 < 4"
    using byte_less_256 [of c] byte_less_256 [of c'] by linarith+
  with eqs(1) have "byte b mod 16 = byte b' mod 16 \<and> byte c div 64 = byte c' div 64"
    by (intro mult_add_inj)
  with b eqs(2) have "byte b = byte b'" "byte c = byte c'"
    using div_mod_inj [of "byte b" 16 "byte b'"] div_mod_inj [of "byte c" 64 "byte c'"] by simp_all
  moreover from 4 t have "r = r'" by auto
  ultimately show ?case using t \<open>a = a'\<close> by simp
qed simp

lemma validTokenHash_hash [simp]: "validTokenHash (hex_encode (sha256 token))"
  by (simp add: validTokenHash_def sha_size_def)

lemma TokenHash_Inr:
  "TokenHash token = Inr h \<longleftrightarrow> 32 \<le> length token \<and> length token \<le> 4096 \<and> h = hex_encode (sha256 token)"
  by (auto simp: TokenHash_def MinRawTokenBytes_def MaxRawTokenBytes_def)

lemma ActiveAt_None:
  "ActiveAt s now = None \<longleftrightarrow> now \<noteq> 0 \<and> ID s \<noteq> [] \<and> UserID s \<noteq> [] \<and> validTokenHash (sess_TokenHash s) \<and>
     ExpiresAt s \<noteq> 0 \<and> now < ExpiresAt s \<and> (RevokedAt s = 0 \<or> now < RevokedAt s)"
  by (auto simp: ActiveAt_def is_zero_def after_def)

section \<open>Properties\<close>

text \<open>
  C16. \<open>AuthenticateSession\<close> returns exactly the session the store holds for the SHA-256 hash of
  the presented token, and only if the token respects its bounds, the stored hash is that hash, the
  session has an identifier and a user, has not reached its expiry and is not revoked by \<open>now\<close>.
\<close>

theorem AuthenticateSession_iff:
  "AuthenticateSession store token now = Inr s \<longleftrightarrow>
     (\<exists>lookup. store = Some lookup \<and> lookup (hex_encode (sha256 token)) = Inr (Some s)) \<and>
     32 \<le> length token \<and> length token \<le> 4096 \<and> sess_TokenHash s = hex_encode (sha256 token) \<and>
     ID s \<noteq> [] \<and> UserID s \<noteq> [] \<and> now \<noteq> 0 \<and> ExpiresAt s \<noteq> 0 \<and> now < ExpiresAt s \<and>
     (RevokedAt s = 0 \<or> now < RevokedAt s)"
proof -
  note bounds = TokenHash_Inr [of token]
  show ?thesis
  proof (cases "TokenHash token")
    case (Inl err)
    then have "\<not> (32 \<le> length token \<and> length token \<le> 4096)" using bounds by auto
    with Inl show ?thesis by (auto simp: AuthenticateSession_def split: option.splits)
  next
    case (Inr h)
    with bounds have len: "32 \<le> length token" "length token \<le> 4096" and h: "h = hex_encode (sha256 token)"
      by auto
    show ?thesis
      using ActiveAt_None [of s now]
      by (auto simp: AuthenticateSession_def Inr h len is_zero_def split: option.splits sum.splits)
  qed
qed

text \<open>
  A session never comes back to life: if a session is refused at one time it is refused at
  every later time, whether it was expired, revoked or malformed. (The zero time is no time and
  always refused.)
\<close>

theorem ActiveAt_monotone:
  assumes "ActiveAt s now \<noteq> None" "now \<noteq> 0" "now \<le> later"
  shows "ActiveAt s later \<noteq> None"
proof
  assume "ActiveAt s later = None"
  with assms(2,3) have "ActiveAt s now = None" by (auto simp: ActiveAt_None)
  with assms(1) show False by simp
qed

definition demo_session :: session where
  "demo_session = \<lparr>ID = ''s1'', UserID = ''u1'', sess_TokenHash = hex_encode (replicate 32 NUL),
     CreatedAt = 10, ExpiresAt = 100, RevokedAt = 50\<rparr>"

theorem ActiveAt_monotone_witness:
  "ActiveAt demo_session 49 = None \<and> ActiveAt demo_session 50 = Some ErrSessionRevoked \<and>
   ActiveAt demo_session 70 \<noteq> None"
proof (intro conjI)
  have valid: "validTokenHash (hex_encode (replicate 32 NUL))" by (simp add: validTokenHash_def sha_size_def)
  then show "ActiveAt demo_session 49 = None" by (simp add: ActiveAt_None demo_session_def)
  from valid show revoked: "ActiveAt demo_session 50 = Some ErrSessionRevoked"
    by (simp add: ActiveAt_def demo_session_def is_zero_def after_def)
  from revoked show "ActiveAt demo_session 70 \<noteq> None"
    by - (rule ActiveAt_monotone [of demo_session 50], simp_all)
qed

text \<open>
  A login succeeds exactly for a stored user whose hash bcrypt accepts for the password, and
  whether or not the address is known, one bcrypt comparison of the supplied password is made:
  against the user's hash, or against the fixed dummy hash, whose result is ignored.
\<close>

theorem VerifyLogin_spec:
  "(fst (VerifyLogin compare lookup email password) = Inr u \<longleftrightarrow>
      lookup email = Inr (Some u) \<and> compare (PasswordHash u) password = None) \<and>
   (case lookup email of
      Inl err \<Rightarrow> VerifyLogin compare lookup email password = (Inl (FindUserErr err), [])
    | Inr found \<Rightarrow> snd (VerifyLogin compare lookup email password) =
        [(case found of None \<Rightarrow> dummyPasswordHash | Some u \<Rightarrow> PasswordHash u, password)])"
  by (auto simp: VerifyLogin_def CheckPassword_def split: sum.splits option.splits)

text \<open>
  Tokens: a new token of \<open>n\<close> bytes (at least 32, whatever is asked for) is URL-safe, has
  the unpadded base64 length, is never the token of other random bytes, and, up to 3072 bytes,
  satisfies the bounds under which \<open>TokenHash\<close> accepts it.
\<close>

theorem NewToken_spec:
  assumes "\<forall>n raw. rand n = Inr raw \<longrightarrow> length raw = n"
    and "NewToken rand bytes = Inr token"
  shows "list_all url_safe token \<and> length token = (4 * nat (max 32 bytes) + 2) div 3 \<and>
    43 \<le> length token \<and> (bytes \<le> 3072 \<longrightarrow> TokenHash token = Inr (hex_encode (sha256 token))) \<and>
    (\<forall>rand'. (\<forall>n raw. rand' n = Inr raw \<longrightarrow> length raw = n) \<longrightarrow> NewToken rand' bytes = Inr token \<longrightarrow>
       rand' (nat (max 32 bytes)) = rand (nat (max 32 bytes)))"
proof -
  have NewToken_Inr: "NewToken r bytes = Inr token \<longleftrightarrow>
      (\<exists>raw. r (nat (max 32 bytes)) = Inr raw \<and> token = b64_encode raw)" for r
    by (auto simp: NewToken_def Let_def max_def split: sum.splits)
  from assms(2) obtain raw where raw: "rand (nat (max 32 bytes)) = Inr raw" "token = b64_encode raw"
    by (auto simp: NewToken_Inr)
  with assms(1) have len: "length raw = nat (max 32 bytes)" by blast
  then have "32 \<le> length raw" by simp
  then have 43: "43 \<le> length token" using raw(2) by (simp add: length_b64_encode)
  have "TokenHash token = Inr (hex_encode (sha256 token))" if "bytes \<le> 3072"
  proof -
    have "length raw \<le> 3072" using that len by simp
    with 43 raw(2) show ?thesis by (simp add: TokenHash_Inr length_b64_encode)
  qed
  moreover have "rand' (nat (max 32 bytes)) = rand (nat (max 32 bytes))"
    if "\<forall>n raw. rand' n = Inr raw \<longrightarrow> length raw = n" "NewToken rand' bytes = Inr token" for rand'
  proof -
    from that(2) obtain raw' where raw': "rand' (nat (max 32 bytes)) = Inr raw'" "token = b64_encode raw'"
      by (auto simp: NewToken_Inr)
    with that(1) len have "length raw = length raw'" by simp
    with b64_encode_inj raw raw' show ?thesis by metis
  qed
  ultimately show ?thesis
    using raw len 43 by (simp add: length_b64_encode b64_encode_url_safe)
qed

theorem NewToken_spec_witness:
  "NewToken (\<lambda>n. Inr (replicate n NUL)) 7 = Inr (b64_encode (replicate 32 NUL)) \<and>
   length (b64_encode (replicate 32 NUL)) = 43 \<and>
   TokenHash (b64_encode (replicate 32 NUL)) = Inr (hex_encode (sha256 (b64_encode (replicate 32 NUL))))"
proof -
  have new: "NewToken (\<lambda>n. Inr (replicate n NUL)) 7 = Inr (b64_encode (replicate 32 NUL))"
    by (simp add: NewToken_def)
  have "\<forall>n raw. (Inr (replicate n NUL) :: string + string) = Inr raw \<longrightarrow> length raw = n" by auto
  from NewToken_spec [OF this new] new show ?thesis by simp
qed

end
