(* ===== verification/Jobs.thy ===== *)
theory Jobs
  imports Go_Prelude "HOL-Library.Multiset"
begin

text \<open>
  \<open>jobs/jobs.go\<close>: the pull-based runner. \<open>New\<close> and the entry checks of \<open>Run\<close> are
  functions; the worker goroutines are a step relation in which any worker may move next, the
  puller and the handler answer whatever they like, and the caller may cancel its context at any
  time. The runner's own context is told apart from the caller's: a cancellation of the caller's
  reaches it in a later step.
\<close>

section \<open>Data\<close>

text \<open>
  Errors the puller and the handler return. \<open>errors.Is\<close> looks through wrapped errors.
\<close>

datatype job_error = ErrNoJob | ErrNilContext | ErrInvalidRunner
  | WorkersRange | NegativeIdleDelay | JobTimeoutRange
  | Wrapf string job_error | Opaque string | FromCtx ctx_error

fun is_no_job :: "job_error \<Rightarrow> bool" where
  "is_no_job ErrNoJob = True"
| "is_no_job (Wrapf msg err) = is_no_job err"
| "is_no_job _ = False"

record job_config =
  Workers :: int
  IdleDelay :: duration
  JobTimeout :: duration

text \<open>An interface value: nil, a typed nil that \<open>nilInterface\<close> finds by reflection, or usable.\<close>

datatype iface = NilInterface | TypedNil | Usable

definition nilInterface :: "iface \<Rightarrow> bool" where
  "nilInterface v \<longleftrightarrow> (case v of NilInterface \<Rightarrow> True | TypedNil \<Rightarrow> True | Usable \<Rightarrow> False)"

record runner =
  puller :: iface
  handler :: iface
  workers :: int
  idleDelay :: duration
  jobTimeout :: duration

definition DefaultWorkers :: int where "DefaultWorkers = 1"
definition MaxWorkers :: int where "MaxWorkers = 1024"
definition DefaultIdleDelay :: duration where "DefaultIdleDelay = second"
definition DefaultJobTimeout :: duration where "DefaultJobTimeout = 5 * minute"
definition MaxJobTimeout :: duration where "MaxJobTimeout = 24 * hour"

lemmas job_constants = DefaultWorkers_def MaxWorkers_def DefaultIdleDelay_def
  DefaultJobTimeout_def MaxJobTimeout_def duration_units

section \<open>Construction\<close>

text \<open>\<open>New\<close> in the code.\<close>

definition New_Runner :: "iface \<Rightarrow> iface \<Rightarrow> job_config \<Rightarrow> job_error + runner" where
  "New_Runner pull hand config =
     (if nilInterface pull then Inl ErrInvalidRunner
      else if nilInterface hand then Inl ErrInvalidRunner
      else let n = (if Workers config = 0 then DefaultWorkers else Workers config) in
      if n < 1 \<or> n > MaxWorkers then Inl WorkersRange
      else let idle = (if IdleDelay config = 0 then DefaultIdleDelay else IdleDelay config) in
      if idle < 0 then Inl NegativeIdleDelay
      else let tmo = (if JobTimeout config = 0 then DefaultJobTimeout else JobTimeout config) in
      if tmo < millisecond \<or> tmo > MaxJobTimeout then Inl JobTimeoutRange
      else Inr \<lparr>puller = pull, handler = hand, workers = n, idleDelay = idle, jobTimeout = tmo\<rparr>)"

text \<open>The checks \<open>Run\<close> makes before it starts the workers; the context and the receiver may be nil.\<close>

definition run_check :: "'c option \<Rightarrow> runner option \<Rightarrow> job_error option" where
  "run_check ctx r =
     (case ctx of None \<Rightarrow> Some ErrNilContext
      | Some c \<Rightarrow> (case r of None \<Rightarrow> Some ErrInvalidRunner
        | Some r \<Rightarrow>
            if nilInterface (puller r) \<or> nilInterface (handler r) \<or> workers r < 1 \<or>
               workers r > MaxWorkers \<or> idleDelay r < 0 \<or> jobTimeout r < millisecond \<or>
               jobTimeout r > MaxJobTimeout
            then Some ErrInvalidRunner else None))"

section \<open>The workers\<close>

text \<open>
  Where a worker is: at the head of its loop, past the check of the run context and about to call
  \<open>Pull\<close>, in \<open>Pull\<close>, in \<open>wait\<close>, in \<open>Handle\<close> with a job, past the cancellation check with an error
  for \<open>fail\<close>, or returned.
\<close>

datatype 'j pc = LoopHead | PullReady | Pulling | Waiting | Handling 'j | Failing job_error | Returned

text \<open>
  The state of a run: the workers, the error of the caller's context and of \<open>runCtx\<close>,
  \<open>runErr\<close>, and, for the statements only, the jobs pulled, completed and failed so far and the
  number of calls to \<open>Pull\<close>.
\<close>

record 'j run =
  pcs :: "'j pc list"
  ctxErr :: "ctx_error option"
  runCtxErr :: "ctx_error option"
  runErr :: "job_error option"
  pulled :: "'j multiset"
  completed :: "'j multiset"
  failed :: "'j multiset"
  pulls :: nat

abbreviation goto :: "nat \<Rightarrow> 'j pc \<Rightarrow> 'j run \<Rightarrow> 'j run" where
  "goto i p s \<equiv> s\<lparr>pcs := (pcs s)[i := p]\<rparr>"

abbreviation at_pc :: "'j run \<Rightarrow> nat \<Rightarrow> 'j pc \<Rightarrow> bool" where
  "at_pc s i p \<equiv> i < length (pcs s) \<and> pcs s ! i = p"

definition init_run :: "runner \<Rightarrow> 'j run" where
  "init_run r = \<lparr>pcs = replicate (nat (workers r)) LoopHead, ctxErr = None, runCtxErr = None,
     runErr = None, pulled = {#}, completed = {#}, failed = {#}, pulls = 0\<rparr>"

text \<open>
  \<open>failed.Do\<close>: only the first error is kept, and it cancels \<open>runCtx\<close>. Both are one step: nobody
  reads \<open>runErr\<close> before all workers have returned, and another \<open>failed.Do\<close> waits for the first.
\<close>

definition do_fail :: "job_error \<Rightarrow> 'j run \<Rightarrow> 'j run" where
  "do_fail err s = (if runErr s = None
     then s\<lparr>runErr := Some err,
            runCtxErr := (case runCtxErr s of None \<Rightarrow> Some Canceled | Some e \<Rightarrow> Some e)\<rparr>
     else s)"

text \<open>
  The steps of worker \<open>i\<close>, in the order of the loop body. The check of \<open>runCtx\<close> and the start of \<open>Pull\<close>
  are two steps, between which the run may end. After \<open>Pull\<close> or \<open>Handle\<close> has returned nothing happens
  before the next check, so the step is that of the check.
\<close>

inductive worker_step :: "'j run \<Rightarrow> nat \<Rightarrow> 'j run \<Rightarrow> bool" where
  stop: "at_pc s i LoopHead \<Longrightarrow> runCtxErr s \<noteq> None \<Longrightarrow> worker_step s i (goto i Returned s)"
| check: "at_pc s i LoopHead \<Longrightarrow> runCtxErr s = None \<Longrightarrow> worker_step s i (goto i PullReady s)"
| pull: "at_pc s i PullReady \<Longrightarrow>
    worker_step s i (goto i Pulling (s\<lparr>pulls := pulls s + 1\<rparr>))"
| no_job: "at_pc s i Pulling \<Longrightarrow> is_no_job err \<Longrightarrow> worker_step s i (goto i Waiting s)"
| wait_timer: "at_pc s i Waiting \<Longrightarrow> worker_step s i (goto i LoopHead s)"
| wait_done: "at_pc s i Waiting \<Longrightarrow> runCtxErr s \<noteq> None \<Longrightarrow> worker_step s i (goto i Returned s)"
| pull_stopped: "at_pc s i Pulling \<Longrightarrow> \<not> is_no_job err \<Longrightarrow> runCtxErr s \<noteq> None \<Longrightarrow>
    worker_step s i (goto i Returned s)"
| pull_failed: "at_pc s i Pulling \<Longrightarrow> \<not> is_no_job err \<Longrightarrow> runCtxErr s = None \<Longrightarrow>
    worker_step s i (goto i (Failing (Wrapf ''pull job'' err)) s)"
| got_job: "at_pc s i Pulling \<Longrightarrow>
    worker_step s i (goto i (Handling j) (s\<lparr>pulled := add_mset j (pulled s)\<rparr>))"
| handled: "at_pc s i (Handling j) \<Longrightarrow>
    worker_step s i (goto i LoopHead (s\<lparr>completed := add_mset j (completed s)\<rparr>))"
| handle_stopped: "at_pc s i (Handling j) \<Longrightarrow> runCtxErr s \<noteq> None \<Longrightarrow>
    worker_step s i (goto i Returned (s\<lparr>failed := add_mset j (failed s)\<rparr>))"
| handle_failed: "at_pc s i (Handling j) \<Longrightarrow> runCtxErr s = None \<Longrightarrow>
    worker_step s i (goto i (Failing (Wrapf ''handle job'' err)) (s\<lparr>failed := add_mset j (failed s)\<rparr>))"
| fail: "at_pc s i (Failing err) \<Longrightarrow> worker_step s i (goto i Returned (do_fail err s))"

text \<open>The environment: the caller's context ends, and the end reaches \<open>runCtx\<close>.\<close>

inductive env_step :: "'j run \<Rightarrow> 'j run \<Rightarrow> bool" where
  cancel: "ctxErr s = None \<Longrightarrow> env_step s (s\<lparr>ctxErr := Some e\<rparr>)"
| propagate: "ctxErr s = Some e \<Longrightarrow> runCtxErr s = None \<Longrightarrow> env_step s (s\<lparr>runCtxErr := Some e\<rparr>)"

inductive reachable :: "runner \<Rightarrow> 'j run \<Rightarrow> bool" for r where
  start: "reachable r (init_run r)"
| worker: "reachable r s \<Longrightarrow> worker_step s i t \<Longrightarrow> reachable r t"
| env: "reachable r s \<Longrightarrow> env_step s t \<Longrightarrow> reachable r t"

text \<open>\<open>workers.Wait()\<close> is over when every worker has returned; then \<open>Run\<close> returns this.\<close>

definition all_returned :: "'j run \<Rightarrow> bool" where
  "all_returned s \<longleftrightarrow> list_all (\<lambda>p. p = Returned) (pcs s)"

definition run_result :: "'j run \<Rightarrow> job_error option" where
  "run_result s = (case runErr s of Some err \<Rightarrow> Some err | None \<Rightarrow> map_option FromCtx (ctxErr s))"

inductive_cases worker_stepE: "worker_step s i t"
inductive_cases env_stepE: "env_step s t"
inductive_simps env_step_iff: "env_step s t"

section \<open>Configuration\<close>

definition runner_ok :: "runner \<Rightarrow> bool" where
  "runner_ok r \<longleftrightarrow> puller r = Usable \<and> handler r = Usable \<and> 1 \<le> workers r \<and> workers r \<le> 1024 \<and>
     0 \<le> idleDelay r \<and> millisecond \<le> jobTimeout r \<and> jobTimeout r \<le> 24 * hour"

lemma run_check_None: "run_check ctx r = None \<longleftrightarrow> (\<exists>c x. ctx = Some c \<and> r = Some x \<and> runner_ok x)"
  by (auto simp: run_check_def runner_ok_def nilInterface_def job_constants
      split: option.splits iface.splits if_splits)

lemma New_Runner_ok: "New_Runner p h c = Inr r \<Longrightarrow> runner_ok r \<and> 1 \<le> idleDelay r"
  by (auto simp: New_Runner_def runner_ok_def nilInterface_def job_constants Let_def
      split: if_splits iface.splits)

section \<open>Invariants\<close>

text \<open>The job a worker holds.\<close>

fun held :: "'j pc \<Rightarrow> 'j multiset" where
  "held (Handling j) = {#j#}"
| "held _ = {#}"

definition in_flight :: "'j run \<Rightarrow> 'j multiset" where
  "in_flight s = sum_list (map held (pcs s))"

lemma sum_list_update:
  fixes f :: "'a \<Rightarrow> 'b::comm_monoid_add"
  assumes "i < length xs"
  shows "sum_list (map f (xs[i := x])) + f (xs ! i) = sum_list (map f xs) + f x"
  using assms
proof (induction xs arbitrary: i)
  case (Cons y ys)
  then show ?case by (cases i) (auto simp: ac_simps)
qed simp

lemma in_flight_goto:
  "i < length (pcs s) \<Longrightarrow> in_flight (goto i p s) + held (pcs s ! i) = in_flight s + held p"
  by (simp add: in_flight_def sum_list_update)

lemma do_fail_simps [simp]:
  "pcs (do_fail err s) = pcs s" "ctxErr (do_fail err s) = ctxErr s" "pulled (do_fail err s) = pulled s"
  "completed (do_fail err s) = completed s" "failed (do_fail err s) = failed s" "pulls (do_fail err s) = pulls s"
  by (simp_all add: do_fail_def)

lemma do_fail_ended [simp]: "runCtxErr s \<noteq> None \<Longrightarrow> runCtxErr (do_fail err s) = runCtxErr s"
  by (auto simp: do_fail_def)

lemma do_fail_runErr: "runErr (do_fail err s) = Some (case runErr s of None \<Rightarrow> err | Some e \<Rightarrow> e)"
  by (auto simp: do_fail_def)

text \<open>
  Every job pulled is completed, failed, or held by one worker: none is lost, queued or doubled.
\<close>

definition conserved :: "'j run \<Rightarrow> bool" where
  "conserved s \<longleftrightarrow> pulled s = completed s + failed s + in_flight s"

text \<open>
  \<open>runCtx\<close> ends only because the caller's context did or because an error was recorded, a
  recorded error has ended it, and a worker returns only after its end.
\<close>

definition ends_for_a_reason :: "'j run \<Rightarrow> bool" where
  "ends_for_a_reason s \<longleftrightarrow>
     (runCtxErr s \<noteq> None \<longrightarrow> ctxErr s \<noteq> None \<or> runErr s \<noteq> None) \<and>
     (runErr s \<noteq> None \<longrightarrow> runCtxErr s \<noteq> None) \<and>
     (Returned \<in> set (pcs s) \<longrightarrow> runCtxErr s \<noteq> None)"

lemma in_goto: "q \<in> set (ps[i := p]) \<Longrightarrow> q = p \<or> q \<in> set ps"
  using set_update_subset_insert [of ps i p] by auto

lemma worker_step_length: "worker_step s i t \<Longrightarrow> length (pcs t) = length (pcs s)"
  by (induction rule: worker_step.induct) auto

lemma conserved_worker:
  assumes "worker_step s i t" "conserved s"
  shows "conserved t"
proof -
  have flight: "in_flight (goto i p s') + held (pcs s ! i) = in_flight s + held p"
    if "pcs s' = pcs s" "i < length (pcs s)" for p s'
    using in_flight_goto [of i s' p] that by (simp add: in_flight_def)
  from assms show ?thesis
  proof (cases rule: worker_step.cases)
    case (handled j)
    then have "in_flight s = in_flight t + {#j#}"
      using flight [of "s\<lparr>completed := add_mset j (completed s)\<rparr>" LoopHead] by simp
    with handled assms(2) show ?thesis by (simp add: conserved_def)
  next
    case (handle_stopped j)
    then have "in_flight s = in_flight t + {#j#}"
      using flight [of "s\<lparr>failed := add_mset j (failed s)\<rparr>" Returned] by simp
    with handle_stopped assms(2) show ?thesis by (simp add: conserved_def)
  next
    case (handle_failed j err)
    then have "in_flight s = in_flight t + {#j#}"
      using flight [of "s\<lparr>failed := add_mset j (failed s)\<rparr>" "Failing (Wrapf ''handle job'' err)"] by simp
    with handle_failed assms(2) show ?thesis by (simp add: conserved_def)
  next
    case (got_job j)
    then have "in_flight t = in_flight s + {#j#}"
      using flight [of "s\<lparr>pulled := add_mset j (pulled s)\<rparr>" "Handling j"] by simp
    with got_job assms(2) show ?thesis by (simp add: conserved_def)
  qed (use flight in \<open>auto simp: conserved_def\<close>)
qed


lemma conserved_env: "env_step s t \<Longrightarrow> conserved s \<Longrightarrow> conserved t"
  by (erule env_stepE) (auto simp: conserved_def in_flight_def)

lemma ends_worker:
  assumes "worker_step s i t" "ends_for_a_reason s"
  shows "ends_for_a_reason t"
  using assms
  by (cases rule: worker_step.cases)
    (auto simp: ends_for_a_reason_def do_fail_def dest!: in_goto split: option.splits if_splits)

lemma ends_env: "env_step s t \<Longrightarrow> ends_for_a_reason s \<Longrightarrow> ends_for_a_reason t"
  by (erule env_stepE) (auto simp: ends_for_a_reason_def)

lemma reachable_inv:
  "reachable r s \<Longrightarrow> conserved s \<and> ends_for_a_reason s \<and> length (pcs s) = nat (workers r)"
proof (induction rule: reachable.induct)
  case start
  have "sum_list (replicate n {#}) = ({#} :: 'a multiset)" for n
    by (induction n) auto
  then have "in_flight (init_run r :: 'a run) = {#}"
    by (simp add: in_flight_def init_run_def map_replicate_const)
  then show ?case by (auto simp: conserved_def ends_for_a_reason_def init_run_def)
next
  case (worker s i t)
  then show ?case
    using conserved_worker ends_worker worker_step_length by metis
next
  case (env s t)
  moreover from env(2) have "pcs t = pcs s" by (auto elim: env_stepE)
  ultimately show ?case using conserved_env ends_env by metis
qed

lemma size_held_list: "size (sum_list (map held ps)) \<le> length ps"
proof (induction ps)
  case (Cons p ps)
  have "size (held p) \<le> 1" by (cases p) auto
  with Cons show ?case by simp
qed simp

section \<open>Executions\<close>

text \<open>\<open>n\<close> worker steps, with any number of environment steps in between.\<close>

inductive steps :: "'j run \<Rightarrow> nat \<Rightarrow> 'j run \<Rightarrow> bool" where
  here: "steps s 0 s"
| by_worker: "steps s n t \<Longrightarrow> worker_step t i u \<Longrightarrow> steps s (Suc n) u"
| by_env: "steps s n t \<Longrightarrow> env_step t u \<Longrightarrow> steps s n u"

lemma steps_reachable: "steps s n t \<Longrightarrow> reachable r s \<Longrightarrow> reachable r t"
  by (induction rule: steps.induct) (auto intro: reachable.worker reachable.env)

text \<open>What a worker can still do once \<open>runCtx\<close> has ended.\<close>

fun work_left :: "'j pc \<Rightarrow> nat" where
  "work_left Returned = 0"
| "work_left LoopHead = 1"
| "work_left (Failing err) = 1"
| "work_left Waiting = 2"
| "work_left (Handling j) = 2"
| "work_left Pulling = 3"
| "work_left PullReady = 4"

definition total_work :: "'j run \<Rightarrow> nat" where
  "total_work s = sum_list (map work_left (pcs s))"

text \<open>The workers that have passed the check and not yet called \<open>Pull\<close>.\<close>

definition about_to_pull :: "'j run \<Rightarrow> nat" where
  "about_to_pull s = length (filter (\<lambda>p. p = PullReady) (pcs s))"

lemma about_to_pull_sum: "about_to_pull s = sum_list (map (\<lambda>p. if p = PullReady then 1 else 0) (pcs s))"
proof -
  have "length (filter (\<lambda>p. p = PullReady) ps) = sum_list (map (\<lambda>p. if p = PullReady then 1 else 0) ps)"
    for ps :: "'a pc list" by (induction ps) auto
  then show ?thesis by (simp add: about_to_pull_def)
qed

lemma total_work_bound: "total_work s \<le> 4 * length (pcs s)"
proof -
  have "sum_list (map work_left ps) \<le> 4 * length ps" for ps :: "'a pc list"
  proof (induction ps)
    case (Cons p ps)
    have "work_left p \<le> 4" by (cases p) auto
    with Cons show ?case by simp
  qed simp
  then show ?thesis by (simp add: total_work_def)
qed

text \<open>
  After its end every step of a worker leaves less to do and keeps the outcome, and the only pulls
  that start are those of workers already past the check, one each.
\<close>

definition ended_step :: "'j run \<Rightarrow> 'j run \<Rightarrow> bool" where
  "ended_step s t \<longleftrightarrow> pulls t + about_to_pull t \<le> pulls s + about_to_pull s \<and>
     runCtxErr t = runCtxErr s \<and> length (pcs t) = length (pcs s)"

lemma worker_step_ended:
  assumes "worker_step s i t" "runCtxErr s \<noteq> None"
  shows "total_work t < total_work s \<and> ended_step s t"
proof -
  obtain p where p: "pcs t = (pcs s)[i := p]" "i < length (pcs s)" "work_left p < work_left (pcs s ! i)"
    and pulls: "pulls t + (if p = PullReady then 1 else 0) = pulls s + (if pcs s ! i = PullReady then 1 else 0)"
    and same: "runCtxErr t = runCtxErr s"
    using assms by (cases rule: worker_step.cases) auto
  from p have "total_work t < total_work s"
    using sum_list_update [OF p(2), of work_left p] by (simp add: total_work_def)
  moreover have "pulls t + about_to_pull t \<le> pulls s + about_to_pull s"
    using sum_list_update [OF p(2), of "\<lambda>p. if p = PullReady then 1 else 0 :: nat" p] pulls p(1)
    by (simp add: about_to_pull_sum)
  ultimately show ?thesis using p(1) same by (simp add: ended_step_def)
qed

lemma env_step_ended: "env_step s t \<Longrightarrow> runCtxErr s \<noteq> None \<Longrightarrow> total_work t = total_work s \<and> ended_step s t"
  by (auto simp: env_step_iff total_work_def ended_step_def about_to_pull_def)

lemma steps_ended:
  "steps s n t \<Longrightarrow> runCtxErr s \<noteq> None \<Longrightarrow> total_work t + n \<le> total_work s \<and> ended_step s t"
proof (induction rule: steps.induct)
  case (by_worker s n t i u)
  then show ?case using worker_step_ended [of t i u] by (auto simp: ended_step_def)
next
  case (by_env s n t u)
  then show ?case using env_step_ended [of t u] by (auto simp: ended_step_def)
qed (simp add: ended_step_def)

text \<open>A worker that has not returned can always move, whatever the others do.\<close>

lemma worker_progress:
  assumes "i < length (pcs s)" "pcs s ! i \<noteq> Returned"
  shows "\<exists>t. worker_step s i t"
proof (cases "pcs s ! i")
  case LoopHead
  with assms show ?thesis by (cases "runCtxErr s = None") (blast intro: worker_step.intros)+
qed (use assms in \<open>auto intro: worker_step.intros\<close>)

lemma not_all_returned: "\<not> all_returned s \<longleftrightarrow> (\<exists>i < length (pcs s). pcs s ! i \<noteq> Returned)"
  by (simp add: all_returned_def list_all_length)

lemma steps_trans_worker: "worker_step s i t \<Longrightarrow> steps t n u \<Longrightarrow> steps s (Suc n) u"
proof (rotate_tac 1, induction rule: steps.induct)
  case (here s')
  then show ?case using steps.by_worker [OF steps.here] by blast
qed (auto intro: steps.by_worker steps.by_env)

lemma ended_run_returns:
  "runCtxErr s \<noteq> None \<Longrightarrow> \<exists>n t. steps s n t \<and> all_returned t"
proof (induction s rule: measure_induct_rule [of total_work])
  case (less s)
  show ?case
  proof (cases "all_returned s")
    case True
    then show ?thesis using steps.here by blast
  next
    case False
    then obtain i t where t: "worker_step s i t"
      using not_all_returned worker_progress by blast
    then have "total_work t < total_work s" "runCtxErr t \<noteq> None"
      using worker_step_ended [of s i t] less.prems by (auto simp: ended_step_def)
    with less.IH obtain n u where "steps t n u" "all_returned u"
      by blast
    with t show ?thesis using steps_trans_worker by blast
  qed
qed

text \<open>What \<open>runErr\<close> may hold, and that its first value stays.\<close>

definition run_error :: "job_error \<Rightarrow> bool" where
  "run_error err \<longleftrightarrow> (\<exists>e. err = Wrapf ''pull job'' e \<and> \<not> is_no_job e \<or> err = Wrapf ''handle job'' e)"

definition errors_ok :: "'j run \<Rightarrow> bool" where
  "errors_ok s \<longleftrightarrow> (\<forall>err. runErr s = Some err \<or> Failing err \<in> set (pcs s) \<longrightarrow> run_error err)"

lemma errors_worker: "worker_step s i t \<Longrightarrow> errors_ok s \<Longrightarrow> errors_ok t"
proof (induction rule: worker_step.induct)
  case (fail s i err)
  then have "Failing err \<in> set (pcs s)" by (metis nth_mem)
  with fail show ?case
    by (auto simp: errors_ok_def do_fail_runErr dest!: in_goto split: option.splits)
qed (auto simp: errors_ok_def run_error_def dest!: in_goto)

lemma errors_reachable: "reachable r s \<Longrightarrow> errors_ok s"
proof (induction rule: reachable.induct)
  case (env s t)
  then show ?case by (auto simp: env_step_iff errors_ok_def)
qed (auto simp: errors_worker, simp add: errors_ok_def init_run_def)

lemma first_error_stays:
  "steps s n t \<Longrightarrow> runErr s = Some err \<Longrightarrow> runErr t = Some err"
proof (induction rule: steps.induct)
  case (by_worker s n t i u)
  from by_worker(2) by_worker(3)[OF by_worker(4)] show ?case
    by (cases rule: worker_step.cases) (auto simp: do_fail_runErr)
next
  case (by_env s n t u)
  then show ?case by (auto simp: env_step_iff)
qed simp


section \<open>Properties\<close>

text \<open>Runs the witnesses use: one worker, a job in hand, and a puller that fails.\<close>

definition demo_runner :: runner where
  "demo_runner = \<lparr>puller = Usable, handler = Usable, workers = 1, idleDelay = second, jobTimeout = minute\<rparr>"

definition demo_working :: "nat run" where
  "demo_working = \<lparr>pcs = [Handling 7], ctxErr = None, runCtxErr = None, runErr = None,
     pulled = {#7#}, completed = {#}, failed = {#}, pulls = 1\<rparr>"

definition demo_failed :: "nat run" where
  "demo_failed = \<lparr>pcs = [Returned], ctxErr = None, runCtxErr = Some Canceled,
     runErr = Some (Wrapf ''pull job'' (Opaque ''db'')), pulled = {#}, completed = {#}, failed = {#}, pulls = 1\<rparr>"

definition demo_stopping :: "nat run" where
  "demo_stopping = \<lparr>pcs = [Handling 7], ctxErr = Some Canceled, runCtxErr = Some Canceled, runErr = None,
     pulled = {#7#}, completed = {#}, failed = {#}, pulls = 1\<rparr>"

lemma demo_pulling:
  "reachable demo_runner (\<lparr>pcs = [Pulling], ctxErr = None, runCtxErr = None, runErr = None,
     pulled = {#}, completed = {#}, failed = {#}, pulls = 1\<rparr> :: nat run)" (is "reachable _ ?s")
proof -
  let ?r = "goto 0 PullReady (init_run demo_runner) :: nat run"
  have "worker_step (init_run demo_runner) 0 ?r" "worker_step ?r 0 ?s"
    using worker_step.check [of 0 "init_run demo_runner"] worker_step.pull [of 0 ?r]
    by (simp_all add: init_run_def demo_runner_def)
  then show ?thesis by (blast intro: reachable.intros)
qed

lemma demo_working_reachable: "reachable demo_runner demo_working"
proof (rule reachable.worker [OF demo_pulling])
  let ?s = "\<lparr>pcs = [Pulling], ctxErr = None, runCtxErr = None, runErr = None,
     pulled = {#}, completed = {#}, failed = {#}, pulls = 1\<rparr> :: nat run"
  show "worker_step ?s 0 demo_working"
    using worker_step.got_job [of 0 ?s 7] by (simp add: demo_working_def)
qed

lemma demo_failed_reachable: "reachable demo_runner demo_failed"
proof (rule reachable.worker [OF reachable.worker [OF demo_pulling]])
  let ?e = "Wrapf ''pull job'' (Opaque ''db'')"
  let ?s = "\<lparr>pcs = [Pulling], ctxErr = None, runCtxErr = None, runErr = None,
     pulled = {#}, completed = {#}, failed = {#}, pulls = 1\<rparr> :: nat run"
  show "worker_step ?s 0 (goto 0 (Failing ?e) ?s)"
    using worker_step.pull_failed [of 0 ?s "Opaque ''db''"] by simp
  show "worker_step (goto 0 (Failing ?e) ?s) 0 demo_failed"
    using worker_step.fail [of 0 "goto 0 (Failing ?e) ?s" ?e] by (simp add: demo_failed_def do_fail_def)
qed

lemma demo_stopping_reachable: "reachable demo_runner demo_stopping"
proof (rule reachable.env [OF reachable.env [OF demo_working_reachable]])
  let ?s = "demo_working\<lparr>ctxErr := Some Canceled\<rparr>"
  show "env_step demo_working ?s" by (simp add: env_step_iff demo_working_def)
  show "env_step ?s demo_stopping" by (simp add: env_step_iff demo_working_def demo_stopping_def)
qed

text \<open>
  C2. At every moment of every run each job that was pulled is completed, failed, or in the hands
  of exactly one worker; at most the configured number of jobs is in hand, and no worker is lost.
\<close>

theorem Run_conserves_jobs:
  assumes "reachable r s"
  shows "pulled s = completed s + failed s + in_flight s \<and> size (in_flight s) \<le> nat (workers r) \<and>
    length (pcs s) = nat (workers r)"
  using reachable_inv [OF assms] size_held_list [of "pcs s"] by (simp add: conserved_def in_flight_def)

theorem Run_conserves_jobs_witness:
  "pulled demo_working = completed demo_working + failed demo_working + {#7#} \<and>
   size (in_flight demo_working) \<le> 1 \<and> length (pcs demo_working) = 1"
  using Run_conserves_jobs [OF demo_working_reachable]
  by (simp add: demo_working_def demo_runner_def in_flight_def)

text \<open>
  C32. \<open>Run\<close> of a runner that passes its checks never returns nil: when all workers have returned
  it gives the recorded error, a wrapped pull error other than \<open>ErrNoJob\<close> or a wrapped handler
  error, and otherwise the error of the caller's ended context.
\<close>

theorem Run_never_returns_nil:
  assumes "reachable r s" "runner_ok r" "all_returned s"
  shows "(\<exists>e. \<not> is_no_job e \<and> run_result s = Some (Wrapf ''pull job'' e)) \<or>
    (\<exists>e. run_result s = Some (Wrapf ''handle job'' e)) \<or>
    (\<exists>e. runErr s = None \<and> ctxErr s = Some e \<and> run_result s = Some (FromCtx e))"
proof -
  have "pcs s \<noteq> []" using reachable_inv [OF assms(1)] assms(2) by (auto simp: runner_ok_def)
  with assms(3) have "Returned \<in> set (pcs s)"
    by (cases "pcs s") (auto simp: all_returned_def)
  then have "ctxErr s \<noteq> None \<or> runErr s \<noteq> None"
    using reachable_inv [OF assms(1)] by (auto simp: ends_for_a_reason_def)
  then show ?thesis
    using errors_reachable [OF assms(1)]
    by (cases "runErr s") (auto simp: run_result_def errors_ok_def run_error_def)
qed

theorem Run_never_returns_nil_witness:
  "run_result demo_failed \<noteq> None \<and> run_result demo_failed = Some (Wrapf ''pull job'' (Opaque ''db''))"
  using Run_never_returns_nil [OF demo_failed_reachable]
  by (auto simp: runner_ok_def demo_runner_def duration_units all_returned_def demo_failed_def run_result_def)

text \<open>
  C13. Once the run context has ended, by the caller or by an error, the workers stop: whatever the
  interleaving, they take together at most four times as many steps as there are workers; at most as
  many calls of \<open>Pull\<close> still start as there are workers that had passed the check of the context
  when it ended; every worker that has not returned can always move, so none waits for another,
  provided that the calls of the puller and the handler return; and an execution in which all return
  exists.
\<close>

theorem Run_stops:
  assumes "reachable r s" "runCtxErr s \<noteq> None"
  shows "(\<forall>n t. steps s n t \<longrightarrow> n \<le> 4 * nat (workers r) \<and> pulls t \<le> pulls s + about_to_pull s \<and>
      (\<forall>i < length (pcs t). pcs t ! i = Returned \<or> (\<exists>u. worker_step t i u))) \<and>
    (\<exists>n t. steps s n t \<and> all_returned t)"
proof -
  have "total_work s \<le> 4 * nat (workers r)"
    using total_work_bound [of s] reachable_inv [OF assms(1)] by simp
  then have "n \<le> 4 * nat (workers r) \<and> pulls t \<le> pulls s + about_to_pull s" if "steps s n t" for n t
    using steps_ended [OF that assms(2)] by (simp add: ended_step_def)
  then show ?thesis using worker_progress ended_run_returns [OF assms(2)] by blast
qed

theorem Run_stops_witness:
  "\<exists>n t. steps demo_stopping n t \<and> all_returned t \<and> n \<le> 4 \<and> pulls t \<le> 1"
proof -
  have stops: "(\<forall>n t. steps demo_stopping n t \<longrightarrow> n \<le> 4 \<and> pulls t \<le> 1) \<and> (\<exists>n t. steps demo_stopping n t \<and> all_returned t)"
    using Run_stops [OF demo_stopping_reachable]
    by (simp add: demo_stopping_def demo_runner_def about_to_pull_def)
  then show ?thesis by blast
qed

text \<open>
  The first error decides: once \<open>runErr\<close> is set no later step of any worker or of the caller
  changes it, so \<open>Run\<close> returns it.
\<close>

theorem Run_keeps_first_error:
  assumes "runErr s = Some err" "steps s n t"
  shows "runErr t = Some err \<and> run_result t = Some err"
  using first_error_stays [OF assms(2,1)] by (simp add: run_result_def)

theorem Run_keeps_first_error_witness:
  "run_result demo_failed = Some (Wrapf ''pull job'' (Opaque ''db''))"
  using Run_keeps_first_error [OF _ steps.here, of demo_failed] by (simp add: demo_failed_def)

definition config_ok :: "job_config \<Rightarrow> bool" where
  "config_ok c \<longleftrightarrow> 0 \<le> Workers c \<and> Workers c \<le> 1024 \<and> 0 \<le> IdleDelay c \<and>
     (JobTimeout c = 0 \<or> millisecond \<le> JobTimeout c \<and> JobTimeout c \<le> 24 * hour)"

definition default_runner :: "job_config \<Rightarrow> runner" where
  "default_runner c = \<lparr>puller = Usable, handler = Usable,
     workers = (if Workers c = 0 then 1 else Workers c),
     idleDelay = (if IdleDelay c = 0 then second else IdleDelay c),
     jobTimeout = (if JobTimeout c = 0 then 5 * minute else JobTimeout c)\<rparr>"

lemma New_Runner_usable:
  "New_Runner Usable Usable c = Inr r \<longleftrightarrow> config_ok c \<and> r = default_runner c"
proof
  assume l: "New_Runner Usable Usable c = Inr r"
  then show "config_ok c \<and> r = default_runner c"
    unfolding New_Runner_def nilInterface_def config_ok_def default_runner_def
    by (simp add: job_constants Let_def split: if_splits; linarith)
next
  assume "config_ok c \<and> r = default_runner c"
  then show "New_Runner Usable Usable c = Inr r"
    by (auto simp: New_Runner_def nilInterface_def config_ok_def default_runner_def job_constants Let_def)
qed

lemma New_Runner_nil: "New_Runner p h c = Inr r \<Longrightarrow> p = Usable \<and> h = Usable"
  by (auto simp: New_Runner_def nilInterface_def split: if_splits iface.splits)

text \<open>
  \<open>New\<close> gives a runner exactly for a usable puller and handler and a configuration in range,
  zero fields standing for the defaults; and the checks \<open>Run\<close> makes pass for what \<open>New\<close> gave.
\<close>

theorem New_Runner_iff:
  "(New_Runner p h c = Inr r) = (p = Usable \<and> h = Usable \<and> config_ok c \<and> r = default_runner c \<and>
     run_check (Some ctx) (Some r) = None)"
  using New_Runner_usable New_Runner_nil New_Runner_ok run_check_None by blast

end
