(* ===== verification/Realtime.thy ===== *)
theory Realtime
  imports Validators "HOL-Library.AList" "HOL-Library.Sublist" "HOL-Library.Multiset"
begin

text \<open>
  \<open>realtime/sse.go\<close>: the event hub. A channel of capacity one is a slot and a closed flag, with
  the panics of Go's channels as errors; the locked sections of \<open>publish\<close> and of \<open>serveTopic\<close>
  are functions on the hub and the channels; the connections' goroutines are a step relation in
  which the publishers, the runtime's map order, the peers and the clock are free. The output of
  \<open>writeEvent\<close> is read back by a decoder of the event-stream format.
\<close>

section \<open>Data\<close>

record event =
  ID :: string
  Name :: string
  Data :: string

text \<open>\<open>clients\<close> is the map from topics to sets of channels; a channel is its number.\<close>

record hub =
  clients :: "(string \<times> nat list) list"
  maxClients :: int
  maxStreamAge :: duration

record chan =
  slot :: "event option"
  closed :: bool

datatype chan_panic = SendOnClosed | CloseOfClosed

definition defaultMaxClients :: int where "defaultMaxClients = 1000"
definition defaultMaxStreamAge :: duration where "defaultMaxStreamAge = 15 * minute"
definition maxTopicBytes :: nat where "maxTopicBytes = 128"

section \<open>Construction\<close>

definition WithMaxClients :: "int \<Rightarrow> hub \<Rightarrow> hub" where
  "WithMaxClients limit h = (if limit > 0 then h\<lparr>maxClients := limit\<rparr> else h)"

definition WithMaxStreamAge :: "duration \<Rightarrow> hub \<Rightarrow> hub" where
  "WithMaxStreamAge age h = (if age > 0 then h\<lparr>maxStreamAge := age\<rparr> else h)"

text \<open>Outside the package the only options are the two above.\<close>

datatype hub_option = Max_Clients int | Max_Stream_Age duration

primrec apply_option :: "hub_option \<Rightarrow> hub \<Rightarrow> hub" where
  "apply_option (Max_Clients limit) h = WithMaxClients limit h"
| "apply_option (Max_Stream_Age age) h = WithMaxStreamAge age h"

definition NewHub :: "hub_option list \<Rightarrow> hub" where
  "NewHub options = fold apply_option options
     \<lparr>clients = [], maxClients = defaultMaxClients, maxStreamAge = defaultMaxStreamAge\<rparr>"

definition validTopic :: "string \<Rightarrow> bool" where
  "validTopic topic =
     (if length topic = 0 \<or> length topic > maxTopicBytes then False
      else list_all (\<lambda>c. \<not> (not_alnum c \<and> c \<noteq> CHR ''-'' \<and> c \<noteq> CHR ''_'' \<and>
             c \<noteq> CHR ''.'' \<and> c \<noteq> CHR '':'')) (lead_bytes topic))"

interpretation topic_name: byte_validator validTopic 128
  "\<lambda>c. \<not> (not_alnum c \<and> c \<noteq> CHR ''-'' \<and> c \<noteq> CHR ''_'' \<and> c \<noteq> CHR ''.'' \<and> c \<noteq> CHR '':'')"
  by unfold_locales (auto simp: validTopic_def maxTopicBytes_def char_class_graphic)

section \<open>Channels\<close>

definition make_chan :: chan where "make_chan = \<lparr>slot = None, closed = False\<rparr>"

text \<open>A send in a \<open>select\<close> with a default: \<open>Inr None\<close> is the default branch.\<close>

definition try_send :: "nat \<Rightarrow> event \<Rightarrow> chan list \<Rightarrow> chan_panic + chan list option" where
  "try_send c ev cs =
     (if closed (cs ! c) then Inl SendOnClosed
      else case slot (cs ! c) of
        None \<Rightarrow> Inr (Some (cs[c := (cs ! c)\<lparr>slot := Some ev\<rparr>]))
      | Some x \<Rightarrow> Inr None)"

definition close_chan :: "nat \<Rightarrow> chan list \<Rightarrow> chan_panic + chan list" where
  "close_chan c cs =
     (if closed (cs ! c) then Inl CloseOfClosed else Inr (cs[c := (cs ! c)\<lparr>closed := True\<rparr>]))"

section \<open>The hub's locked sections\<close>

text \<open>\<open>h.clients[topic]\<close>: a missing topic reads as a nil map, which is empty.\<close>

definition topic_clients :: "hub \<Rightarrow> string \<Rightarrow> nat list" where
  "topic_clients h topic = (case map_of (clients h) topic of None \<Rightarrow> [] | Some cs \<Rightarrow> cs)"

text \<open>\<open>delete(h.clients[topic], client)\<close>.\<close>

definition delete_client :: "string \<Rightarrow> nat \<Rightarrow> hub \<Rightarrow> hub" where
  "delete_client topic c h = h\<lparr>clients := AList.map_entry topic (removeAll c) (clients h)\<rparr>"

definition clientCount :: "hub \<Rightarrow> int" where
  "clientCount h = fold (\<lambda>(topic, cs) count. count + int (length cs)) (clients h) 0"

definition copyEvent :: "event \<Rightarrow> event" where
  "copyEvent ev = ev\<lparr>Data := [] @ Data ev\<rparr>"

text \<open>
  The loop of \<open>publish\<close> over the clients of the topic, in the order \<open>ord\<close> the runtime chose.
\<close>

fun publish_loop :: "string \<Rightarrow> event \<Rightarrow> nat list \<Rightarrow> hub \<times> chan list \<Rightarrow> chan_panic + hub \<times> chan list" where
  "publish_loop topic ev [] hc = Inr hc"
| "publish_loop topic ev (c # rest) (h, cs) =
     (case try_send c (copyEvent ev) cs of
        Inl p \<Rightarrow> Inl p
      | Inr (Some cs') \<Rightarrow> publish_loop topic ev rest (h, cs')
      | Inr None \<Rightarrow> (case close_chan c cs of
            Inl p \<Rightarrow> Inl p
          | Inr cs' \<Rightarrow> publish_loop topic ev rest (delete_client topic c h, cs')))"

definition publish :: "nat list \<Rightarrow> string \<Rightarrow> event \<Rightarrow> hub \<times> chan list \<Rightarrow> chan_panic + hub \<times> chan list" where
  "publish ord topic ev hc = publish_loop topic (copyEvent ev) ord hc"

datatype hub_error = InvalidTopic | HubPanic chan_panic

definition Publish :: "nat list \<Rightarrow> event \<Rightarrow> hub \<times> chan list \<Rightarrow> chan_panic + hub \<times> chan list" where
  "Publish ord ev hc = publish ord [] ev hc"

definition PublishTo :: "nat list \<Rightarrow> string \<Rightarrow> event \<Rightarrow> hub \<times> chan list \<Rightarrow> hub_error + hub \<times> chan list" where
  "PublishTo ord topic ev hc =
     (if \<not> validTopic topic then Inl InvalidTopic
      else case publish ord topic ev hc of Inl p \<Rightarrow> Inl (HubPanic p) | Inr hc' \<Rightarrow> Inr hc')"

text \<open>The topic a handler of the hub serves: \<open>ServeHTTP\<close> the empty one, \<open>Topic\<close> a valid one.\<close>

definition Topic :: "string \<Rightarrow> string option" where
  "Topic topic = (if \<not> validTopic topic then None else Some topic)"

text \<open>The start of \<open>serveTopic\<close>: make the channel, then register it unless the hub is full.\<close>

definition register :: "string \<Rightarrow> hub \<times> chan list \<Rightarrow> bool \<times> hub \<times> chan list" where
  "register topic hc = (case hc of (h, cs) \<Rightarrow>
     let c = length cs; cs = cs @ [make_chan] in
     if clientCount h \<ge> maxClients h then (False, h, cs)
     else
       let h = (if map_of (clients h) topic = None
                then h\<lparr>clients := AList.update topic [] (clients h)\<rparr> else h);
           h = h\<lparr>clients := AList.map_entry topic (List.insert c) (clients h)\<rparr>
       in (True, h, cs))"

text \<open>The deferred function of \<open>serveTopic\<close>.\<close>

definition cleanup :: "string \<Rightarrow> nat \<Rightarrow> hub \<times> chan list \<Rightarrow> chan_panic + hub \<times> chan list" where
  "cleanup topic c hc = (case hc of (h, cs) \<Rightarrow>
     case (if c \<in> set (topic_clients h topic)
           then (case close_chan c cs of
                   Inl p \<Rightarrow> Inl p
                 | Inr cs' \<Rightarrow> Inr (delete_client topic c h, cs'))
           else Inr (h, cs)) of
       Inl p \<Rightarrow> Inl p
     | Inr (h, cs) \<Rightarrow>
         Inr (if length (topic_clients h topic) = 0
              then h\<lparr>clients := AList.delete topic (clients h)\<rparr> else h, cs))"

section \<open>Writing an event\<close>

text \<open>
  An \<open>io.Writer\<close> is a state and a function that takes the bytes of one call and may fail.
\<close>

type_synonym ('w, 'e) io_writer = "'w \<Rightarrow> string \<Rightarrow> 'w \<times> 'e option"

text \<open>\<open>if _, err := write; err != nil { return err }\<close> before the rest.\<close>

definition then_write :: "'w \<times> 'e option \<Rightarrow> ('w \<Rightarrow> 'w \<times> 'e option) \<Rightarrow> 'w \<times> 'e option" where
  "then_write r rest = (case r of (w, Some e) \<Rightarrow> (w, Some e) | (w, None) \<Rightarrow> rest w)"

text \<open>\<open>strings.ReplaceAll(value, "c", "")\<close> for one byte.\<close>

definition remove_byte :: "char \<Rightarrow> string \<Rightarrow> string" where
  "remove_byte c value = filter (\<lambda>d. d \<noteq> c) value"

definition singleLine :: "string \<Rightarrow> string" where
  "singleLine value = (let value = remove_byte CR value in remove_byte LF value)"

fun write_data_lines :: "('w, 'e) io_writer \<Rightarrow> 'w \<Rightarrow> string list \<Rightarrow> 'w \<times> 'e option" where
  "write_data_lines wr w [] = (w, None)"
| "write_data_lines wr w (line # rest) =
     then_write (wr w (''data: '' @ line @ [LF])) (\<lambda>w. write_data_lines wr w rest)"

definition writeEvent :: "('w, 'e) io_writer \<Rightarrow> 'w \<Rightarrow> event \<Rightarrow> 'w \<times> 'e option" where
  "writeEvent wr w ev =
     then_write (if ID ev \<noteq> [] then wr w (''id: '' @ singleLine (ID ev) @ [LF]) else (w, None)) (\<lambda>w.
     then_write (if Name ev \<noteq> [] then wr w (''event: '' @ singleLine (Name ev) @ [LF]) else (w, None)) (\<lambda>w.
     then_write (write_data_lines wr w (split_byte LF (remove_byte CR (Data ev)))) (\<lambda>w.
     wr w [LF])))"

definition keepalive :: string where "keepalive = '': keepalive'' @ [LF, LF]"


section \<open>Reading the stream\<close>

text \<open>
  A reference decoder of the event-stream format (the HTML standard's \<open>EventSource\<close>), on bytes: lines
  end in LF, CR or CRLF; a line that starts with a colon is a comment; an empty line dispatches an
  event with the name and data read since the lid one, unless there was no data; the lid event id
  stays in its buffer over dispatches until another \<open>id\<close> field replaces it, and an \<open>id\<close> field with a
  NUL is ignored; an incomplete lid line is dropped. The buffer starts with \<open>lid\<close>, which is empty
  for a new client and may be anything for one that reconnects.
\<close>

fun norm_eol :: "string \<Rightarrow> string" where
  "norm_eol [] = []"
| "norm_eol [c] = (if c = CR then [LF] else [c])"
| "norm_eol (c # d # r) =
     (if c = CR then (if d = LF then LF # norm_eol r else LF # norm_eol (d # r))
      else c # norm_eol (d # r))"

definition no_event :: "string \<Rightarrow> event" where "no_event lid = \<lparr>ID = lid, Name = [], Data = []\<rparr>"

definition sse_field :: "string \<Rightarrow> string \<Rightarrow> event \<Rightarrow> event" where
  "sse_field name value ev =
     (if name = ''event'' then ev\<lparr>Name := value\<rparr>
      else if name = ''data'' then ev\<lparr>Data := Data ev @ value @ [LF]\<rparr>
      else if name = ''id'' \<and> NUL \<notin> set value then ev\<lparr>ID := value\<rparr>
      else ev)"

definition strip_space :: "string \<Rightarrow> string" where
  "strip_space v = (case v of c # r \<Rightarrow> if c = CHR '' '' then r else v | [] \<Rightarrow> [])"

definition sse_line :: "string \<Rightarrow> event list \<times> event \<Rightarrow> event list \<times> event" where
  "sse_line line st = (case st of (done, cur) \<Rightarrow>
     if line = [] then (if Data cur = [] then done else done @ [cur\<lparr>Data := butlast (Data cur)\<rparr>],
                        no_event (ID cur))
     else if hd line = CHR '':'' then (done, cur)
     else case cut_byte (CHR '':'') line of (name, value, found) \<Rightarrow>
            (done, sse_field name (strip_space value) cur))"

definition sse_decode :: "string \<Rightarrow> string \<Rightarrow> event list" where
  "sse_decode lid s = fst (fold sse_line (butlast (split_byte LF (norm_eol s))) ([], no_event lid))"

text \<open>
  What a client should see of a list of events: names without line breaks, data without carriage
  returns, and as the last event id the id of the event without its line breaks, or the one before
  when the event has no id or one with a NUL.
\<close>

definition next_id :: "string \<Rightarrow> event \<Rightarrow> string" where
  "next_id lid ev = (if ID ev = [] \<or> NUL \<in> set (ID ev) then lid else singleLine (ID ev))"

fun seen :: "string \<Rightarrow> event list \<Rightarrow> event list" where
  "seen lid [] = []"
| "seen lid (ev # evs) =
     \<lparr>ID = next_id lid ev, Name = singleLine (Name ev), Data = remove_byte CR (Data ev)\<rparr> #
     seen (next_id lid ev) evs"

text \<open>The bytes of an event: \<open>writeEvent\<close> on a writer that takes everything.\<close>

definition append_writer :: "(string, unit) io_writer" where
  "append_writer w s = (w @ s, None)"

definition event_bytes :: "event \<Rightarrow> string" where
  "event_bytes ev = fst (writeEvent append_writer [] ev)"

section \<open>The connections\<close>

text \<open>
  A connection is a goroutine in \<open>serveTopic\<close>. Every call makes a channel before it looks at the
  capacity, so the number of the connection is that of its channel. \<open>start\<close> is the length of the
  publishing history when it came and \<open>taken\<close> the events it received, for the statements only;
  \<open>out\<close> is what its peer was sent after the headers.
\<close>

datatype phase = Rejected | Admitted | Streaming | Writing event | Leaving | Gone

record conn =
  topic :: string
  phase :: phase
  start :: nat
  taken :: "event list"
  out :: string

record world =
  the_hub :: hub
  chans :: "chan list"
  conns :: "conn list"
  history :: "(string \<times> event) list"

definition init_world :: "hub \<Rightarrow> world" where
  "init_world h = \<lparr>the_hub = h, chans = [], conns = [], history = []\<rparr>"

abbreviation hub_state :: "world \<Rightarrow> hub \<times> chan list" where
  "hub_state w \<equiv> (the_hub w, chans w)"

abbreviation with_hub :: "hub \<times> chan list \<Rightarrow> world \<Rightarrow> world" where
  "with_hub hc w \<equiv> w\<lparr>the_hub := fst hc, chans := snd hc\<rparr>"

abbreviation in_phase :: "world \<Rightarrow> nat \<Rightarrow> phase \<Rightarrow> bool" where
  "in_phase w c p \<equiv> c < length (conns w) \<and> phase (conns w ! c) = p"

abbreviation set_conn :: "nat \<Rightarrow> conn \<Rightarrow> world \<Rightarrow> world" where
  "set_conn c x w \<equiv> w\<lparr>conns := (conns w)[c := x]\<rparr>"

text \<open>The orders in which the runtime may visit the clients of a topic.\<close>

definition visits :: "world \<Rightarrow> string \<Rightarrow> nat list \<Rightarrow> bool" where
  "visits w t ord \<longleftrightarrow> mset ord = mset (topic_clients (the_hub w) t)"

inductive hub_step :: "world \<Rightarrow> world \<Rightarrow> bool" where
  arrive: "register t (hub_state w) = (ok, hc) \<Longrightarrow> t = [] \<or> Topic t = Some t \<Longrightarrow>
    hub_step w (with_hub hc (w\<lparr>conns := conns w @ [\<lparr>topic = t, phase = (if ok then Admitted else Rejected),
      start = length (history w), taken = [], out = []\<rparr>]\<rparr>))"
| published: "visits w t ord \<Longrightarrow> publish ord t ev (hub_state w) = Inr hc \<Longrightarrow>
    t = [] \<or> validTopic t \<Longrightarrow>
    hub_step w (with_hub hc (w\<lparr>history := history w @ [(t, ev)]\<rparr>))"
| flushed: "in_phase w c Admitted \<Longrightarrow>
    hub_step w (set_conn c ((conns w ! c)\<lparr>phase := Streaming\<rparr>) w)"
| flush_failed: "in_phase w c Admitted \<Longrightarrow>
    hub_step w (set_conn c ((conns w ! c)\<lparr>phase := Leaving\<rparr>) w)"
| context_done: "in_phase w c Streaming \<Longrightarrow>
    hub_step w (set_conn c ((conns w ! c)\<lparr>phase := Leaving\<rparr>) w)"
| heartbeat: "in_phase w c Streaming \<Longrightarrow>
    hub_step w (set_conn c ((conns w ! c)\<lparr>out := out (conns w ! c) @ keepalive\<rparr>) w)"
| heartbeat_failed: "in_phase w c Streaming \<Longrightarrow>
    hub_step w (set_conn c ((conns w ! c)\<lparr>out := out (conns w ! c) @ take k keepalive,
      phase := Leaving\<rparr>) w)"
| receive: "in_phase w c Streaming \<Longrightarrow> slot (chans w ! c) = Some ev \<Longrightarrow>
    hub_step w (set_conn c ((conns w ! c)\<lparr>phase := Writing ev, taken := taken (conns w ! c) @ [ev]\<rparr>)
      (w\<lparr>chans := (chans w)[c := (chans w ! c)\<lparr>slot := None\<rparr>]\<rparr>))"
| receive_closed: "in_phase w c Streaming \<Longrightarrow> slot (chans w ! c) = None \<Longrightarrow> closed (chans w ! c) \<Longrightarrow>
    hub_step w (set_conn c ((conns w ! c)\<lparr>phase := Leaving\<rparr>) w)"
| wrote: "in_phase w c (Writing ev) \<Longrightarrow>
    hub_step w (set_conn c ((conns w ! c)\<lparr>out := fst (writeEvent append_writer (out (conns w ! c)) ev),
      phase := Streaming\<rparr>) w)"
| write_failed: "in_phase w c (Writing ev) \<Longrightarrow>
    hub_step w (set_conn c ((conns w ! c)\<lparr>out := out (conns w ! c) @ take k (event_bytes ev),
      phase := Leaving\<rparr>) w)"
| leave: "in_phase w c Leaving \<Longrightarrow> cleanup (topic (conns w ! c)) c (hub_state w) = Inr hc \<Longrightarrow>
    hub_step w (with_hub hc (set_conn c ((conns w ! c)\<lparr>phase := Gone\<rparr>) w))"

inductive hub_run :: "hub_option list \<Rightarrow> world \<Rightarrow> bool" for opts where
  begin_run: "hub_run opts (init_world (NewHub opts))"
| one_step: "hub_run opts w \<Longrightarrow> hub_step w w' \<Longrightarrow> hub_run opts w'"

inductive_cases hub_stepE: "hub_step w w'"


section \<open>The format of the stream\<close>

definition unlines :: "string list \<Rightarrow> string" where
  "unlines ls = concat (map (\<lambda>l. l @ [LF]) ls)"

lemma unlines_simps [simp]:
  "unlines [] = []" "unlines (l # ls) = l @ LF # unlines ls" "unlines (ls @ ms) = unlines ls @ unlines ms"
  by (simp_all add: unlines_def)

definition event_lines :: "event \<Rightarrow> string list" where
  "event_lines ev = (if ID ev = [] then [] else [''id: '' @ singleLine (ID ev)]) @
     (if Name ev = [] then [] else [''event: '' @ singleLine (Name ev)]) @
     map ((@) ''data: '') (split_byte LF (remove_byte CR (Data ev))) @ [[]]"

lemma then_write_simps [simp]:
  "then_write (w, None) f = f w" "then_write (w, Some e) f = (w, Some e)"
  by (simp_all add: then_write_def)

lemma write_data_lines_append:
  "write_data_lines append_writer w ls = (w @ unlines (map ((@) ''data: '') ls), None)"
  by (induction ls arbitrary: w) (simp_all add: append_writer_def)

lemma writeEvent_append: "writeEvent append_writer w ev = (w @ unlines (event_lines ev), None)"
  by (simp add: writeEvent_def append_writer_def [of w] append_writer_def [of "_ @ _"]
      write_data_lines_append event_lines_def)

lemma event_bytes_lines: "event_bytes ev = unlines (event_lines ev)"
  by (simp add: event_bytes_def writeEvent_append)

definition one_line :: "string \<Rightarrow> bool" where
  "one_line l \<longleftrightarrow> CR \<notin> set l \<and> LF \<notin> set l"

lemma one_line_simps [simp]:
  "one_line []" "one_line (c # l) \<longleftrightarrow> c \<noteq> CR \<and> c \<noteq> LF \<and> one_line l"
  "one_line (l @ m) \<longleftrightarrow> one_line l \<and> one_line m" "one_line (singleLine l)"
  by (auto simp: one_line_def singleLine_def remove_byte_def)

lemma chars_not_eol [simp]:
  "byte c \<noteq> 13 \<Longrightarrow> c \<noteq> CR" "byte c \<noteq> 10 \<Longrightarrow> c \<noteq> LF"
  by auto

lemma event_lines_one_line: "list_all one_line (event_lines ev)"
proof -
  have "one_line l" if "l \<in> set (split_byte LF (remove_byte CR d))" for l d
    using split_byte_no_sep [OF that] split_byte_subset [OF that]
    by (auto simp: one_line_def remove_byte_def)
  then show ?thesis by (auto simp: event_lines_def list_all_iff eol_chars)
qed

lemma split_unlines: "list_all one_line ls \<Longrightarrow> split_byte LF (unlines ls @ r) = ls @ split_byte LF r"
  by (induction ls) (auto simp: one_line_def)

lemma norm_eol_id: "CR \<notin> set s \<Longrightarrow> norm_eol s = s"
  by (induction s rule: norm_eol.induct) auto

lemma no_CR_unlines: "list_all one_line ls \<Longrightarrow> CR \<notin> set (unlines ls)"
  by (induction ls) (auto simp: one_line_def eol_chars)

lemma sse_decode_unlines:
  "list_all one_line ls \<Longrightarrow> sse_decode lid (unlines ls) = fst (fold sse_line ls ([], no_event lid))"
  using split_unlines [of ls "[]"] by (simp add: sse_decode_def norm_eol_id no_CR_unlines butlast_append)

text \<open>The decoder on the lines of one event.\<close>

lemma cut_field:
  "cut_byte (CHR '':'') (''id: '' @ v) = (''id'', CHR '' '' # v, True)"
  "cut_byte (CHR '':'') (''event: '' @ v) = (''event'', CHR '' '' # v, True)"
  "cut_byte (CHR '':'') (''data: '' @ v) = (''data'', CHR '' '' # v, True)"
  by (simp_all add: cut_byte_def)

lemma sse_line_fields:
  "sse_line (''id: '' @ v) (es, cur) = (es, if NUL \<in> set v then cur else cur\<lparr>ID := v\<rparr>)"
  "sse_line (''event: '' @ v) (es, cur) = (es, cur\<lparr>Name := v\<rparr>)"
  "sse_line (''data: '' @ v) (es, cur) = (es, cur\<lparr>Data := Data cur @ v @ [LF]\<rparr>)"
  unfolding sse_line_def
  by (simp_all only: cut_field prod.case, simp_all add: sse_field_def strip_space_def)

lemma sse_data_lines:
  "fold sse_line (map ((@) ''data: '') ls) (es, cur) = (es, cur\<lparr>Data := Data cur @ unlines ls\<rparr>)"
proof (induction ls arbitrary: cur)
  case (Cons l ls)
  have "fold sse_line (map ((@) ''data: '') (l # ls)) (es, cur) =
    fold sse_line (map ((@) ''data: '') ls) (sse_line (''data: '' @ l) (es, cur))" by simp
  then show ?case by (simp only: sse_line_fields Cons.IH) simp
qed simp

lemma unlines_split: "unlines (split_byte LF s) = s @ [LF]"
proof -
  have "ls \<noteq> [] \<Longrightarrow> unlines ls = join_bytes [LF] ls @ [LF]" for ls
    by (induction "[LF]" ls rule: join_bytes.induct) auto
  then show ?thesis by simp
qed

lemma singleLine_NUL: "NUL \<in> set (singleLine v) \<longleftrightarrow> NUL \<in> set v"
  by (auto simp: singleLine_def remove_byte_def eol_chars)

lemma singleLine_Nil [simp]: "singleLine [] = []"
  by (simp add: singleLine_def remove_byte_def)

lemma sse_event_lines:
  "fold sse_line (event_lines ev) (es, no_event lid) = (es @ seen lid [ev], no_event (next_id lid ev))"
proof -
  let ?i = "if ID ev = [] then [] else [''id: '' @ singleLine (ID ev)]"
  let ?n = "if Name ev = [] then [] else [''event: '' @ singleLine (Name ev)]"
  have i: "fold sse_line ?i (es, no_event lid) = (es, no_event (next_id lid ev))"
    by (simp add: sse_line_fields [simplified] next_id_def singleLine_NUL no_event_def)
  have n: "fold sse_line ?n (es, cur) = (es, cur\<lparr>Name := singleLine (Name ev)\<rparr>)" if "Name cur = []" for cur
    using that by (simp add: sse_line_fields [simplified])
  show ?thesis
    unfolding event_lines_def fold_append comp_apply i
    by (simp add: n no_event_def sse_data_lines unlines_split sse_line_def butlast_append)
qed

lemma seen_append: "seen lid (evs @ evs') = seen lid evs @ seen (foldl next_id lid evs) evs'"
  by (induction evs arbitrary: lid) simp_all

lemma seen_prefix: "prefix evs evs' \<Longrightarrow> prefix (seen lid evs) (seen lid evs')"
  by (auto simp: prefix_def seen_append)


text \<open>The last event id stays in force for the events without one.\<close>

lemma seen_keeps_id:
  "sse_decode [] (concat (map event_bytes
     [\<lparr>ID = ''7'', Name = [], Data = ''a''\<rparr>, \<lparr>ID = [], Name = ''n'', Data = ''b''\<rparr>])) =
   [\<lparr>ID = ''7'', Name = [], Data = ''a''\<rparr>, \<lparr>ID = ''7'', Name = ''n'', Data = ''b''\<rparr>]"
  by code_simp


text \<open>A stream of whole events, and what a cut one still gives.\<close>

definition sse_clean :: "string \<Rightarrow> event list \<Rightarrow> bool" where
  "sse_clean s evs \<longleftrightarrow> (\<exists>ls. s = unlines ls \<and> list_all one_line ls \<and>
     (\<forall>lid. fold sse_line ls ([], no_event lid) = (seen lid evs, no_event (foldl next_id lid evs))))"

lemma sse_clean_Nil [simp]: "sse_clean [] []"
  unfolding sse_clean_def by (rule exI [of _ "[]"]) simp

lemma sse_clean_lines:
  assumes "sse_clean s evs" "list_all one_line ls"
    "\<And>es lid. fold sse_line ls (es, no_event lid) = (es @ seen lid evs', no_event (foldl next_id lid evs'))"
  shows "sse_clean (s @ unlines ls) (evs @ evs')"
proof -
  obtain ms where "s = unlines ms" "list_all one_line ms"
    "\<And>lid. fold sse_line ms ([], no_event lid) = (seen lid evs, no_event (foldl next_id lid evs))"
    using assms(1) by (auto simp: sse_clean_def)
  with assms(2,3) show ?thesis
    unfolding sse_clean_def by (intro exI [of _ "ms @ ls"]) (simp add: seen_append)
qed

lemma sse_clean_event: "sse_clean s evs \<Longrightarrow> sse_clean (s @ event_bytes ev) (evs @ [ev])"
  unfolding event_bytes_lines
  by (erule sse_clean_lines) (simp_all add: event_lines_one_line sse_event_lines)

lemma sse_clean_keepalive: "sse_clean s evs \<Longrightarrow> sse_clean (s @ keepalive) evs"
proof -
  have "keepalive = unlines ['': keepalive'', []]" by (simp add: keepalive_def)
  then show "sse_clean s evs \<Longrightarrow> ?thesis"
    using sse_clean_lines [of s evs "['': keepalive'', []]" "[]"]
    by (simp add: sse_line_def no_event_def eol_chars)
qed

lemma sse_clean_decode: "sse_clean s evs \<Longrightarrow> sse_decode lid s = seen lid evs"
  by (auto simp: sse_clean_def sse_decode_unlines)

lemma sse_clean_no_CR: "sse_clean s evs \<Longrightarrow> CR \<notin> set s"
  using no_CR_unlines by (auto simp: sse_clean_def)

lemma split_byte_prefix: "prefix (butlast (split_byte c s)) (butlast (split_byte c (s @ t)))"
proof (induction s)
  case (Cons d s)
  then show ?case
    by (cases "split_byte c s"; cases "split_byte c (s @ t)") auto
qed simp

lemma sse_line_grows: "prefix (fst st) (fst (sse_line l st))"
  by (cases st) (auto simp: sse_line_def split: prod.splits)

lemma sse_fold_grows: "prefix (fst st) (fst (fold sse_line ls st))"
proof (induction ls arbitrary: st)
  case (Cons l ls)
  then show ?case using prefix_order.trans [OF sse_line_grows Cons.IH, of st l] by simp
qed simp

lemma sse_decode_prefix:
  assumes "CR \<notin> set (s @ t)"
  shows "prefix (sse_decode lid s) (sse_decode lid (s @ t))"
proof -
  obtain ls where "butlast (split_byte LF (s @ t)) = butlast (split_byte LF s) @ ls"
    using split_byte_prefix [of LF s t] by (auto simp: prefix_def)
  with assms show ?thesis by (simp add: sse_decode_def norm_eol_id sse_fold_grows)
qed

lemma sse_cut:
  assumes "sse_clean (s @ t) evs"
  shows "prefix (sse_decode lid (s @ take k t)) (seen lid evs)"
proof -
  have "CR \<notin> set ((s @ take k t) @ drop k t)" using sse_clean_no_CR [OF assms] by simp
  from sse_decode_prefix [OF this] show ?thesis
    using sse_clean_no_CR [OF assms] sse_clean_decode [OF assms] by (auto dest: in_set_takeD)
qed

text \<open>
  C22. A browser reads back what was published: the concatenated output of \<open>writeEvent\<close> for any
  list of events decodes, whatever lid event id the client starts with, to one event for each of
  them, in order, with its name without line breaks, its data without carriage returns, and the
  lid event id that its own id gives: the id without line breaks, or the one before when the event
  has no id or an id with a NUL, which clients ignore. No id, name or data can end a field early,
  start another field, or split or join events. (The decoder reads bytes; a browser then decodes
  them as UTF-8.)
\<close>

theorem writeEvent_roundtrip:
  "sse_decode lid (fold (\<lambda>ev w. fst (writeEvent append_writer w ev)) evs []) = seen lid evs"
proof -
  have "sse_clean (fold (\<lambda>ev w. fst (writeEvent append_writer w ev)) evs s) (es @ evs)"
    if "sse_clean s es" for s es
    using that
  proof (induction evs arbitrary: s es)
    case (Cons ev evs)
    from sse_clean_event [OF Cons.prems, of ev] have
      "sse_clean (fst (writeEvent append_writer s ev)) (es @ [ev])"
      by (simp add: writeEvent_append event_bytes_lines)
    from Cons.IH [OF this] show ?case by simp
  qed simp
  from this [OF sse_clean_Nil] show ?thesis by (simp add: sse_clean_decode)
qed


section \<open>The map of clients\<close>

lemma clientCount_sum: "clientCount h = int (sum_list (map (\<lambda>p. length (snd p)) (clients h)))"
proof -
  have "fold (\<lambda>(t, cs) count. count + int (length cs)) al n = n + int (sum_list (map (\<lambda>p. length (snd p)) al))"
    for al :: "(string \<times> nat list) list" and n
    by (induction al arbitrary: n) (auto simp: case_prod_beta)
  then show ?thesis by (simp add: clientCount_def)
qed

lemma count_map_entry_le:
  "(\<And>x. length (f x) \<le> length x + k) \<Longrightarrow>
   sum_list (map (\<lambda>p. length (snd p)) (AList.map_entry t f al)) \<le> sum_list (map (\<lambda>p. length (snd p)) al) + k"
proof (induction al)
  case (Cons p al)
  from Cons.IH [OF Cons.prems] Cons.prems [of "snd p"] show ?case by simp
qed simp

lemma count_delete_le:
  "sum_list (map (\<lambda>p. length (snd p)) (AList.delete t al)) \<le> sum_list (map (\<lambda>p. length (snd p)) al)"
  by (induction al) auto

lemma count_update_new:
  "map_of al t = None \<Longrightarrow>
   sum_list (map (\<lambda>p. length (snd p)) (AList.update t [] al)) = sum_list (map (\<lambda>p. length (snd p)) al)"
  by (induction al) (auto split: if_splits)

lemma map_entry_comp: "AList.map_entry t f (AList.map_entry t g al) = AList.map_entry t (\<lambda>x. f (g x)) al"
  by (induction al) auto

lemma map_entry_id [simp]: "AList.map_entry t (\<lambda>x. x) al = al"
  by (induction al) auto

lemma topic_clients_map_entry:
  "topic_clients (h\<lparr>clients := AList.map_entry t f (clients h)\<rparr>) t' =
   (if t' = t \<and> map_of (clients h) t \<noteq> None then f (topic_clients h t) else topic_clients h t')"
  by (auto simp: topic_clients_def map_of_map_entry split: option.splits)

lemma topic_clients_delete_client [simp]:
  "topic_clients (delete_client t c h) t' =
   (if t' = t then removeAll c (topic_clients h t) else topic_clients h t')"
  by (auto simp: delete_client_def topic_clients_def map_of_map_entry split: option.splits)

lemma delete_client_simps [simp]:
  "maxClients (delete_client t c h) = maxClients h" "fst ` set (clients (delete_client t c h)) = fst ` set (clients h)"
  by (simp_all add: delete_client_def dom_map_entry)

lemma distinct_topics_map_entry: "distinct (map fst al) \<Longrightarrow> distinct (map fst (AList.map_entry t f al))"
  by (rule distinct_map_entry)

section \<open>Publishing\<close>

text \<open>
  What one pass of \<open>publish\<close> does to the clients in \<open>ord\<close>: a free slot takes the event, a client
  whose slot is taken is closed and forgotten. The order does not occur.
\<close>

definition offer :: "event \<Rightarrow> chan \<Rightarrow> chan" where
  "offer ev ch = (if slot ch = None then ch\<lparr>slot := Some ev\<rparr> else ch\<lparr>closed := True\<rparr>)"

definition offered :: "event \<Rightarrow> nat set \<Rightarrow> chan list \<Rightarrow> chan list" where
  "offered ev ms cs = map (\<lambda>c. if c \<in> ms then offer ev (cs ! c) else cs ! c) [0..<length cs]"

definition kept :: "nat set \<Rightarrow> chan list \<Rightarrow> nat list \<Rightarrow> nat list" where
  "kept ms cs = filter (\<lambda>c. c \<notin> ms \<or> slot (cs ! c) = None)"

lemma length_offered [simp]: "length (offered ev ms cs) = length cs"
  by (simp add: offered_def)

lemma nth_offered [simp]:
  "c < length cs \<Longrightarrow> offered ev ms cs ! c = (if c \<in> ms then offer ev (cs ! c) else cs ! c)"
  by (simp add: offered_def)

lemma offered_insert:
  "c < length cs \<Longrightarrow> c \<notin> ms \<Longrightarrow> offered ev ms (cs[c := offer ev (cs ! c)]) = offered ev (insert c ms) cs"
  by (rule nth_equalityI) (auto simp: nth_list_update)

lemma copyEvent_id [simp]: "copyEvent ev = ev"
  by (simp add: copyEvent_def)

lemma publish_loop_spec:
  assumes "distinct ord" "\<forall>c \<in> set ord. c < length cs \<and> \<not> closed (cs ! c)"
  shows "publish_loop t ev ord (h, cs) =
    Inr (h\<lparr>clients := AList.map_entry t (kept (set ord) cs) (clients h)\<rparr>, offered ev (set ord) cs)"
  using assms
proof (induction ord arbitrary: h cs)
  case Nil
  have "offered ev {} cs = cs" by (rule nth_equalityI) simp_all
  then show ?case by (simp add: kept_def)
next
  case (Cons c ord)
  let ?cs = "cs[c := offer ev (cs ! c)]"
  have c: "c < length cs" "\<not> closed (cs ! c)" "c \<notin> set ord" using Cons.prems by auto
  have prems: "distinct ord" "\<forall>d \<in> set ord. d < length ?cs \<and> \<not> closed (?cs ! d)"
    using Cons.prems by (auto simp: nth_list_update)
  have off: "offered ev (set ord) ?cs = offered ev (set (c # ord)) cs"
    using offered_insert [OF c(1,3)] by simp
  have other: "?cs ! d = cs ! d" if "d \<in> set ord" for d
    using c(3) that by (metis nth_list_update_neq)
  show ?case
  proof (cases "slot (cs ! c)")
    case None
    have "kept (set ord) ?cs = kept (set (c # ord)) cs"
      using None other by (auto simp: kept_def fun_eq_iff intro!: filter_cong)
    then show ?thesis
      using Cons.IH [OF prems, of h] off None c by (simp add: try_send_def offer_def)
  next
    case (Some x)
    have "kept (set ord) ?cs (removeAll c ms) = kept (set (c # ord)) cs ms" for ms
      using Some c(3) other
      by (auto simp: kept_def removeAll_filter_not_eq intro!: filter_cong)
    then show ?thesis
      using Cons.IH [OF prems, of "delete_client t c h"] off Some c
      by (simp add: try_send_def close_chan_def offer_def delete_client_def map_entry_comp)
  qed
qed


section \<open>Invariants\<close>

definition live :: "phase \<Rightarrow> bool" where
  "live p \<longleftrightarrow> p \<noteq> Rejected \<and> p \<noteq> Gone"

lemma live_simps [simp]:
  "\<not> live Rejected" "\<not> live Gone" "live Admitted" "live Streaming" "live (Writing ev)" "live Leaving"
  by (simp_all add: live_def)

text \<open>
  The hub knows exactly the open channels of the live connections, under their topics; every topic
  has a live connection; the capacity is kept.
\<close>

definition registered :: "hub \<Rightarrow> chan list \<Rightarrow> conn list \<Rightarrow> bool" where
  "registered h cs cn \<longleftrightarrow>
     (\<forall>t c. c \<in> set (topic_clients h t) \<longleftrightarrow>
        c < length cn \<and> topic (cn ! c) = t \<and> live (phase (cn ! c)) \<and> \<not> closed (cs ! c)) \<and>
     (\<forall>t. distinct (topic_clients h t)) \<and> distinct (map fst (clients h)) \<and>
     length cs = length cn \<and> clientCount h \<le> maxClients h \<and>
     (\<forall>t \<in> fst ` set (clients h). \<exists>c < length cn. topic (cn ! c) = t \<and> live (phase (cn ! c)))"

lemma registered_cong:
  assumes "registered h cs cn" "length cs' = length cs" "length cn' = length cn"
    "\<And>c. c < length cn \<Longrightarrow> topic (cn' ! c) = topic (cn ! c) \<and>
       live (phase (cn' ! c)) = live (phase (cn ! c)) \<and> closed (cs' ! c) = closed (cs ! c)"
  shows "registered h cs' cn'"
  using assms unfolding registered_def by (simp cong: conj_cong)

lemma registered_in_range:
  "registered h cs cn \<Longrightarrow> mset ord = mset (topic_clients h t) \<Longrightarrow>
   distinct ord \<and> (\<forall>c \<in> set ord. c < length cs \<and> \<not> closed (cs ! c)) \<and> set ord = set (topic_clients h t)"
  using mset_eq_imp_distinct_iff [of ord "topic_clients h t"] mset_eq_setD [of ord "topic_clients h t"]
  by (auto simp: registered_def)

lemma publish_spec:
  "registered h cs cn \<Longrightarrow> mset ord = mset (topic_clients h t) \<Longrightarrow>
   publish ord t ev (h, cs) =
     Inr (h\<lparr>clients := AList.map_entry t (kept (set (topic_clients h t)) cs) (clients h)\<rparr>,
          offered ev (set (topic_clients h t)) cs)"
  using registered_in_range [of h cs cn ord t] publish_loop_spec [of ord cs t ev h]
  by (simp add: publish_def)

lemma offer_closed [simp]: "closed (offer ev ch) \<longleftrightarrow> closed ch \<or> slot ch \<noteq> None"
  by (simp add: offer_def)

lemma topic_clients_kept:
  "topic_clients (h\<lparr>clients := AList.map_entry t (kept ms cs) (clients h)\<rparr>) t' =
   (if t' = t then kept ms cs (topic_clients h t) else topic_clients h t')"
  unfolding topic_clients_map_entry by (auto simp: topic_clients_def kept_def)

lemma registered_publish:
  assumes r: "registered h cs cn" and o: "mset ord = mset (topic_clients h t)"
    and p: "publish ord t ev (h, cs) = Inr (h', cs')"
  shows "registered h' cs' cn"
proof -
  let ?ms = "set (topic_clients h t)"
  from publish_spec [OF r o] p
  have h': "h' = h\<lparr>clients := AList.map_entry t (kept ?ms cs) (clients h)\<rparr>" and cs': "cs' = offered ev ?ms cs"
    by simp_all
  have member: "c \<in> set (topic_clients h u) \<longleftrightarrow>
      c < length cn \<and> topic (cn ! c) = u \<and> live (phase (cn ! c)) \<and> \<not> closed (cs ! c)" for u c
    using r by (simp add: registered_def)
  have len: "length cs = length cn" using r by (simp add: registered_def)
  have tc: "topic_clients h' u = (if u = t then kept ?ms cs (topic_clients h t) else topic_clients h u)" for u
    by (simp add: h' topic_clients_kept)
  have "c \<in> set (topic_clients h' u) \<longleftrightarrow>
      c < length cn \<and> topic (cn ! c) = u \<and> live (phase (cn ! c)) \<and> \<not> closed (cs' ! c)" for u c
    using member [of c u] member [of c t] len
    by (cases "c \<in> ?ms"; cases "u = t") (auto simp: tc cs' kept_def)
  moreover have "distinct (topic_clients h' u)" for u
    using r by (simp add: tc kept_def registered_def)
  moreover have "clientCount h' \<le> clientCount h"
    using count_map_entry_le [of "kept ?ms cs" 0 t "clients h"] by (simp add: clientCount_sum h' kept_def)
  ultimately show ?thesis
    using r by (simp add: registered_def h' cs' dom_map_entry distinct_map_entry)
qed

lemma registered_register:
  assumes r: "registered h cs cn" and reg: "register t (h, cs) = (ok, h', cs')"
    and x: "topic x = t" "live (phase x) = ok"
  shows "registered h' cs' (cn @ [x])"
proof -
  have len: "length cs = length cn" and room: "clientCount h \<le> maxClients h"
    and member: "\<And>u c. c \<in> set (topic_clients h u) \<longleftrightarrow>
      c < length cn \<and> topic (cn ! c) = u \<and> live (phase (cn ! c)) \<and> \<not> closed (cs ! c)"
    and dist: "\<And>u. distinct (topic_clients h u)" "distinct (map fst (clients h))"
    and topics: "\<And>u. u \<in> fst ` set (clients h) \<Longrightarrow> \<exists>c < length cn. topic (cn ! c) = u \<and> live (phase (cn ! c))"
    using r unfolding registered_def by auto
  have topics': "\<exists>c < Suc (length cn). topic ((cn @ [x]) ! c) = u \<and> live (phase ((cn @ [x]) ! c))"
    if u: "u \<in> fst ` set (clients h)" for u
    using topics [OF u] by (auto simp: nth_append less_Suc_eq)
  show ?thesis
  proof (cases ok)
    case False
    then have "h' = h" "cs' = cs @ [make_chan]"
      using reg by (auto simp: register_def Let_def split: if_splits)
    then show ?thesis
      using False x len room member dist topics'
      by (auto simp: registered_def nth_append less_Suc_eq)
  next
    case True
    let ?h1 = "if map_of (clients h) t = None then h\<lparr>clients := AList.update t [] (clients h)\<rparr> else h"
    have h': "h' = ?h1\<lparr>clients := AList.map_entry t (List.insert (length cn)) (clients ?h1)\<rparr>"
      and cs': "cs' = cs @ [make_chan]" and lt: "clientCount h < maxClients h"
      using reg True len by (auto simp: register_def Let_def split: if_splits)
    have one: "topic_clients ?h1 u = topic_clients h u" "map_of (clients ?h1) t \<noteq> None" for u
      by (auto simp: topic_clients_def update_conv' split: option.splits)
    have tc: "topic_clients h' u = (if u = t then List.insert (length cn) (topic_clients h t) else topic_clients h u)" for u
      unfolding h' topic_clients_map_entry using one by simp
    have "c \<in> set (topic_clients h' u) \<longleftrightarrow>
        c < length (cn @ [x]) \<and> topic ((cn @ [x]) ! c) = u \<and> live (phase ((cn @ [x]) ! c)) \<and> \<not> closed (cs' ! c)" for u c
      using True x len member [of c u] by (auto simp: tc cs' nth_append less_Suc_eq make_chan_def)
    moreover have "distinct (topic_clients h' u)" for u
      using dist by (simp add: tc)
    moreover have "clientCount h' \<le> clientCount h + 1"
    proof -
      have "clientCount ?h1 = clientCount h" by (simp add: clientCount_sum count_update_new)
      moreover have "clientCount (g\<lparr>clients := AList.map_entry t (List.insert n) (clients g)\<rparr>) \<le> clientCount g + 1" for g n
      proof -
        have "length (List.insert n x) \<le> length x + 1" for x by (simp add: List.insert_def)
        from count_map_entry_le [of "List.insert n" 1, OF this, of t "clients g"]
        show ?thesis by (simp add: clientCount_sum)
      qed
      ultimately show ?thesis unfolding h' by metis
    qed
    moreover have "maxClients h' = maxClients h" by (simp add: h')
    moreover have "distinct (map fst (clients h'))"
      unfolding h' using dist(2) by (auto intro!: distinct_topics_map_entry distinct_update)
    moreover have "\<exists>c < length (cn @ [x]). topic ((cn @ [x]) ! c) = u \<and> live (phase ((cn @ [x]) ! c))"
      if "u \<in> fst ` set (clients h')" for u
    proof (cases "u = t")
      case True
      then show ?thesis using x \<open>ok\<close> by (intro exI [of _ "length cn"]) simp
    next
      case False
      then have "u \<in> fst ` set (clients h)"
        using that by (auto simp: h' dom_map_entry dom_update split: if_splits)
      then show ?thesis using topics' by simp
    qed
    ultimately show ?thesis
      using lt len unfolding registered_def by (simp add: cs')
  qed
qed


lemma registered_cleanup:
  assumes r: "registered h cs cn" and c: "c < length cn" "topic (cn ! c) = t" "live (phase (cn ! c))"
    and x: "topic x = t" "phase x = Gone"
  shows "\<exists>h' cs'. cleanup t c (h, cs) = Inr (h', cs') \<and> registered h' cs' (cn[c := x]) \<and>
    length cs' = length cs \<and> (\<forall>d. slot (cs' ! d) = slot (cs ! d)) \<and>
    (\<forall>d. d \<noteq> c \<longrightarrow> closed (cs' ! d) = closed (cs ! d))"
proof -
  have member: "\<And>u d. d \<in> set (topic_clients h u) \<longleftrightarrow>
      d < length cn \<and> topic (cn ! d) = u \<and> live (phase (cn ! d)) \<and> \<not> closed (cs ! d)"
    and len: "length cs = length cn"
    using r unfolding registered_def by auto
  let ?in = "c \<in> set (topic_clients h t)"
  define h1 where "h1 = (if ?in then delete_client t c h else h)"
  define cs' where "cs' = (if ?in then cs[c := (cs ! c)\<lparr>closed := True\<rparr>] else cs)"
  define h' where "h' = (if topic_clients h1 t = [] then h1\<lparr>clients := AList.delete t (clients h1)\<rparr> else h1)"
  have clean: "cleanup t c (h, cs) = Inr (h', cs')"
    using member [of c t] by (simp add: cleanup_def close_chan_def h1_def cs'_def h'_def)
  have tc1: "topic_clients h1 u = (if u = t then removeAll c (topic_clients h t) else topic_clients h u)" for u
    by (simp add: h1_def)
  have tc: "topic_clients h' u = topic_clients h1 u" for u
    by (cases "u = t") (auto simp: h'_def topic_clients_def delete_conv')
  have member': "d \<in> set (topic_clients h' u) \<longleftrightarrow>
      d < length cn \<and> topic (cn[c := x] ! d) = u \<and> live (phase (cn[c := x] ! d)) \<and> \<not> closed (cs' ! d)" for u d
    using member [of d u] x c by (auto simp: tc tc1 nth_list_update cs'_def)
  have "clientCount h1 \<le> clientCount h"
  proof -
    have "length (removeAll c xs) \<le> length xs + 0" for xs by simp
    from count_map_entry_le [of "removeAll c" 0, OF this, of t "clients h"]
    show ?thesis by (simp add: clientCount_sum h1_def delete_client_def)
  qed
  moreover have "clientCount h' \<le> clientCount h1"
    using count_delete_le [of t "clients h1"] by (simp add: clientCount_sum h'_def)
  moreover have "maxClients h' = maxClients h" by (simp add: h'_def h1_def)
  moreover have dist1: "distinct (map fst (clients h1))"
    using r by (simp add: h1_def delete_client_def registered_def distinct_topics_map_entry)
  moreover have "distinct (map fst (clients h'))"
    using dist1 by (simp add: h'_def distinct_delete)
  moreover have "distinct (topic_clients h' u)" for u
    using r by (simp add: tc tc1 registered_def distinct_removeAll)
  moreover have "\<exists>d < length cn. topic (cn[c := x] ! d) = u \<and> live (phase (cn[c := x] ! d))"
    if u: "u \<in> fst ` set (clients h')" for u
  proof (cases "u = t")
    case True
    with u obtain d where "d \<in> set (topic_clients h' t)"
      by (cases "topic_clients h1 t") (auto simp: h'_def delete_notin_dom)
    then show ?thesis using member' [of d t] True by blast
  next
    case False
    with u have "u \<in> fst ` set (clients h)"
      using dom_delete_subset [of t "clients h1"] by (auto simp: h'_def h1_def split: if_splits)
    then obtain d where "d < length cn" "topic (cn ! d) = u" "live (phase (cn ! d))"
      using r unfolding registered_def by blast
    with False c show ?thesis by (intro exI [of _ d]) (auto simp: nth_list_update)
  qed
  ultimately have "registered h' cs' (cn[c := x])"
    using member' len r by (simp add: registered_def cs'_def)
  moreover have "length cs' = length cs \<and> (\<forall>d. slot (cs' ! d) = slot (cs ! d)) \<and>
      (\<forall>d. d \<noteq> c \<longrightarrow> closed (cs' ! d) = closed (cs ! d))"
    using c len by (auto simp: cs'_def nth_list_update)
  ultimately show ?thesis using clean by blast
qed

text \<open>
  The events of its topic since a connection came, and what has reached it: it misses nothing
  as long as its channel is open, and what it got is always a prefix.
\<close>

definition since :: "world \<Rightarrow> nat \<Rightarrow> event list" where
  "since w c = map snd (filter (\<lambda>(t, ev). t = topic (conns w ! c)) (drop (start (conns w ! c)) (history w)))"

definition got :: "world \<Rightarrow> nat \<Rightarrow> event list" where
  "got w c = taken (conns w ! c) @ (case slot (chans w ! c) of None \<Rightarrow> [] | Some ev \<Rightarrow> [ev])"

definition delivered :: "world \<Rightarrow> nat \<Rightarrow> bool" where
  "delivered w c \<longleftrightarrow> start (conns w ! c) \<le> length (history w) \<and> prefix (got w c) (since w c) \<and>
     (live (phase (conns w ! c)) \<and> \<not> closed (chans w ! c) \<longrightarrow> got w c = since w c)"

text \<open>What was sent to the peer agrees with what was taken from the channel.\<close>

definition out_ok :: "conn \<Rightarrow> bool" where
  "out_ok x \<longleftrightarrow> (\<forall>lid. prefix (sse_decode lid (out x)) (seen lid (taken x))) \<and>
     (case phase x of
        Admitted \<Rightarrow> out x = [] \<and> taken x = []
      | Streaming \<Rightarrow> sse_clean (out x) (taken x)
      | Writing ev \<Rightarrow> (\<exists>es. taken x = es @ [ev] \<and> sse_clean (out x) es)
      | _ \<Rightarrow> True)"

definition hub_inv :: "world \<Rightarrow> bool" where
  "hub_inv w \<longleftrightarrow> registered (the_hub w) (chans w) (conns w) \<and>
     (\<forall>c < length (conns w). delivered w c \<and> out_ok (conns w ! c))"


lemma hub_inv_local:
  assumes inv: "hub_inv w" and c: "c < length (conns w)"
    and x: "topic x = topic (conns w ! c)" "start x = start (conns w ! c)"
      "live (phase x) = live (phase (conns w ! c))" "out_ok x"
    and ch: "closed ch = closed (chans w ! c)"
      "taken x @ (case slot ch of None \<Rightarrow> [] | Some ev \<Rightarrow> [ev]) = got w c"
  shows "hub_inv (w\<lparr>chans := (chans w)[c := ch], conns := (conns w)[c := x]\<rparr>)" (is "hub_inv ?w")
proof -
  have r: "registered (the_hub w) (chans w) (conns w)" using inv by (simp add: hub_inv_def)
  then have len: "length (chans w) = length (conns w)" by (simp add: registered_def)
  have "registered (the_hub ?w) (chans ?w) (conns ?w)"
    using registered_cong [OF r, of "chans ?w" "conns ?w"] c len x ch by (auto simp: nth_list_update)
  moreover have "delivered ?w d \<and> out_ok (conns ?w ! d)" if d: "d < length (conns w)" for d
  proof (cases "d = c")
    case True
    have "got ?w c = got w c" "since ?w c = since w c"
      using c len x ch by (simp_all add: got_def since_def)
    then show ?thesis
      using inv c x ch True len by (simp add: hub_inv_def delivered_def)
  next
    case False
    then have "got ?w d = got w d" "since ?w d = since w d"
      by (simp_all add: got_def since_def)
    then show ?thesis using inv d False by (simp add: hub_inv_def delivered_def)
  qed
  ultimately show ?thesis by (simp add: hub_inv_def)
qed

lemma hub_inv_set_conn:
  assumes "hub_inv w" "c < length (conns w)" "topic x = topic (conns w ! c)" "start x = start (conns w ! c)"
    "live (phase x) = live (phase (conns w ! c))" "out_ok x" "taken x = taken (conns w ! c)"
  shows "hub_inv (set_conn c x w)"
  using hub_inv_local [OF assms(1-6), of "chans w ! c"] assms(7) by (simp add: got_def)

lemma hub_inv_out: "hub_inv w \<Longrightarrow> c < length (conns w) \<Longrightarrow> out_ok (conns w ! c)"
  by (simp add: hub_inv_def)

lemma hub_inv_published:
  assumes inv: "hub_inv w" and o: "visits w t ord" and p: "publish ord t ev (hub_state w) = Inr hc"
  shows "hub_inv (with_hub hc (w\<lparr>history := history w @ [(t, ev)]\<rparr>))" (is "hub_inv ?w")
proof -
  have r: "registered (the_hub w) (chans w) (conns w)" using inv by (simp add: hub_inv_def)
  then have len: "length (chans w) = length (conns w)" by (simp add: registered_def)
  obtain h' cs' where hc: "hc = (h', cs')" by (cases hc)
  let ?ms = "set (topic_clients (the_hub w) t)"
  have cs': "cs' = offered ev ?ms (chans w)"
    using publish_spec [OF r, of ord t ev] o p by (simp add: visits_def hc)
  have reg: "registered h' cs' (conns w)"
    using registered_publish [OF r] o p by (auto simp: visits_def hc)
  have "delivered ?w c" if c: "c < length (conns w)" for c
  proof -
    have d: "delivered w c" using inv c by (simp add: hub_inv_def)
    have member: "c \<in> ?ms \<longleftrightarrow> topic (conns w ! c) = t \<and> live (phase (conns w ! c)) \<and> \<not> closed (chans w ! c)"
      using r c by (simp add: registered_def)
    have sinc: "since ?w c = since w c @ (if topic (conns w ! c) = t then [ev] else [])"
      using d by (simp add: since_def delivered_def)
    have chan: "cs' ! c = (if c \<in> ?ms then offer ev (chans w ! c) else chans w ! c)"
      using c len by (simp add: cs')
    show ?thesis
    proof (cases "c \<in> ?ms")
      case True
      then have all: "got w c = since w c" using d member by (simp add: delivered_def)
      show ?thesis
      proof (cases "slot (chans w ! c)")
        case None
        then have "got ?w c = got w c @ [ev]" using True by (simp add: got_def hc chan offer_def)
        then show ?thesis using all sinc True member d by (simp add: delivered_def)
      next
        case (Some e)
        then have "got ?w c = got w c" using True by (simp add: got_def hc chan offer_def)
        then show ?thesis using all sinc True d Some by (simp add: delivered_def hc chan)
      qed
    next
      case False
      then have "got ?w c = got w c" by (simp add: got_def hc chan)
      then show ?thesis using d sinc False member by (auto simp: delivered_def hc chan)
    qed
  qed
  then show ?thesis using reg inv by (simp add: hub_inv_def hc)
qed

lemma hub_inv_arrive:
  assumes inv: "hub_inv w" and reg: "register t (hub_state w) = (ok, hc)"
  shows "hub_inv (with_hub hc (w\<lparr>conns := conns w @ [\<lparr>topic = t, phase = (if ok then Admitted else Rejected),
      start = length (history w), taken = [], out = []\<rparr>]\<rparr>))" (is "hub_inv ?w")
proof -
  have r: "registered (the_hub w) (chans w) (conns w)" using inv by (simp add: hub_inv_def)
  then have len: "length (chans w) = length (conns w)" by (simp add: registered_def)
  obtain h' cs' where hc: "hc = (h', cs')" by (cases hc)
  have cs': "cs' = chans w @ [make_chan]"
    using reg by (auto simp: register_def hc Let_def split: if_splits)
  have "registered h' cs' (conns ?w)"
    using registered_register [OF r, of t ok h' cs'] reg by (simp add: hc)
  moreover have "delivered ?w c \<and> out_ok (conns ?w ! c)" if "c < length (conns ?w)" for c
  proof (cases "c < length (conns w)")
    case True
    then have "got ?w c = got w c" "since ?w c = since w c" "chans ?w ! c = chans w ! c"
      using len by (simp_all add: got_def since_def nth_append cs' hc)
    then show ?thesis using inv True by (simp add: hub_inv_def delivered_def nth_append)
  next
    case False
    with that have "c = length (conns w)" by simp
    moreover have "cs' ! length (conns w) = make_chan" using len by (metis cs' nth_append_length)
    ultimately show ?thesis
      by (simp add: delivered_def got_def since_def hc make_chan_def out_ok_def sse_decode_def)
  qed
  ultimately show ?thesis by (simp add: hub_inv_def hc)
qed

lemma hub_inv_leave:
  assumes inv: "hub_inv w" and c: "in_phase w c Leaving"
  shows "\<exists>hc. cleanup (topic (conns w ! c)) c (hub_state w) = Inr hc \<and>
    hub_inv (with_hub hc (set_conn c ((conns w ! c)\<lparr>phase := Gone\<rparr>) w))"
proof -
  let ?x = "(conns w ! c)\<lparr>phase := Gone\<rparr>"
  have r: "registered (the_hub w) (chans w) (conns w)" using inv by (simp add: hub_inv_def)
  obtain h' cs' where clean: "cleanup (topic (conns w ! c)) c (hub_state w) = Inr (h', cs')"
    and reg: "registered h' cs' ((conns w)[c := ?x])" and slots: "\<And>d. slot (cs' ! d) = slot (chans w ! d)"
    and others: "\<And>d. d \<noteq> c \<Longrightarrow> closed (cs' ! d) = closed (chans w ! d)"
    using registered_cleanup [OF r, of c "topic (conns w ! c)" ?x] c by auto
  let ?w = "with_hub (h', cs') (set_conn c ?x w)"
  have "delivered ?w d \<and> out_ok (conns ?w ! d)" if d: "d < length (conns w)" for d
  proof -
    have "got ?w d = got w d" "since ?w d = since w d"
      using c d by (auto simp: got_def since_def slots nth_list_update)
    moreover have "out_ok ?x" using hub_inv_out [OF inv, of c] c by (simp add: out_ok_def)
    ultimately show ?thesis
      using inv d c others by (auto simp: hub_inv_def delivered_def nth_list_update)
  qed
  then show ?thesis using clean reg by (auto simp: hub_inv_def)
qed


lemma NewHub_ok: "clients (NewHub opts) = [] \<and> 0 < maxClients (NewHub opts) \<and> 0 < maxStreamAge (NewHub opts)"
proof -
  have "clients (fold apply_option opts h) = clients h \<and> 0 < maxClients (fold apply_option opts h) \<and>
      0 < maxStreamAge (fold apply_option opts h)"
    if "0 < maxClients h" "0 < maxStreamAge h" for h
    using that
  proof (induction opts arbitrary: h)
    case (Cons opt opts)
    have "0 < maxClients (apply_option opt h) \<and> 0 < maxStreamAge (apply_option opt h) \<and>
        clients (apply_option opt h) = clients h"
      using Cons.prems by (cases opt) (auto simp: WithMaxClients_def WithMaxStreamAge_def)
    then show ?case using Cons.IH [of "apply_option opt h"] by simp
  qed simp
  then show ?thesis
    by (simp add: NewHub_def defaultMaxClients_def defaultMaxStreamAge_def duration_units)
qed

lemma hub_inv_init: "hub_inv (init_world (NewHub opts))"
  using NewHub_ok [of opts]
  by (simp add: hub_inv_def init_world_def registered_def topic_clients_def clientCount_def)

lemma hub_inv_step: "hub_step w w' \<Longrightarrow> hub_inv w \<Longrightarrow> hub_inv w'"
proof (induction rule: hub_step.induct)
  case (arrive t w ok hc)
  then show ?case by (intro hub_inv_arrive)
next
  case (published w t ord ev hc)
  then show ?case by (intro hub_inv_published)
next
  case (flushed w c)
  then show ?case using hub_inv_out [of w c] by (intro hub_inv_set_conn) (auto simp: out_ok_def)
next
  case (flush_failed w c)
  then show ?case using hub_inv_out [of w c] by (intro hub_inv_set_conn) (auto simp: out_ok_def)
next
  case (context_done w c)
  then show ?case using hub_inv_out [of w c] by (intro hub_inv_set_conn) (auto simp: out_ok_def)
next
  case (heartbeat w c)
  then show ?case using hub_inv_out [of w c]
    by (intro hub_inv_set_conn) (auto simp: out_ok_def sse_clean_keepalive sse_clean_decode [OF sse_clean_keepalive])
next
  case (heartbeat_failed w c k)
  then show ?case using hub_inv_out [of w c]
    by (intro hub_inv_set_conn) (auto simp: out_ok_def dest: sse_clean_keepalive sse_cut)
next
  case (receive w c ev)
  then show ?case using hub_inv_out [of w c]
    hub_inv_local [of w c "(conns w ! c)\<lparr>phase := Writing ev, taken := taken (conns w ! c) @ [ev]\<rparr>"
      "(chans w ! c)\<lparr>slot := None\<rparr>"]
    by (auto simp: out_ok_def got_def sse_clean_decode seen_append)
next
  case (receive_closed w c)
  then show ?case using hub_inv_out [of w c] by (intro hub_inv_set_conn) (auto simp: out_ok_def)
next
  case (wrote w c ev)
  then show ?case using hub_inv_out [of w c]
    by (intro hub_inv_set_conn)
      (auto simp: out_ok_def writeEvent_append event_bytes_lines [symmetric] sse_clean_decode
        dest: sse_clean_event [of _ _ ev])
next
  case (write_failed w c ev k)
  then obtain es where es: "taken (conns w ! c) = es @ [ev]" "sse_clean (out (conns w ! c)) es"
    using hub_inv_out [of w c] by (auto simp: out_ok_def)
  have "prefix (sse_decode lid (out (conns w ! c) @ take k (event_bytes ev))) (seen lid (es @ [ev]))" for lid
    using sse_cut [OF sse_clean_event [OF es(2), of ev], of lid k] by simp
  then show ?case using write_failed es(1) by (intro hub_inv_set_conn) (auto simp: out_ok_def)
next
  case (leave w c hc)
  then show ?case using hub_inv_leave [of w c] by auto
qed

lemma hub_run_inv: "hub_run opts w \<Longrightarrow> hub_inv w"
  by (induction rule: hub_run.induct) (auto intro: hub_inv_init hub_inv_step)

section \<open>Properties\<close>


text \<open>A run the witnesses use: one client of a hub for one, one event published to it.\<close>

definition demo_event :: event where
  "demo_event = \<lparr>ID = ''7'', Name = [], Data = ''hi''\<rparr>"

definition demo_world :: "phase \<Rightarrow> world" where
  "demo_world p = \<lparr>the_hub = \<lparr>clients = [([], [0])], maxClients = 1, maxStreamAge = 15 * minute\<rparr>,
     chans = [\<lparr>slot = Some demo_event, closed = False\<rparr>],
     conns = [\<lparr>topic = [], phase = p, start = 0, taken = [], out = []\<rparr>],
     history = [([], demo_event)]\<rparr>"

lemma demo_world_run: "hub_run [Max_Clients 1] (demo_world Admitted)"
proof (rule hub_run.one_step [OF hub_run.one_step [OF hub_run.begin_run]])
  let ?h = "NewHub [Max_Clients 1]"
  let ?w = "\<lparr>the_hub = \<lparr>clients = [([], [0])], maxClients = 1, maxStreamAge = 15 * minute\<rparr>,
     chans = [make_chan], conns = [\<lparr>topic = [], phase = Admitted, start = 0, taken = [], out = []\<rparr>],
     history = []\<rparr>"
  have "register [] (hub_state (init_world ?h)) = (True, the_hub ?w, chans ?w)"
    by (simp add: register_def init_world_def NewHub_def WithMaxClients_def clientCount_def List.insert_def
        defaultMaxStreamAge_def Let_def)
  from hub_step.arrive [OF this] show "hub_step (init_world ?h) ?w"
    by (simp add: init_world_def)
  have "publish [0] [] demo_event (hub_state ?w) = Inr (the_hub (demo_world p), chans (demo_world p))" for p
    by (simp add: publish_def try_send_def make_chan_def demo_world_def)
  from hub_step.published [of ?w "[]" "[0]" demo_event, OF _ this] show "hub_step ?w (demo_world Admitted)"
    by (simp add: visits_def topic_clients_def demo_world_def)
qed

lemma demo_world_runs:
  "hub_run [Max_Clients 1] (demo_world Streaming)" "hub_run [Max_Clients 1] (demo_world Leaving)"
proof -
  show "hub_run [Max_Clients 1] (demo_world Streaming)"
    using hub_run.one_step [OF demo_world_run hub_step.flushed [of 0 "demo_world Admitted"]] by (simp add: demo_world_def)
  then show "hub_run [Max_Clients 1] (demo_world Leaving)"
    using hub_run.one_step [OF _ hub_step.context_done [of 0 "demo_world Streaming"]] by (simp add: demo_world_def)
qed

text \<open>
  C11. The hub never panics: in every reachable state a publication to any topic, in any order in
  which the runtime may visit the clients, sends on no closed channel and closes none twice, and
  gives the same result in every order; nor does the cleanup of a leaving connection close a
  channel that \<open>publish\<close> has closed.
\<close>

theorem Hub_never_panics:
  assumes "hub_run opts w"
  shows "(\<exists>hc. \<forall>ord. visits w t ord \<longrightarrow> publish ord t ev (hub_state w) = Inr hc) \<and>
    (in_phase w c Leaving \<longrightarrow> (\<exists>hc. cleanup (topic (conns w ! c)) c (hub_state w) = Inr hc))"
proof -
  have inv: "hub_inv w" using assms by (rule hub_run_inv)
  then have r: "registered (the_hub w) (chans w) (conns w)" by (simp add: hub_inv_def)
  show ?thesis
    using publish_spec [OF r, of _ t ev] hub_inv_leave [OF inv, of c] by (auto simp: visits_def)
qed

theorem Hub_never_panics_witness:
  "(\<exists>hc. publish [0] [] demo_event (hub_state (demo_world Leaving)) = Inr hc) \<and>
   (\<exists>hc. cleanup [] 0 (hub_state (demo_world Leaving)) = Inr hc)"
  using Hub_never_panics [OF demo_world_runs(2), of "[]" demo_event 0]
  by (auto simp: demo_world_def visits_def topic_clients_def)

text \<open>
  C31. The hub is bounded and leaks nothing: the clients never exceed the limit, every topic in the
  map has a connection that is still served, and when the last one is gone the map is empty.
\<close>

theorem Hub_bounded_no_leak:
  assumes "hub_run opts w"
  shows "clientCount (the_hub w) \<le> maxClients (the_hub w) \<and>
    (\<forall>t \<in> fst ` set (clients (the_hub w)). \<exists>c < length (conns w). topic (conns w ! c) = t \<and> live (phase (conns w ! c))) \<and>
    ((\<forall>x \<in> set (conns w). \<not> live (phase x)) \<longrightarrow> clients (the_hub w) = [])"
proof -
  have "registered (the_hub w) (chans w) (conns w)" using hub_run_inv [OF assms] by (simp add: hub_inv_def)
  then have count: "clientCount (the_hub w) \<le> maxClients (the_hub w)"
    and topics: "\<forall>t \<in> fst ` set (clients (the_hub w)).
      \<exists>c < length (conns w). topic (conns w ! c) = t \<and> live (phase (conns w ! c))"
    unfolding registered_def by blast+
  have "clients (the_hub w) = []" if "\<forall>x \<in> set (conns w). \<not> live (phase x)"
    using that topics by (cases "clients (the_hub w)") force+
  with count topics show ?thesis by blast
qed

theorem Hub_bounded_no_leak_witness: "clientCount (the_hub (demo_world Leaving)) \<le> 1"
  using Hub_bounded_no_leak [OF demo_world_runs(2)] by (simp add: demo_world_def)

text \<open>
  C1. Delivery: what a browser decodes from the output of a connection, whatever last event id it
  starts with, is a prefix of what it should see of the events published to exactly its topic since
  it came, in order, with no event skipped, repeated or taken from another topic: names and ids
  without line breaks, data without carriage returns, and the id before where an event has none (or
  one with a NUL). A connection whose channel is open has every one of these events, taken or in its
  slot: a client too slow for its slot is cut off and never misses an event in the middle.
\<close>

theorem Hub_delivery:
  assumes "hub_run opts w" "c < length (conns w)"
  shows "prefix (sse_decode lid (out (conns w ! c))) (seen lid (since w c)) \<and>
    prefix (taken (conns w ! c)) (since w c) \<and>
    (live (phase (conns w ! c)) \<and> \<not> closed (chans w ! c) \<longrightarrow> got w c = since w c)"
proof -
  have d: "delivered w c" and o: "out_ok (conns w ! c)"
    using hub_run_inv [OF assms(1)] assms(2) by (simp_all add: hub_inv_def)
  from d have taken: "prefix (taken (conns w ! c)) (since w c)"
    unfolding delivered_def got_def using prefix_order.trans [OF prefixI [OF refl]] by blast
  from o have "prefix (sse_decode lid (out (conns w ! c))) (seen lid (taken (conns w ! c)))"
    by (simp add: out_ok_def)
  with d taken show ?thesis
    using prefix_order.trans [OF _ seen_prefix [OF taken]] by (auto simp: delivered_def)
qed

theorem Hub_delivery_witness: "got (demo_world Streaming) 0 = since (demo_world Streaming) 0"
  using Hub_delivery [OF demo_world_runs(1), of 0] by (simp add: demo_world_def)

end
