(* ===== verification/Metadata_Map.thy ===== *)
theory Metadata_Map
  imports Validators "HOL-Library.AList" "HOL-Library.Multiset"
begin

text \<open>
  What audit, storage and mail share: Go maps from strings to strings on a heap, the bounded scan
  of user metadata, and the contract of the function adapters \<open>audit.WriterFunc\<close> and
  \<open>mail.SenderFunc\<close>.
\<close>

section \<open>Maps on a heap\<close>

text \<open>
  A map value is the list of its entries in the order in which the runtime visits them; a Go map
  has each key once. A variable of map type holds an address or nil, and copies of the variable
  share the map.
\<close>

type_synonym entries = "(string \<times> string) list"
type_synonym heap = "entries list"
type_synonym map_ref = "nat option"

definition go_map :: "entries \<Rightarrow> bool" where
  "go_map m \<longleftrightarrow> distinct (map fst m)"

lemma go_map_Nil [simp]: "go_map []" by (simp add: go_map_def)

text \<open>A nil map reads as empty.\<close>

definition read_map :: "heap \<Rightarrow> map_ref \<Rightarrow> entries" where
  "read_map h r = (case r of None \<Rightarrow> [] | Some a \<Rightarrow> h ! a)"

text \<open>\<open>make(map[string]string)\<close> and the store of a whole map.\<close>

definition make_map :: "heap \<Rightarrow> nat \<times> heap" where
  "make_map h = (length h, h @ [[]])"

definition write_map :: "nat \<Rightarrow> entries \<Rightarrow> heap \<Rightarrow> heap" where
  "write_map a m h = h[a := m]"

lemma read_make_map [simp]:
  "make_map h = (a, h') \<Longrightarrow> a = length h \<and> h' = h @ [[]]"
  by (simp add: make_map_def)

text \<open>\<open>for key, value := range source { target[key] = value }\<close> on the entries.\<close>

definition copy_entries :: "entries \<Rightarrow> entries" where
  "copy_entries source = fold (\<lambda>(key, value) target. AList.update key value target) source []"

lemma fold_update_fresh:
  "distinct (map fst (acc @ m)) \<Longrightarrow> fold (\<lambda>(k, v) t. AList.update k v t) m acc = acc @ m"
proof (induction m arbitrary: acc)
  case (Cons p m)
  obtain k v where p: "p = (k, v)" by (cases p)
  have "k \<notin> fst ` set acc \<Longrightarrow> AList.update k v acc = acc @ [(k, v)]" for acc :: "('a \<times> 'b) list"
    by (induction acc) auto
  with Cons p show ?case by auto
qed simp

lemma copy_entries_id [simp]: "go_map m \<Longrightarrow> copy_entries m = m"
  using fold_update_fresh [of "[]" m] by (simp add: copy_entries_def go_map_def)

section \<open>The scan of user metadata\<close>

text \<open>
  The loop of \<open>audit.NewEvent\<close>, \<open>audit.Event.Validate\<close> and \<open>storage.Metadata.Validate\<close>:
  every entry is checked and added to the running total, and the first failure ends it.
\<close>

fun metadata_scan :: "(string \<Rightarrow> bool) \<Rightarrow> (string \<Rightarrow> bool) \<Rightarrow> nat \<Rightarrow> nat \<Rightarrow> entries \<Rightarrow> bool" where
  "metadata_scan valid_key valid_value limit used [] = True"
| "metadata_scan valid_key valid_value limit used ((key, value) # rest) =
     (if \<not> valid_key key \<or> \<not> valid_value value then False
      else let used = used + (length key + length value) in
      if used > limit then False
      else metadata_scan valid_key valid_value limit used rest)"

definition metadata_size :: "entries \<Rightarrow> nat" where
  "metadata_size m = sum_list (map (\<lambda>(k, v). length k + length v) m)"

text \<open>The scan does not depend on the order: it accepts when every entry is valid and the sum fits.\<close>

lemma metadata_scan_iff:
  "used \<le> limit \<Longrightarrow> metadata_scan vk vv limit used m \<longleftrightarrow>
     (\<forall>(k, v) \<in> set m. vk k \<and> vv v) \<and> used + metadata_size m \<le> limit"
proof (induction m arbitrary: used)
  case (Cons p m)
  obtain k v where p: "p = (k, v)" by (cases p)
  show ?case
  proof (cases "used + (length k + length v) \<le> limit")
    case True
    then show ?thesis using Cons.IH [OF True] by (auto simp: p metadata_size_def Let_def)
  qed (auto simp: p metadata_size_def Let_def)
qed (simp add: metadata_size_def)

lemma metadata_size_perm: "mset m = mset m' \<Longrightarrow> metadata_size m = metadata_size m'"
  by (simp add: metadata_size_def flip: sum_mset_sum_list)

lemma metadata_scan_perm:
  assumes "mset m = mset m'" "used \<le> limit"
  shows "metadata_scan vk vv limit used m = metadata_scan vk vv limit used m'"
  unfolding metadata_scan_iff [OF assms(2)] metadata_size_perm [OF assms(1)] mset_eq_setD [OF assms(1)]
  by (rule refl)

section \<open>Validating adapters\<close>

text \<open>
  A function adapter: nil is an error, an invalid message is refused, and otherwise the function
  is called and its error returned. A call returns the error and the messages handed over.
\<close>

locale validated_sink =
  fixes send :: "('m \<Rightarrow> 'e option) option \<Rightarrow> 'm \<Rightarrow> 'e option \<times> 'm list"
    and validate :: "'m \<Rightarrow> 'e option"
    and unavailable :: 'e
  assumes nil_sink: "send None m = (Some unavailable, [])"
    and refused: "validate m = Some e \<Longrightarrow> send (Some f) m = (Some e, [])"
    and handed_over: "validate m = None \<Longrightarrow> send (Some f) m = (f m, [m])"
begin

lemma sink_sees_valid:
  assumes "m' \<in> set (snd (send f m))"
  shows "m' = m \<and> validate m' = None \<and> f \<noteq> None"
  using assms by (cases f; cases "validate m") (auto simp: nil_sink refused handed_over)

lemma sent_iff: "fst (send f m) = None \<longleftrightarrow> (\<exists>g. f = Some g \<and> validate m = None \<and> g m = None)"
  by (cases f; cases "validate m") (auto simp: nil_sink refused handed_over)

lemma at_most_one_call: "length (snd (send f m)) \<le> 1"
  by (cases f; cases "validate m") (auto simp: nil_sink refused handed_over)

end

end
