(* ===== verification/Audit_Events.thy ===== *)
theory Audit_Events
  imports Metadata_Map
begin

text \<open>
  \<open>audit/audit.go\<close>: bounded audit events. Metadata maps live on the heap of
  \<open>Metadata_Map\<close>, so that the copies of \<open>NewEvent\<close> and \<open>Metadata\<close> can be told from
  sharing, and a client that holds addresses can be let loose on the heap. The time of a call is a
  parameter; \<open>Round(0)\<close> and \<open>UTC()\<close> do not change the instant.
\<close>

section \<open>Data\<close>

datatype audit_error = ErrInvalidEvent | ErrWriterUnavailable | WriterErr string

record event_input =
  ID :: string
  OccurredAt :: time
  Actor :: string
  Action :: string
  Target :: string
  Metadata :: map_ref

record audit_event =
  event_id :: string
  occurredAt :: time
  actor :: string
  action :: string
  target :: string
  metadata :: map_ref

text \<open>The accessors, each the value of a field.\<close>

definition Event_ID :: "audit_event \<Rightarrow> string" where "Event_ID e = event_id e"
definition Event_OccurredAt :: "audit_event \<Rightarrow> time" where "Event_OccurredAt e = occurredAt e"
definition Event_Actor :: "audit_event \<Rightarrow> string" where "Event_Actor e = actor e"
definition Event_Action :: "audit_event \<Rightarrow> string" where "Event_Action e = action e"
definition Event_Target :: "audit_event \<Rightarrow> string" where "Event_Target e = target e"

definition MaxIDBytes :: nat where "MaxIDBytes = 128"
definition MaxActorBytes :: nat where "MaxActorBytes = 256"
definition MaxActionBytes :: nat where "MaxActionBytes = 128"
definition MaxTargetBytes :: nat where "MaxTargetBytes = 512"
definition MaxMetadataEntries :: nat where "MaxMetadataEntries = 32"
definition MaxMetadataKeyBytes :: nat where "MaxMetadataKeyBytes = 64"
definition MaxMetadataValueBytes :: nat where "MaxMetadataValueBytes = 1024"
definition MaxMetadataBytes :: nat where "MaxMetadataBytes = 8192"

lemmas audit_constants = MaxIDBytes_def MaxActorBytes_def MaxActionBytes_def MaxTargetBytes_def
  MaxMetadataEntries_def MaxMetadataKeyBytes_def MaxMetadataValueBytes_def MaxMetadataBytes_def

section \<open>Checks\<close>

definition validIdentifier_audit :: "string \<Rightarrow> nat \<Rightarrow> bool" where
  "validIdentifier_audit value limit =
     (if length value = 0 \<or> length value > limit then False
      else list_all (\<lambda>c. \<not> (not_alnum c \<and> c \<noteq> CHR ''.'' \<and> c \<noteq> CHR ''_'' \<and> c \<noteq> CHR ''-'' \<and>
             c \<noteq> CHR '':'' \<and> c \<noteq> CHR ''/'')) (lead_bytes value))"

definition validOptionalText :: "string \<Rightarrow> nat \<Rightarrow> bool" where
  "validOptionalText value limit = text_ok value limit"

definition validMetadataKey_audit :: "string \<Rightarrow> bool" where
  "validMetadataKey_audit value =
     (if length value = 0 \<or> length value > MaxMetadataKeyBytes then False
      else list_all (\<lambda>c. \<not> (not_lower_alnum c \<and> c \<noteq> CHR ''-'' \<and> c \<noteq> CHR ''_'' \<and> c \<noteq> CHR ''.''))
             (lead_bytes value))"

definition audit_char :: "char \<Rightarrow> bool" where
  "audit_char c \<longleftrightarrow> \<not> not_alnum c \<or> c \<in> {CHR ''.'', CHR ''_'', CHR ''-'', CHR '':'', CHR ''/''}"

definition audit_key_char :: "char \<Rightarrow> bool" where
  "audit_key_char c \<longleftrightarrow> \<not> not_lower_alnum c \<or> c \<in> {CHR ''-'', CHR ''_'', CHR ''.''}"

interpretation audit_id: byte_validator "\<lambda>v. validIdentifier_audit v n" n audit_char for n
  by unfold_locales
    (auto simp: validIdentifier_audit_def audit_char_def char_class_graphic list_all_iff)

interpretation audit_key: byte_validator validMetadataKey_audit 64 audit_key_char
  by unfold_locales
    (auto simp: validMetadataKey_audit_def audit_key_char_def audit_constants char_class_graphic list_all_iff)

section \<open>Construction\<close>

text \<open>The loop of \<open>NewEvent\<close>: what has been copied when it ends, and whether it came to its end.\<close>

fun copy_checked :: "nat \<Rightarrow> entries \<Rightarrow> entries \<Rightarrow> entries \<times> bool" where
  "copy_checked used into [] = (into, True)"
| "copy_checked used into ((key, value) # rest) =
     (if \<not> validMetadataKey_audit key \<or> \<not> validOptionalText value MaxMetadataValueBytes
      then (into, False)
      else let used = used + (length key + length value) in
      if used > MaxMetadataBytes then (into, False)
      else copy_checked used (AList.update key value into) rest)"

definition NewEvent :: "time \<Rightarrow> heap \<Rightarrow> event_input \<Rightarrow> heap \<times> (audit_error + audit_event)" where
  "NewEvent now h input =
     (if \<not> validIdentifier_audit (ID input) MaxIDBytes \<or> \<not> validIdentifier_audit (Action input) MaxActionBytes \<or>
         \<not> validOptionalText (Actor input) MaxActorBytes \<or> \<not> validOptionalText (Target input) MaxTargetBytes
      then (h, Inl ErrInvalidEvent)
      else if length (read_map h (Metadata input)) > MaxMetadataEntries then (h, Inl ErrInvalidEvent)
      else case make_map h of (a, h1) \<Rightarrow>
           case copy_checked 0 [] (read_map h (Metadata input)) of (copied, complete) \<Rightarrow>
           let h2 = write_map a copied h1 in
           if \<not> complete then (h2, Inl ErrInvalidEvent)
           else let at = (if is_zero (OccurredAt input) then now else OccurredAt input) in
           (h2, Inr \<lparr>event_id = ID input, occurredAt = at, actor = Actor input, action = Action input,
                     target = Target input, metadata = Some a\<rparr>))"

definition Event_Validate :: "heap \<Rightarrow> audit_event \<Rightarrow> audit_error option" where
  "Event_Validate h e =
     (if \<not> validIdentifier_audit (event_id e) MaxIDBytes \<or> is_zero (occurredAt e) \<or>
         \<not> validIdentifier_audit (action e) MaxActionBytes \<or> \<not> validOptionalText (actor e) MaxActorBytes \<or>
         \<not> validOptionalText (target e) MaxTargetBytes
      then Some ErrInvalidEvent
      else if length (read_map h (metadata e)) > MaxMetadataEntries then Some ErrInvalidEvent
      else if \<not> metadata_scan validMetadataKey_audit (\<lambda>v. validOptionalText v MaxMetadataValueBytes)
                  MaxMetadataBytes 0 (read_map h (metadata e))
      then Some ErrInvalidEvent else None)"

text \<open>The method \<open>Metadata\<close>: nil for no entries, otherwise a new map.\<close>

definition Event_Metadata :: "heap \<Rightarrow> audit_event \<Rightarrow> heap \<times> map_ref" where
  "Event_Metadata h e =
     (if length (read_map h (metadata e)) = 0 then (h, None)
      else case make_map h of (a, h1) \<Rightarrow>
        (write_map a (copy_entries (read_map h (metadata e))) h1, Some a))"

text \<open>\<open>WriterFunc.Write\<close>, with the list of events the function was called with.\<close>

definition WriterFunc_Write ::
  "heap \<Rightarrow> (audit_event \<Rightarrow> audit_error option) option \<Rightarrow> audit_event \<Rightarrow> audit_error option \<times> audit_event list" where
  "WriterFunc_Write h f e =
     (case f of None \<Rightarrow> (Some ErrWriterUnavailable, [])
      | Some g \<Rightarrow> (case Event_Validate h e of Some err \<Rightarrow> (Some err, []) | None \<Rightarrow> (g e, [e])))"

interpretation audit_writer: validated_sink "WriterFunc_Write h" "Event_Validate h" ErrWriterUnavailable for h
  by unfold_locales (simp_all add: WriterFunc_Write_def)

section \<open>Lemmas\<close>

lemma copy_checked_scan:
  "snd (copy_checked used t m) =
     metadata_scan validMetadataKey_audit (\<lambda>v. validOptionalText v MaxMetadataValueBytes) MaxMetadataBytes used m"
proof (induction m arbitrary: used t)
  case (Cons p m)
  then show ?case by (cases p) (auto simp: Let_def)
qed simp

lemma copy_checked_copy:
  "snd (copy_checked used t m) \<Longrightarrow> fst (copy_checked used t m) = fold (\<lambda>(k, v) t. AList.update k v t) m t"
proof (induction m arbitrary: used t)
  case (Cons p m)
  then show ?case by (cases p) (auto simp: Let_def split: if_splits)
qed simp

lemma copy_checked_complete:
  "snd (copy_checked 0 [] m) \<Longrightarrow> go_map m \<Longrightarrow> fst (copy_checked 0 [] m) = m"
  using copy_checked_copy [of 0 "[]" m] fold_update_fresh [of "[]" m] by (simp add: go_map_def)

text \<open>What \<open>NewEvent\<close> demands of its input, over the entries of the metadata map.\<close>

definition metadata_ok :: "entries \<Rightarrow> bool" where
  "metadata_ok m \<longleftrightarrow> length m \<le> 32 \<and> metadata_size m \<le> 8192 \<and>
     (\<forall>(k, v) \<in> set m. k \<noteq> [] \<and> length k \<le> 64 \<and> list_all audit_key_char k \<and> text_ok v 1024)"

definition fields_ok :: "string \<Rightarrow> string \<Rightarrow> string \<Rightarrow> string \<Rightarrow> bool" where
  "fields_ok i ac actr tgt \<longleftrightarrow> i \<noteq> [] \<and> length i \<le> 128 \<and> list_all audit_char i \<and>
     ac \<noteq> [] \<and> length ac \<le> 128 \<and> list_all audit_char ac \<and> text_ok actr 256 \<and> text_ok tgt 512"

lemma scan_ok:
  "metadata_scan validMetadataKey_audit (\<lambda>v. validOptionalText v MaxMetadataValueBytes) MaxMetadataBytes 0 m \<and>
   length m \<le> MaxMetadataEntries \<longleftrightarrow> metadata_ok m"
  by (auto simp: metadata_scan_iff metadata_ok_def audit_constants validOptionalText_def audit_key.valid_iff)

lemma Event_Validate_iff:
  "Event_Validate h e = None \<longleftrightarrow> fields_ok (event_id e) (action e) (actor e) (target e) \<and>
     occurredAt e \<noteq> 0 \<and> metadata_ok (read_map h (metadata e))"
  using scan_ok [of "read_map h (metadata e)"]
  by (auto simp: Event_Validate_def fields_ok_def audit_constants validOptionalText_def audit_id.valid_iff
      is_zero_def)


definition input_ok :: "heap \<Rightarrow> event_input \<Rightarrow> bool" where
  "input_ok h x \<longleftrightarrow> fields_ok (ID x) (Action x) (Actor x) (Target x) \<and> metadata_ok (read_map h (Metadata x))"

text \<open>The event of an accepted input, with its metadata at a given address.\<close>

definition event_of :: "time \<Rightarrow> event_input \<Rightarrow> nat \<Rightarrow> audit_event" where
  "event_of now x a = \<lparr>event_id = ID x, occurredAt = (if OccurredAt x = 0 then now else OccurredAt x),
     actor = Actor x, action = Action x, target = Target x, metadata = Some a\<rparr>"

lemma fields_ok_iff:
  "fields_ok i ac actr tgt \<longleftrightarrow> validIdentifier_audit i MaxIDBytes \<and> validIdentifier_audit ac MaxActionBytes \<and>
     validOptionalText actr MaxActorBytes \<and> validOptionalText tgt MaxTargetBytes"
  by (auto simp: fields_ok_def audit_constants validOptionalText_def audit_id.valid_iff)

lemma NewEvent_accepts:
  assumes "input_ok h x" "go_map (read_map h (Metadata x))"
  shows "NewEvent now h x = (h @ [read_map h (Metadata x)], Inr (event_of now x (length h)))"
proof -
  let ?m = "read_map h (Metadata x)"
  obtain c ok where c: "copy_checked 0 [] ?m = (c, ok)" by (cases "copy_checked 0 [] ?m")
  have "ok" "c = ?m"
    using copy_checked_scan [of 0 "[]" ?m] copy_checked_complete [of ?m] scan_ok [of ?m] assms c
    by (auto simp: input_ok_def)
  with c assms scan_ok [of ?m] show ?thesis
    by (simp add: NewEvent_def input_ok_def fields_ok_iff make_map_def write_map_def event_of_def is_zero_def Let_def)
qed

lemma NewEvent_rejects:
  assumes "\<not> input_ok h x"
  shows "\<exists>junk. length junk \<le> 1 \<and> NewEvent now h x = (h @ junk, Inl ErrInvalidEvent)"
proof -
  let ?m = "read_map h (Metadata x)"
  obtain c ok where c: "copy_checked 0 [] ?m = (c, ok)" by (cases "copy_checked 0 [] ?m")
  have "\<not> (ok \<and> length ?m \<le> MaxMetadataEntries \<and> fields_ok (ID x) (Action x) (Actor x) (Target x))"
    using copy_checked_scan [of 0 "[]" ?m] scan_ok [of ?m] assms c by (auto simp: input_ok_def)
  then have "fst (NewEvent now h x) = h \<or> fst (NewEvent now h x) = h @ [c]"
    and "snd (NewEvent now h x) = Inl ErrInvalidEvent"
    using c by (auto simp: NewEvent_def fields_ok_iff make_map_def write_map_def Let_def)
  then have "NewEvent now h x = (h @ [], Inl ErrInvalidEvent) \<or> NewEvent now h x = (h @ [c], Inl ErrInvalidEvent)"
    by (metis append_Nil2 prod.collapse)
  then show ?thesis by (elim disjE) (rule exI, rule conjI [rotated], assumption, simp)+
qed

section \<open>A client on the heap\<close>

text \<open>
  A client makes maps and writes to every map it has an address of, which includes its inputs to
  \<open>NewEvent\<close> and all results of \<open>Metadata\<close>. \<open>made\<close> holds the events with the entries they were
  made from.
\<close>

record audit_world =
  the_heap :: heap
  known :: "nat set"
  made :: "(audit_event \<times> entries) list"

inductive client_step :: "audit_world \<Rightarrow> audit_world \<Rightarrow> bool" where
  making: "make_map (the_heap w) = (a, h) \<Longrightarrow> client_step w (w\<lparr>the_heap := h, known := insert a (known w)\<rparr>)"
| writing: "a \<in> known w \<Longrightarrow> go_map m \<Longrightarrow> client_step w (w\<lparr>the_heap := write_map a m (the_heap w)\<rparr>)"
| creating: "set_option (Metadata x) \<subseteq> known w \<Longrightarrow> now \<noteq> 0 \<Longrightarrow>
    NewEvent now (the_heap w) x = (h, Inr e) \<Longrightarrow>
    client_step w (w\<lparr>the_heap := h, made := made w @ [(e, read_map (the_heap w) (Metadata x))]\<rparr>)"
| refusing: "set_option (Metadata x) \<subseteq> known w \<Longrightarrow> NewEvent now (the_heap w) x = (h, Inl err) \<Longrightarrow>
    client_step w (w\<lparr>the_heap := h\<rparr>)"
| reading: "(e, m) \<in> set (made w) \<Longrightarrow> Event_Metadata (the_heap w) e = (h, r) \<Longrightarrow>
    client_step w (w\<lparr>the_heap := h, known := known w \<union> set_option r\<rparr>)"

inductive client_run :: "audit_world \<Rightarrow> bool" where
  empty: "client_run \<lparr>the_heap = [], known = {}, made = []\<rparr>"
| next_step: "client_run w \<Longrightarrow> client_step w w' \<Longrightarrow> client_run w'"

text \<open>The client never learns the address of an event's own map, and all maps stay Go maps.\<close>

definition event_intact :: "heap \<Rightarrow> nat set \<Rightarrow> audit_event \<times> entries \<Rightarrow> bool" where
  "event_intact h ks em \<longleftrightarrow> (case em of (e, m) \<Rightarrow>
     \<exists>a < length h. metadata e = Some a \<and> a \<notin> ks \<and> h ! a = m \<and> metadata_ok m \<and>
       fields_ok (event_id e) (action e) (actor e) (target e) \<and> occurredAt e \<noteq> 0)"

definition audit_inv :: "audit_world \<Rightarrow> bool" where
  "audit_inv w \<longleftrightarrow> (\<forall>a \<in> known w. a < length (the_heap w)) \<and> list_all go_map (the_heap w) \<and>
     (\<forall>em \<in> set (made w). event_intact (the_heap w) (known w) em)"

lemma event_intact_append:
  "event_intact h ks em \<Longrightarrow> ks' \<subseteq> ks \<union> {length h..} \<Longrightarrow> event_intact (h @ new) ks' em"
  by (cases em) (force simp: event_intact_def nth_append)

lemma go_map_read: "list_all go_map h \<Longrightarrow> (\<forall>a \<in> set_option r. a < length h) \<Longrightarrow> go_map (read_map h r)"
  by (auto simp: read_map_def go_map_def list_all_length split: option.splits)

lemma copy_checked_go_map: "go_map into \<Longrightarrow> go_map (fst (copy_checked used into m))"
proof (induction m arbitrary: used into)
  case (Cons p m)
  then show ?case by (cases p) (auto simp: Let_def go_map_def distinct_update)
qed simp

lemma NewEvent_heap: "list_all go_map h \<Longrightarrow> NewEvent now h x = (h', r) \<Longrightarrow> list_all go_map h' \<and> (\<exists>new. h' = h @ new)"
  using copy_checked_go_map [OF go_map_Nil, of 0 "read_map h (Metadata x)"]
  by (auto simp: NewEvent_def make_map_def write_map_def Let_def split: if_splits prod.splits)

lemma audit_inv_grow:
  assumes "audit_inv w" "h = the_heap w @ new" "list_all go_map h" "ks \<subseteq> known w \<union> {length (the_heap w)..<length h}"
  shows "audit_inv (w\<lparr>the_heap := h, known := ks\<rparr>)"
proof -
  have "\<forall>a \<in> ks. a < length h" using assms by (fastforce simp: audit_inv_def)
  moreover have "event_intact h ks em" if "em \<in> set (made w)" for em
  proof -
    have "ks \<subseteq> known w \<union> {length (the_heap w)..}" using assms(4) by auto
    then show ?thesis
      using event_intact_append [of "the_heap w" "known w" em ks new] that assms(1,2)
      by (simp add: audit_inv_def)
  qed
  ultimately show ?thesis using assms(3) by (simp add: audit_inv_def)
qed

lemma audit_inv_step: "client_step w w' \<Longrightarrow> audit_inv w \<Longrightarrow> audit_inv w'"
proof (induction rule: client_step.induct)
  case (making w a h)
  then show ?case using audit_inv_grow [of w h "[[]]" "insert a (known w)"]
    by (auto simp: make_map_def audit_inv_def)
next
  case (writing a w m)
  have "event_intact (write_map a m (the_heap w)) (known w) em" if "em \<in> set (made w)" for em
  proof -
    obtain e n where em: "em = (e, n)" by (cases em)
    have "event_intact (the_heap w) (known w) em" using writing that by (simp add: audit_inv_def)
    then obtain b where b: "b < length (the_heap w)" "metadata e = Some b" "b \<notin> known w" "the_heap w ! b = n"
      and ok: "metadata_ok n" "fields_ok (event_id e) (action e) (actor e) (target e)" "occurredAt e \<noteq> 0"
      by (auto simp: em event_intact_def)
    have "b \<noteq> a" using b(3) writing(1) by auto
    with b ok show ?thesis by (auto simp: em event_intact_def write_map_def intro!: exI [of _ b])
  qed
  then show ?case using writing
    by (auto simp: audit_inv_def write_map_def list_all_length nth_list_update)
next
  case (creating x w now h e)
  then have m: "go_map (read_map (the_heap w) (Metadata x))"
    by (intro go_map_read) (auto simp: audit_inv_def)
  have ok: "input_ok (the_heap w) x"
    using creating(3) NewEvent_rejects [of "the_heap w" x now] by auto
  have h: "h = the_heap w @ [read_map (the_heap w) (Metadata x)]" and e: "e = event_of now x (length (the_heap w))"
    using NewEvent_accepts [OF ok m] creating(3) by auto
  have inv: "audit_inv (w\<lparr>the_heap := h, known := known w\<rparr>)"
    using creating(4) m h by (intro audit_inv_grow) (auto simp: audit_inv_def)
  have "event_intact h (known w) (e, read_map (the_heap w) (Metadata x))"
    using ok creating(2,4) by (auto simp: event_intact_def h e event_of_def input_ok_def audit_inv_def)
  with inv show ?case by (auto simp: audit_inv_def)
next
  case (refusing x w now h err)
  then show ?case using NewEvent_heap [of "the_heap w" now x h "Inl err"]
    audit_inv_grow [of w h _ "known w"] by (auto simp: audit_inv_def)
next
  case (reading e m w h r)
  then obtain a where a: "a < length (the_heap w)" "metadata e = Some a"
    by (auto simp: audit_inv_def event_intact_def)
  then have m: "go_map (read_map (the_heap w) (metadata e))"
    using reading(3) by (intro go_map_read) (auto simp: audit_inv_def)
  show ?case
  proof (cases "read_map (the_heap w) (metadata e) = []")
    case True
    then show ?thesis using reading by (auto simp: Event_Metadata_def audit_inv_def)
  next
    case False
    then have "h = the_heap w @ [read_map (the_heap w) (metadata e)]" "r = Some (length (the_heap w))"
      using reading(2) m by (auto simp: Event_Metadata_def make_map_def write_map_def)
    then show ?thesis using reading(3) m by (intro audit_inv_grow) (auto simp: audit_inv_def)
  qed
qed

lemma client_run_inv: "client_run w \<Longrightarrow> audit_inv w"
proof (induction rule: client_run.induct)
  case empty
  show ?case by (simp add: audit_inv_def)
qed (rule audit_inv_step)


section \<open>Properties\<close>

definition demo_input :: event_input where
  "demo_input = \<lparr>ID = ''e1'', OccurredAt = 0, Actor = ''ann'', Action = ''login'', Target = [], Metadata = Some 0\<rparr>"

definition demo_entries :: entries where
  "demo_entries = [(''ip'', ''10.0.0.1''), (''via'', ''web'')]"

lemma demo_input_ok: "fields_ok ''e1'' ''login'' ''ann'' []" "metadata_ok demo_entries"
  by (simp_all add: fields_ok_def metadata_ok_def metadata_size_def demo_entries_def audit_char_def
      audit_key_char_def not_alnum_def not_lower_alnum_def outside_byte text_ok_def contains_any_def
      eol_chars ascii_def byte_def)

lemma demo_go_map: "go_map demo_entries"
  by (simp add: demo_entries_def go_map_def)

text \<open>
  \<open>NewEvent\<close> gives an event exactly for bounded input: the identifiers, the optional texts and
  every metadata entry within their limits, at most 32 entries and 8192 bytes. The event has the
  input's fields, the current time when none was given, and its own copy of the metadata; nothing
  the caller can reach is changed. The only error is \<open>ErrInvalidEvent\<close>.
\<close>

theorem NewEvent_spec:
  assumes "go_map (read_map h (Metadata x))"
  shows "(input_ok h x \<and> NewEvent now h x = (h @ [read_map h (Metadata x)], Inr (event_of now x (length h)))) \<or>
    (\<not> input_ok h x \<and> snd (NewEvent now h x) = Inl ErrInvalidEvent \<and>
     (\<exists>junk. fst (NewEvent now h x) = h @ junk))"
  using NewEvent_accepts [OF _ assms, of now] NewEvent_rejects [of h x now] by (cases "input_ok h x") auto

theorem NewEvent_spec_witness:
  "snd (NewEvent 5 [demo_entries] demo_input) = Inr (event_of 5 demo_input 1)"
  using NewEvent_spec [of "[demo_entries]" demo_input 5]
    demo_input_ok demo_go_map by (auto simp: input_ok_def demo_input_def read_map_def)

text \<open>
  The order in which the runtime visits the metadata map does not matter to \<open>NewEvent\<close> or to
  \<open>Validate\<close>, although both stop at the first entry that is invalid or exceeds the total: for
  every other order the verdict is the same, and the event differs at most in the order of its map.
\<close>

theorem NewEvent_order_independent:
  assumes "go_map m" "mset m' = mset m" "Metadata x = Some a" "a < length h"
  shows "(snd (NewEvent now (h[a := m']) x) = snd (NewEvent now (h[a := m]) x)) \<and>
    (snd (NewEvent now (h[a := m]) x) = Inr e \<longrightarrow>
      map_of (read_map (fst (NewEvent now (h[a := m']) x)) (metadata e)) = map_of m)"
proof -
  have "go_map m'"
    using assms(1) mset_eq_imp_distinct_iff [of "map fst m'" "map fst m"] arg_cong [OF assms(2), of "image_mset fst"]
    by (simp add: go_map_def)
  have ok: "metadata_ok m' = metadata_ok m"
    using mset_eq_length [OF assms(2)] metadata_size_perm [OF assms(2)] mset_eq_setD [OF assms(2)]
    by (simp add: metadata_ok_def)
  have maps: "map_of m' = map_of m"
    using \<open>go_map m'\<close> assms(1) mset_eq_setD [OF assms(2)] by (simp add: go_map_def map_of_inject_set)
  have acc: "NewEvent now (h[a := n]) x = (h[a := n] @ [n], Inr (event_of now x (length h)))"
    if "go_map n" "metadata_ok n" "fields_ok (ID x) (Action x) (Actor x) (Target x)" for n
    using NewEvent_accepts [of "h[a := n]" x now] that assms(3,4) by (simp add: input_ok_def read_map_def)
  have rej: "snd (NewEvent now (h[a := n]) x) = Inl ErrInvalidEvent"
    if "\<not> (metadata_ok n \<and> fields_ok (ID x) (Action x) (Actor x) (Target x))" for n
    using NewEvent_rejects [of "h[a := n]" x now] that assms(3,4) by (auto simp: input_ok_def read_map_def)
  show ?thesis
  proof (cases "metadata_ok m \<and> fields_ok (ID x) (Action x) (Actor x) (Target x)")
    case True
    then show ?thesis
      using acc [of m] acc [of m'] \<open>go_map m'\<close> assms(1,4) ok maps
      by (auto simp: event_of_def read_map_def nth_append)
  next
    case False
    then show ?thesis using rej [of m] rej [of m'] ok by simp
  qed
qed

theorem NewEvent_order_independent_witness:
  "snd (NewEvent 5 [rev demo_entries] demo_input) = snd (NewEvent 5 [demo_entries] demo_input)"
  using NewEvent_order_independent [of demo_entries "rev demo_entries" demo_input 0 "[[]]" 5]
  by (simp add: demo_input_def demo_entries_def go_map_def)

text \<open>
  C17. Events are immutable: whatever a client does with the maps it can reach, its inputs to
  \<open>NewEvent\<close> and the results of \<open>Metadata\<close> included, every event that was ever made still has the
  metadata it was made from, is still valid, and \<open>Metadata\<close> still gives these entries.
\<close>

theorem Event_immutable:
  assumes "client_run w" "(e, m) \<in> set (made w)"
  shows "read_map (the_heap w) (metadata e) = m \<and> Event_Validate (the_heap w) e = None \<and>
    (case Event_Metadata (the_heap w) e of (h, r) \<Rightarrow> read_map h r = m)"
proof -
  obtain a where a: "a < length (the_heap w)" "metadata e = Some a" "the_heap w ! a = m"
    and ok: "metadata_ok m" "fields_ok (event_id e) (action e) (actor e) (target e)" "occurredAt e \<noteq> 0"
    and go: "list_all go_map (the_heap w)"
    using client_run_inv [OF assms(1)] assms(2) by (auto simp: audit_inv_def event_intact_def)
  have r: "read_map (the_heap w) (metadata e) = m" using a by (simp add: read_map_def)
  have "go_map m" using go a by (auto simp: list_all_length)
  then show ?thesis
    using r ok by (auto simp: Event_Validate_iff Event_Metadata_def make_map_def write_map_def read_map_def nth_append)
qed


theorem Event_immutable_witness:
  "\<exists>w. client_run w \<and> 0 \<in> known w \<and> the_heap w ! 0 = [] \<and> (event_of 5 demo_input 1, demo_entries) \<in> set (made w) \<and>
     read_map (the_heap w) (metadata (event_of 5 demo_input 1)) = demo_entries"
proof -
  let ?e = "event_of 5 demo_input 1"
  let ?w1 = "\<lparr>the_heap = [[]], known = {0}, made = []\<rparr>"
  let ?w2 = "\<lparr>the_heap = [demo_entries], known = {0}, made = []\<rparr>"
  let ?w3 = "\<lparr>the_heap = [demo_entries, demo_entries], known = {0}, made = [(?e, demo_entries)]\<rparr>"
  let ?w4 = "\<lparr>the_heap = [[], demo_entries], known = {0}, made = [(?e, demo_entries)]\<rparr>"
  have "client_run ?w1"
    using client_run.next_step [OF client_run.empty client_step.making] by (simp add: make_map_def)
  moreover have "client_step ?w1 ?w2"
    using client_step.writing [of 0 ?w1 demo_entries] demo_go_map by (simp add: write_map_def)
  moreover have "NewEvent 5 [demo_entries] demo_input = ([demo_entries, demo_entries], Inr ?e)"
    using NewEvent_accepts [of "[demo_entries]" demo_input 5] demo_input_ok demo_go_map
    by (simp add: input_ok_def demo_input_def read_map_def)
  then have "client_step ?w2 ?w3"
    using client_step.creating [of demo_input ?w2 5] by (simp add: demo_input_def read_map_def)
  moreover have "client_step ?w3 ?w4"
    using client_step.writing [of 0 ?w3 "[]"] by (simp add: write_map_def)
  ultimately have "client_run ?w4" by (blast intro: client_run.next_step)
  with Event_immutable [OF this, of ?e demo_entries] show ?thesis
    by (intro exI [of _ ?w4]) simp
qed

text \<open>
  Only bounded, well-formed events reach a function behind \<open>WriterFunc\<close>: \<open>Write\<close> hands
  exactly the caller's event over, once, precisely when there is a function and the event's
  identifiers, texts, time and metadata are within the limits; it succeeds exactly if then the
  function gives no error.
\<close>

theorem WriterFunc_sees_bounded_events:
  "((e' \<in> set (snd (WriterFunc_Write h f e))) = (e' = e \<and> f \<noteq> None \<and> occurredAt e \<noteq> 0 \<and>
      fields_ok (event_id e) (action e) (actor e) (target e) \<and> metadata_ok (read_map h (metadata e)))) \<and>
   length (snd (WriterFunc_Write h f e)) \<le> 1 \<and>
   (fst (WriterFunc_Write h f e) = None) = (\<exists>g. f = Some g \<and> e \<in> set (snd (WriterFunc_Write h f e)) \<and> g e = None)"
proof -
  have calls: "(e' \<in> set (snd (WriterFunc_Write h f e))) = (e' = e \<and> f \<noteq> None \<and> Event_Validate h e = None)" for e'
    using audit_writer.sink_sees_valid [of e' h f e] audit_writer.handed_over [of h e]
    by (cases f) auto
  show ?thesis
    using audit_writer.sent_iff [of h f e] audit_writer.at_most_one_call [of h f e]
    unfolding calls Event_Validate_iff by auto
qed

end
