(* ===== verification/Storage.thy ===== *)
theory Storage
  imports Metadata_Map Go_IO
begin

text \<open>
  \<open>storage/storage.go\<close>: object keys, metadata and values. The key check is the loop of the code
  with its segment start; metadata maps are the entry lists of \<open>Metadata_Map\<close>;
  \<open>mime.ParseMediaType\<close> is a parameter of which nothing is assumed.
\<close>

section \<open>Data\<close>

datatype storage_error = ErrInvalidKey | ErrInvalidMetadata | ErrInvalidValue

record obj_metadata =
  ContentType :: string
  CacheControl :: string
  vals :: entries

text \<open>A reader argument: nil, a typed nil that \<open>nilReader\<close> finds by reflection, or usable.\<close>

datatype body_arg = NilReader | TypedNilReader | Body reader

record obj_value =
  body :: reader
  val_size :: int
  val_metadata :: obj_metadata

record object =
  Key :: string
  Size :: int
  Metadata :: obj_metadata

definition MaxKeyBytes :: nat where "MaxKeyBytes = 1024"
definition MaxMetadataEntries_storage :: nat where "MaxMetadataEntries_storage = 32"
definition MaxMetadataKeyBytes_storage :: nat where "MaxMetadataKeyBytes_storage = 64"
definition MaxMetadataValueBytes_storage :: nat where "MaxMetadataValueBytes_storage = 1024"
definition MaxMetadataBytes_storage :: nat where "MaxMetadataBytes_storage = 8192"
definition MaxContentTypeBytes :: nat where "MaxContentTypeBytes = 256"
definition MaxCacheControlBytes :: nat where "MaxCacheControlBytes = 512"
definition MaxValueBytes :: int where "MaxValueBytes = 67108864"

lemmas storage_constants = MaxKeyBytes_def MaxMetadataEntries_storage_def MaxMetadataKeyBytes_storage_def
  MaxMetadataValueBytes_storage_def MaxMetadataBytes_storage_def MaxContentTypeBytes_def
  MaxCacheControlBytes_def MaxValueBytes_def

section \<open>Keys\<close>

abbreviation SLASH :: char where "SLASH \<equiv> CHR ''/''"

definition bad_key_char :: "char \<Rightarrow> bool" where
  "bad_key_char c \<longleftrightarrow> not_alnum c \<and> c \<noteq> CHR ''.'' \<and> c \<noteq> CHR ''_'' \<and> c \<noteq> CHR ''-'' \<and> c \<noteq> CHR ''/''"

text \<open>\<open>value[a:b]\<close>, for bounds in range.\<close>

definition byte_slice :: "nat \<Rightarrow> nat \<Rightarrow> string \<Rightarrow> string" where
  "byte_slice a b value = take (b - a) (drop a value)"

text \<open>
  The loop of \<open>Key.Validate\<close> from the rune that starts at byte \<open>i\<close>; its result is the start of
  the last segment, or \<open>None\<close> for the return in the loop.
\<close>

function key_scan :: "string \<Rightarrow> nat \<Rightarrow> nat \<Rightarrow> nat option" where
  "key_scan value i segmentStart =
     (if i \<ge> length value then Some segmentStart
      else let c = value ! i; i' = i + rune_width (drop i value) in
        if bad_key_char c then None
        else if c \<noteq> SLASH then key_scan value i' segmentStart
        else if i = segmentStart \<or> byte_slice segmentStart i value = ''.'' \<or> byte_slice segmentStart i value = ''..'' then None
        else key_scan value i' (i + 1))"
  by pat_completeness auto
termination
  by (relation "measure (\<lambda>(value, i, s). length value - i)") (auto simp: diff_less_mono2 rune_width_pos intro: diff_less_mono2)

declare key_scan.simps [simp del]

definition Key_Validate :: "string \<Rightarrow> storage_error option" where
  "Key_Validate value =
     (if length value = 0 \<or> length value > MaxKeyBytes \<or> value ! 0 = SLASH \<or> value ! (length value - 1) = SLASH
      then Some ErrInvalidKey
      else case key_scan value 0 0 of
        None \<Rightarrow> Some ErrInvalidKey
      | Some segmentStart \<Rightarrow>
          if drop segmentStart value = ''.'' \<or> drop segmentStart value = ''..'' then Some ErrInvalidKey
          else None)"

definition ParseKey :: "string \<Rightarrow> storage_error + string" where
  "ParseKey value = (case Key_Validate value of Some err \<Rightarrow> Inl err | None \<Rightarrow> Inr value)"

section \<open>Metadata and values\<close>

definition validMetadataKey_storage :: "string \<Rightarrow> bool" where
  "validMetadataKey_storage value =
     (if length value = 0 \<or> length value > MaxMetadataKeyBytes_storage then False
      else list_all (\<lambda>c. \<not> (not_lower_alnum c \<and> c \<noteq> CHR ''-'')) (lead_bytes value))"

interpretation storage_key: byte_validator validMetadataKey_storage 64
  "\<lambda>c. \<not> (not_lower_alnum c \<and> c \<noteq> CHR ''-'')"
  by unfold_locales (auto simp: validMetadataKey_storage_def storage_constants char_class_graphic)

definition validText :: "string \<Rightarrow> nat \<Rightarrow> bool" where
  "validText value limit = text_ok value limit"

text \<open>\<open>parses\<close> tells whether \<open>mime.ParseMediaType\<close> gives no error.\<close>

definition Metadata_Validate :: "(string \<Rightarrow> bool) \<Rightarrow> obj_metadata \<Rightarrow> storage_error option" where
  "Metadata_Validate parses m =
     (if \<not> validText (ContentType m) MaxContentTypeBytes \<or> \<not> validText (CacheControl m) MaxCacheControlBytes
      then Some ErrInvalidMetadata
      else if ContentType m \<noteq> [] \<and> \<not> parses (ContentType m) then Some ErrInvalidMetadata
      else if length (vals m) > MaxMetadataEntries_storage then Some ErrInvalidMetadata
      else if \<not> metadata_scan validMetadataKey_storage (\<lambda>v. validText v MaxMetadataValueBytes_storage)
                  MaxMetadataBytes_storage (length (ContentType m) + length (CacheControl m)) (vals m)
      then Some ErrInvalidMetadata else None)"

text \<open>\<open>None\<close> is the nil map.\<close>

definition NewMetadata :: "(string \<Rightarrow> bool) \<Rightarrow> string \<Rightarrow> string \<Rightarrow> entries option \<Rightarrow> storage_error + obj_metadata" where
  "NewMetadata parses contentType cacheControl vs =
     (let m = \<lparr>ContentType = contentType, CacheControl = cacheControl,
               vals = (case vs of None \<Rightarrow> [] | Some vs \<Rightarrow> copy_entries vs)\<rparr> in
      case Metadata_Validate parses m of Some err \<Rightarrow> Inl err | None \<Rightarrow> Inr m)"

definition Values :: "obj_metadata \<Rightarrow> entries option" where
  "Values m = (if length (vals m) = 0 then None else Some (copy_entries (vals m)))"

definition NewValue :: "(string \<Rightarrow> bool) \<Rightarrow> body_arg \<Rightarrow> int \<Rightarrow> obj_metadata \<Rightarrow> storage_error + obj_value" where
  "NewValue parses b declared m =
     (case b of
        NilReader \<Rightarrow> Inl ErrInvalidValue
      | TypedNilReader \<Rightarrow> Inl ErrInvalidValue
      | Body r \<Rightarrow>
          if declared < 0 \<or> declared > MaxValueBytes then Inl ErrInvalidValue
          else case Metadata_Validate parses m of
            Some err \<Rightarrow> Inl err
          | None \<Rightarrow> Inr \<lparr>body = r, val_size = declared, val_metadata = m\<rparr>)"

definition Value_Reader :: "obj_value \<Rightarrow> reader" where
  "Value_Reader v = LimitReader (body v) (val_size v + 1)"

definition Value_Size :: "obj_value \<Rightarrow> int" where "Value_Size v = val_size v"
definition Value_Metadata :: "obj_value \<Rightarrow> obj_metadata" where "Value_Metadata v = val_metadata v"

definition Object_Validate :: "(string \<Rightarrow> bool) \<Rightarrow> object \<Rightarrow> storage_error option" where
  "Object_Validate parses x =
     (case Key_Validate (Key x) of
        Some err \<Rightarrow> Some err
      | None \<Rightarrow>
          if Size x < 0 \<or> Size x > MaxValueBytes then Some ErrInvalidValue
          else Metadata_Validate parses (Metadata x))"


section \<open>The key loop\<close>

definition segment_ok :: "string \<Rightarrow> bool" where
  "segment_ok p \<longleftrightarrow> p \<noteq> [] \<and> p \<noteq> ''.'' \<and> p \<noteq> ''..''"

definition segments :: "string \<Rightarrow> string list" where
  "segments value = split_byte SLASH value"

lemma good_key_char_ascii: "\<not> bad_key_char c \<Longrightarrow> ascii c"
  by (auto simp: bad_key_char_def dest!: alnum_graphic) (auto simp: graphic_def ascii_def byte_def)

lemma slice_Suc: "s \<le> i \<Longrightarrow> i < length v \<Longrightarrow> byte_slice s (Suc i) v = byte_slice s i v @ [v ! i]"
  by (simp add: byte_slice_def Suc_diff_le take_Suc_conv_app_nth)

lemma slice_same [simp]: "byte_slice i i v = []"
  by (simp add: byte_slice_def)

lemma slice_Nil_iff: "s \<le> i \<Longrightarrow> i < length v \<Longrightarrow> byte_slice s i v = [] \<longleftrightarrow> i = s"
  by (auto simp: byte_slice_def)

lemma drop_slice: "s \<le> i \<Longrightarrow> i \<le> length v \<Longrightarrow> drop s v = byte_slice s i v @ drop i v"
  by (metis append_take_drop_id drop_drop le_add_diff_inverse2 byte_slice_def)

text \<open>The loop checks every byte and every segment but the last, where it leaves its start.\<close>

lemma key_scan_spec:
  "s \<le> i \<Longrightarrow> i \<le> length v \<Longrightarrow> SLASH \<notin> set (byte_slice s i v) \<Longrightarrow>
   key_scan v i s =
     (if (\<forall>c \<in> set (drop i v). \<not> bad_key_char c) \<and> list_all segment_ok (butlast (segments (drop s v)))
      then Some (length v - length (last (segments (drop s v)))) else None)"
proof (induction v i s rule: key_scan.induct)
  case (1 v i s)
  show ?case
  proof (cases "i < length v")
    case False
    then have "i = length v" "segments (drop s v) = [drop s v]"
      using 1 drop_slice [of s i v] by (auto simp: segments_def)
    then show ?thesis using 1 by (subst key_scan.simps) simp
  next
    case True
    define c where "c = v ! i"
    have d: "drop i v = c # drop (Suc i) v" using True by (simp add: c_def Cons_nth_drop_Suc)
    have split: "drop s v = byte_slice s i v @ c # drop (Suc i) v"
      using drop_slice [of s i v] 1(3) True d by simp
    show ?thesis
    proof (cases "bad_key_char c")
      case True
      then show ?thesis using \<open>i < length v\<close> d by (subst key_scan.simps) (simp add: c_def Let_def)
    next
      case good: False
      then have w: "i + rune_width (drop i v) = Suc i"
        using good_key_char_ascii [OF good] by (simp add: d)
      show ?thesis
      proof (cases "c = SLASH")
        case False
        have IH: "key_scan v (Suc i) s =
            (if (\<forall>c \<in> set (drop (Suc i) v). \<not> bad_key_char c) \<and> list_all segment_ok (butlast (segments (drop s v)))
             then Some (length v - length (last (segments (drop s v)))) else None)"
          using 1(1) [of c "Suc i"] 1(3-5) True good False w slice_Suc [of s i v]
          by (simp add: c_def)
        show ?thesis
          using True good False w IH d by (subst key_scan.simps) (simp add: c_def Let_def)
      next
        case slash: True
        have IH: "key_scan v (Suc i) (Suc i) =
            (if (\<forall>c \<in> set (drop (Suc i) v). \<not> bad_key_char c) \<and>
                list_all segment_ok (butlast (segments (drop (Suc i) v)))
             then Some (length v - length (last (segments (drop (Suc i) v)))) else None)"
          if "segment_ok (byte_slice s i v)"
          using 1(2) [of c "Suc i"] 1(3,4) True good slash w that [unfolded segment_ok_def] slice_Nil_iff [of s i v]
          by (auto simp: c_def)
        have seg: "segments (drop s v) = byte_slice s i v # segments (drop (Suc i) v)"
          using split slash 1(5) by (simp add: segments_def)
        have seg_ok: "segment_ok (byte_slice s i v) \<longleftrightarrow>
            i \<noteq> s \<and> byte_slice s i v \<noteq> ''.'' \<and> byte_slice s i v \<noteq> ''..''"
          using slice_Nil_iff [of s i v] 1(3) True by (simp add: segment_ok_def)
        have "segments (drop (Suc i) v) \<noteq> []" by (simp add: segments_def)
        then show ?thesis
          using True good slash w IH d seg 1(3) slice_Nil_iff [of s i v]
          by (subst key_scan.simps) (auto simp: c_def Let_def seg_ok)
      qed
    qed
  qed
qed

lemma split_snoc:
  "split_byte c (v @ [d]) = (if d = c then split_byte c v @ [[]]
     else butlast (split_byte c v) @ [last (split_byte c v) @ [d]])"
proof (induction v)
  case (Cons e v)
  then show ?case by (cases "split_byte c v") auto
qed simp

lemma drop_last_segment: "drop (length v - length (last (split_byte c v))) v = last (split_byte c v)"
proof -
  have "\<exists>p. v = p @ last (split_byte c v)"
    by (induction v rule: rev_induct) (auto simp: split_snoc)
  then obtain p where "v = p @ last (split_byte c v)" by blast
  then show ?thesis by (metis append_eq_conv_conj diff_add_inverse2 length_append)
qed

lemma last_segment_Nil: "v \<noteq> [] \<Longrightarrow> last (split_byte c v) = [] \<longleftrightarrow> last v = c"
  by (cases v rule: rev_cases) (auto simp: split_snoc)

lemma hd_segment_Nil: "v \<noteq> [] \<Longrightarrow> hd (split_byte c v) = [] \<longleftrightarrow> hd v = c"
  by (cases v) (auto split: list.splits)


section \<open>Properties\<close>

definition key_ok :: "string \<Rightarrow> bool" where
  "key_ok v \<longleftrightarrow> length v \<le> 1024 \<and> list_all (\<lambda>c. \<not> bad_key_char c) v \<and> list_all segment_ok (segments v)"

lemma list_all_butlast_last: "xs \<noteq> [] \<Longrightarrow> list_all P xs \<longleftrightarrow> list_all P (butlast xs) \<and> P (last xs)"
  by (induction xs rule: rev_induct) auto

lemma Key_Validate_ok: "Key_Validate v = None \<longleftrightarrow> key_ok v"
proof (cases "v = []")
  case True
  then show ?thesis by (simp add: Key_Validate_def key_ok_def segments_def segment_ok_def)
next
  case False
  let ?last = "last (segments v)"
  have ne: "segments v \<noteq> []" by (simp add: segments_def)
  have drop: "drop (length v - length ?last) v = ?last" by (simp add: segments_def drop_last_segment)
  have ends: "v ! 0 = SLASH \<longleftrightarrow> hd (segments v) = []" "v ! (length v - 1) = SLASH \<longleftrightarrow> ?last = []"
    using False hd_segment_Nil [of v SLASH] last_segment_Nil [of v SLASH]
    by (simp_all add: segments_def hd_conv_nth last_conv_nth)
  have first: "list_all segment_ok (segments v) \<Longrightarrow> hd (segments v) \<noteq> []"
    using ne by (cases "segments v") (auto simp: segment_ok_def)
  have scan: "key_scan v 0 0 = (if (\<forall>c \<in> set v. \<not> bad_key_char c) \<and> list_all segment_ok (butlast (segments v))
      then Some (length v - length ?last) else None)"
    using key_scan_spec [of 0 0 v] by simp
  show ?thesis
    using False ends first list_all_butlast_last [OF ne, of segment_ok] drop
    unfolding Key_Validate_def key_ok_def scan
    by (auto simp: MaxKeyBytes_def list_all_iff segment_ok_def)
qed

lemma ParseKey_ok: "ParseKey v = Inr k \<longleftrightarrow> k = v \<and> key_ok v"
  using Key_Validate_ok [of v] by (auto simp: ParseKey_def split: option.splits)

text \<open>
  \<open>ParseKey\<close> accepts exactly the keys of at most 1024 bytes whose bytes are ASCII letters,
  digits, \<open>.\<close>, \<open>_\<close>, \<open>-\<close> and \<open>/\<close> and whose segments between slashes are none of the
  empty one, \<open>.\<close> and \<open>..\<close>, and gives them back unchanged: the loop over runes with its segment
  start agrees with this reading of the split key.
\<close>

theorem ParseKey_iff:
  "(ParseKey v = Inr k) = (k = v \<and> length v \<le> 1024 \<and> list_all (\<lambda>c. \<not> bad_key_char c) v \<and>
     list_all segment_ok (split_byte SLASH v))"
  unfolding ParseKey_ok key_ok_def segments_def by (rule refl)

text \<open>Resolving a path below a directory the way a file system does, step by step.\<close>

fun walk :: "string list \<Rightarrow> string list \<Rightarrow> string list" where
  "walk dir [] = dir"
| "walk dir (p # ps) =
     (if p = [] \<or> p = ''.'' then walk dir ps
      else if p = ''..'' then walk (butlast dir) ps
      else walk (dir @ [p]) ps)"

lemma walk_ok: "list_all segment_ok ps \<Longrightarrow> walk dir ps = dir @ ps"
  by (induction ps arbitrary: dir) (auto simp: segment_ok_def)

text \<open>
  C20. Keys are safe and unambiguous as paths: an accepted key, resolved below any directory, never
  leaves it and names exactly its own segments, and two accepted keys that resolve to the same
  place are the same key.
\<close>

theorem ParseKey_path_safe:
  assumes "ParseKey v = Inr k" "ParseKey v' = Inr k'"
  shows "walk dir (segments k) = dir @ segments k \<and>
    (walk dir (segments k) = walk dir (segments k') \<longrightarrow> k = k')"
proof -
  have ok: "list_all segment_ok (segments k)" "list_all segment_ok (segments k')"
    using assms by (simp_all add: ParseKey_ok key_ok_def)
  have "k = k'" if "segments k = segments k'"
    using arg_cong [OF that, of "join_bytes [SLASH]"] by (simp add: segments_def)
  with ok show ?thesis by (simp add: walk_ok)
qed

theorem ParseKey_path_safe_witness:
  "walk [''srv'', ''data''] (segments ''a/b.txt'') = [''srv'', ''data'', ''a'', ''b.txt'']"
proof -
  have "ParseKey ''a/b.txt'' = Inr ''a/b.txt''"
    by (simp add: ParseKey_ok key_ok_def segments_def segment_ok_def bad_key_char_def not_alnum_def
        outside_byte byte_def)
  from ParseKey_path_safe [OF this this, of "[''srv'', ''data'']"] show ?thesis by (simp add: segments_def)
qed

definition metadata_bounded :: "(string \<Rightarrow> bool) \<Rightarrow> obj_metadata \<Rightarrow> bool" where
  "metadata_bounded parses m \<longleftrightarrow> text_ok (ContentType m) 256 \<and> text_ok (CacheControl m) 512 \<and>
     (ContentType m = [] \<or> parses (ContentType m)) \<and> length (vals m) \<le> 32 \<and>
     list_all (\<lambda>(k, v). validMetadataKey_storage k \<and> text_ok v 1024) (vals m) \<and>
     length (ContentType m) + length (CacheControl m) + metadata_size (vals m) \<le> 8192"

lemma Metadata_Validate_ok: "Metadata_Validate parses m = None \<longleftrightarrow> metadata_bounded parses m"
proof (cases "text_ok (ContentType m) 256 \<and> text_ok (CacheControl m) 512")
  case True
  then have "length (ContentType m) + length (CacheControl m) \<le> MaxMetadataBytes_storage"
    by (auto simp: text_ok_iff storage_constants)
  from metadata_scan_iff [OF this] True show ?thesis
    by (auto simp: Metadata_Validate_def metadata_bounded_def validText_def storage_constants list_all_iff)
next
  case False
  then show ?thesis by (auto simp: Metadata_Validate_def metadata_bounded_def validText_def storage_constants)
qed

text \<open>
  \<open>Metadata.Validate\<close> accepts exactly bounded metadata, whatever order the runtime visits the
  user values in, and \<open>NewMetadata\<close> of the copied values is accepted exactly then; so are objects,
  with a valid key and a size of 0 to 64 MiB.
\<close>

theorem Metadata_Validate_bounded:
  assumes "mset (vals m') = mset (vals m)" "ContentType m' = ContentType m" "CacheControl m' = CacheControl m"
    "go_map (vals m)"
  shows "(Metadata_Validate parses m' = None) = metadata_bounded parses m \<and>
    (NewMetadata parses (ContentType m) (CacheControl m) (Some (vals m)) = Inr m) = metadata_bounded parses m \<and>
    (Object_Validate parses \<lparr>Key = k, Size = n, Metadata = m'\<rparr> = None) =
      (key_ok k \<and> 0 \<le> n \<and> n \<le> 67108864 \<and> metadata_bounded parses m)"
proof -
  have "metadata_bounded parses m' = metadata_bounded parses m"
    using assms(2,3) mset_eq_length [OF assms(1)] metadata_size_perm [OF assms(1)] mset_eq_setD [OF assms(1)]
    by (simp add: metadata_bounded_def list_all_iff)
  moreover have "Metadata_Validate parses m = None \<longleftrightarrow>
      NewMetadata parses (ContentType m) (CacheControl m) (Some (vals m)) = Inr m"
    using assms(4) by (cases m) (auto simp: NewMetadata_def Let_def split: option.splits)
  moreover have "(Object_Validate parses \<lparr>Key = k, Size = n, Metadata = m'\<rparr> = None) \<longleftrightarrow>
      key_ok k \<and> 0 \<le> n \<and> n \<le> 67108864 \<and> Metadata_Validate parses m' = None"
    using Key_Validate_ok [of k] by (auto simp: Object_Validate_def MaxValueBytes_def split: option.splits)
  ultimately show ?thesis by (simp add: Metadata_Validate_ok)
qed

text \<open>
  A provider that reads a value to its end learns whether the body has the declared size, and
  reads at most one byte more than declared, never more than 64 MiB and one: the bytes read have
  the declared length exactly if the body has, and then they are the whole body.
\<close>

theorem NewValue_exact_size:
  assumes "NewValue parses (Body r) n m = Inr v" "ReadAll (Value_Reader v) = Inr d"
  shows "int (length d) \<le> n + 1 \<and> n + 1 \<le> 67108865 \<and>
    (int (length d) = n) = (int (length (rd_data r)) = n) \<and> (int (length d) = n \<longrightarrow> d = rd_data r)"
proof -
  have v: "body v = r" "val_size v = n" "0 \<le> n" "n \<le> 67108864"
    using assms(1) by (auto simp: NewValue_def MaxValueBytes_def split: if_splits option.splits)
  have "limit_read_all r (n + 1) = Inr d"
    using assms(2) v by (simp add: Value_Reader_def limit_read_all_def)
  from limited_length [OF this v(3)] v show ?thesis by auto
qed

definition demo_metadata :: obj_metadata where
  "demo_metadata = \<lparr>ContentType = [], CacheControl = [], vals = []\<rparr>"

lemma demo_metadata_ok: "metadata_bounded parses demo_metadata"
  by (simp add: metadata_bounded_def demo_metadata_def metadata_size_def)

theorem Metadata_Validate_bounded_witness:
  "NewMetadata (\<lambda>_. False) [] [] (Some []) = Inr demo_metadata \<and> go_map (vals demo_metadata)"
  using Metadata_Validate_bounded [of demo_metadata demo_metadata "\<lambda>_. False" "''a''" 1] demo_metadata_ok
  by (simp add: demo_metadata_def)

theorem NewValue_exact_size_witness:
  "int (length ''abc'') \<le> 2 + 1 \<and>
   ReadAll (Value_Reader \<lparr>body = \<lparr>rd_data = ''abcdef'', rd_err = None\<rparr>, val_size = 2, val_metadata = demo_metadata\<rparr>)
     = Inr ''abc''"
proof -
  let ?r = "\<lparr>rd_data = ''abcdef'', rd_err = None\<rparr>"
  let ?v = "\<lparr>body = ?r, val_size = 2, val_metadata = demo_metadata\<rparr>"
  have n: "NewValue (\<lambda>_. False) (Body ?r) 2 demo_metadata = Inr ?v"
    using demo_metadata_ok Metadata_Validate_ok [of "\<lambda>_. False" demo_metadata]
    by (simp add: NewValue_def MaxValueBytes_def)
  have d: "ReadAll (Value_Reader ?v) = Inr ''abc''"
    by (simp add: ReadAll_def Value_Reader_def LimitReader_def)
  from NewValue_exact_size [OF n d] d show ?thesis by blast
qed

end
