(* ===== verification/Mail.thy ===== *)
theory Mail
  imports Metadata_Map
begin

text \<open>
  \<open>mail/mail.go\<close>: outgoing messages. \<open>netmail.ParseAddress\<close> is a parameter, the address it
  parsed or nothing, of which nothing is assumed.
\<close>

section \<open>Data\<close>

datatype mail_error = ErrInvalidAddress | ErrInvalidMessage | ErrSenderUnavailable | SenderErr string

record address =
  Name :: string
  Email :: string

record message =
  From :: address
  To :: "address list"
  CC :: "address list"
  BCC :: "address list"
  ReplyTo :: "address option"
  Subject :: string
  Text :: string
  HTML :: string

definition MaxAddressBytes :: nat where "MaxAddressBytes = 320"
definition MaxNameBytes :: nat where "MaxNameBytes = 256"
definition MaxRecipients :: nat where "MaxRecipients = 100"
definition MaxSubjectBytes :: nat where "MaxSubjectBytes = 998"
definition MaxBodyBytes :: nat where "MaxBodyBytes = 1048576"

lemmas mail_constants = MaxAddressBytes_def MaxNameBytes_def MaxRecipients_def MaxSubjectBytes_def
  MaxBodyBytes_def

type_synonym address_parser = "string \<Rightarrow> string option"

section \<open>Checks\<close>

definition validHeaderText :: "string \<Rightarrow> nat \<Rightarrow> bool" where
  "validHeaderText value limit = text_ok value limit"

definition validBody :: "string \<Rightarrow> bool" where
  "validBody value \<longleftrightarrow> length value \<le> MaxBodyBytes \<and> valid_utf8 value"

definition Address_Validate :: "address_parser \<Rightarrow> address \<Rightarrow> mail_error option" where
  "Address_Validate parse a =
     (if length (Email a) = 0 \<or> length (Email a) > MaxAddressBytes \<or> \<not> validHeaderText (Email a) MaxAddressBytes
      then Some ErrInvalidAddress
      else case parse (Email a) of
        None \<Rightarrow> Some ErrInvalidAddress
      | Some parsed \<Rightarrow>
          if parsed \<noteq> Email a then Some ErrInvalidAddress
          else if \<not> validHeaderText (Name a) MaxNameBytes then Some ErrInvalidAddress
          else None)"

fun recipients_valid :: "address_parser \<Rightarrow> address list \<Rightarrow> bool" where
  "recipients_valid parse [] = True"
| "recipients_valid parse (r # rest) =
     (if Address_Validate parse r \<noteq> None then False else recipients_valid parse rest)"

fun groups_valid :: "address_parser \<Rightarrow> address list list \<Rightarrow> bool" where
  "groups_valid parse [] = True"
| "groups_valid parse (g # rest) = (if \<not> recipients_valid parse g then False else groups_valid parse rest)"

definition Message_Validate :: "address_parser \<Rightarrow> message \<Rightarrow> mail_error option" where
  "Message_Validate parse m =
     (if Address_Validate parse (From m) \<noteq> None then Some ErrInvalidMessage
      else let n = length (To m) + length (CC m) + length (BCC m) in
      if n = 0 \<or> n > MaxRecipients then Some ErrInvalidMessage
      else if \<not> groups_valid parse [To m, CC m, BCC m] then Some ErrInvalidMessage
      else if (case ReplyTo m of None \<Rightarrow> False | Some a \<Rightarrow> Address_Validate parse a \<noteq> None)
      then Some ErrInvalidMessage
      else if \<not> validHeaderText (Subject m) MaxSubjectBytes \<or> \<not> validBody (Text m) \<or> \<not> validBody (HTML m) \<or>
              length (Text m) + length (HTML m) > MaxBodyBytes
      then Some ErrInvalidMessage else None)"

text \<open>\<open>SenderFunc.Send\<close>, with the list of messages the function was called with.\<close>

definition SenderFunc_Send ::
  "address_parser \<Rightarrow> (message \<Rightarrow> mail_error option) option \<Rightarrow> message \<Rightarrow> mail_error option \<times> message list" where
  "SenderFunc_Send parse f m =
     (case f of None \<Rightarrow> (Some ErrSenderUnavailable, [])
      | Some g \<Rightarrow> (case Message_Validate parse m of Some err \<Rightarrow> (Some err, []) | None \<Rightarrow> (g m, [m])))"

interpretation mail_sender: validated_sink "SenderFunc_Send parse" "Message_Validate parse" ErrSenderUnavailable for parse
  by unfold_locales (simp_all add: SenderFunc_Send_def)

section \<open>Lemmas\<close>

lemma recipients_valid_iff: "recipients_valid parse g \<longleftrightarrow> list_all (\<lambda>a. Address_Validate parse a = None) g"
  by (induction g) auto

lemma groups_valid_iff: "groups_valid parse gs \<longleftrightarrow> list_all (\<lambda>a. Address_Validate parse a = None) (concat gs)"
  by (induction gs) (auto simp: recipients_valid_iff)

text \<open>Every address of a message, in the order in which it is checked.\<close>

definition addresses :: "message \<Rightarrow> address list" where
  "addresses m = From m # To m @ CC m @ BCC m @ (case ReplyTo m of None \<Rightarrow> [] | Some a \<Rightarrow> [a])"

definition address_safe :: "address_parser \<Rightarrow> address \<Rightarrow> bool" where
  "address_safe parse a \<longleftrightarrow> Email a \<noteq> [] \<and> parse (Email a) = Some (Email a) \<and>
     text_ok (Email a) 320 \<and> text_ok (Name a) 256"

definition message_safe :: "address_parser \<Rightarrow> message \<Rightarrow> bool" where
  "message_safe parse m \<longleftrightarrow> list_all (address_safe parse) (addresses m) \<and>
     To m @ CC m @ BCC m \<noteq> [] \<and> length (To m @ CC m @ BCC m) \<le> 100 \<and> text_ok (Subject m) 998 \<and>
     valid_utf8 (Text m) \<and> valid_utf8 (HTML m) \<and> length (Text m @ HTML m) \<le> 1048576"

lemma Address_Validate_iff: "Address_Validate parse a = None \<longleftrightarrow> address_safe parse a"
  by (auto simp: Address_Validate_def address_safe_def mail_constants validHeaderText_def text_ok_iff
      split: option.splits if_splits)

lemma Message_Validate_iff: "Message_Validate parse m = None \<longleftrightarrow> message_safe parse m"
  by (auto simp: Message_Validate_def message_safe_def addresses_def Address_Validate_iff groups_valid_iff
      list_all_iff mail_constants validHeaderText_def validBody_def Let_def split: option.splits if_splits)

text \<open>No byte that could end a header line is in an address or a subject that was accepted.\<close>

definition header_values :: "message \<Rightarrow> string list" where
  "header_values m = Subject m # concat (map (\<lambda>a. [Name a, Email a]) (addresses m))"

lemma safe_headers: "message_safe parse m \<Longrightarrow> v \<in> set (header_values m) \<Longrightarrow> CR \<notin> set v \<and> LF \<notin> set v \<and> NUL \<notin> set v"
  by (auto simp: message_safe_def header_values_def list_all_iff address_safe_def text_ok_iff)

section \<open>Properties\<close>

text \<open>
  C34. A function behind \<open>SenderFunc\<close> is handed exactly the caller's message, once, and only when
  its sender, its 1 to 100 recipients over the three lists and its optional reply address are bare
  parsed addresses within their limits, and the subject and the two bodies together are bounded
  UTF-8; no subject, name or address it sees has a CR, LF or NUL, so none can start a header.
\<close>

theorem SenderFunc_sees_safe_messages:
  "((m' \<in> set (snd (SenderFunc_Send parse f m))) = (m' = m \<and> f \<noteq> None \<and> message_safe parse m)) \<and>
   (m' \<in> set (snd (SenderFunc_Send parse f m)) \<and> v \<in> set (header_values m') \<longrightarrow>
      CR \<notin> set v \<and> LF \<notin> set v \<and> NUL \<notin> set v) \<and>
   length (snd (SenderFunc_Send parse f m)) \<le> 1 \<and>
   (fst (SenderFunc_Send parse f m) = None) =
     (\<exists>g. f = Some g \<and> m \<in> set (snd (SenderFunc_Send parse f m)) \<and> g m = None)"
proof -
  have calls: "(m' \<in> set (snd (SenderFunc_Send parse f m))) = (m' = m \<and> f \<noteq> None \<and> message_safe parse m)" for m'
    using mail_sender.sink_sees_valid [of m' parse f m] mail_sender.handed_over [of parse m]
      Message_Validate_iff [of parse m] by (cases f) auto
  show ?thesis
    using mail_sender.sent_iff [of parse f m] mail_sender.at_most_one_call [of parse f m]
      safe_headers [of parse m v]
    unfolding calls Message_Validate_iff by auto
qed

definition demo_message :: message where
  "demo_message = \<lparr>From = \<lparr>Name = ''Ann'', Email = ''a@x.io''\<rparr>, To = [\<lparr>Name = [], Email = ''b@x.io''\<rparr>], CC = [],
     BCC = [], ReplyTo = None, Subject = ''Hi'', Text = ''Hello'', HTML = []\<rparr>"

theorem SenderFunc_sees_safe_messages_witness:
  "demo_message \<in> set (snd (SenderFunc_Send Some (Some (\<lambda>_. None)) demo_message)) \<and>
   ''Hi'' \<in> set (header_values demo_message) \<and> LF \<notin> set ''Hi''"
proof -
  have "message_safe Some demo_message"
    by (simp add: message_safe_def demo_message_def addresses_def address_safe_def text_ok_def
        contains_any_def eol_chars ascii_def byte_def)
  moreover have "''Hi'' \<in> set (header_values demo_message)"
    by (simp add: header_values_def demo_message_def)
  ultimately show ?thesis
    using SenderFunc_sees_safe_messages [of demo_message Some "Some (\<lambda>_. None)" demo_message "''Hi''"] by blast
qed

end
