(* ===== verification/Billing.thy ===== *)
theory Billing
  imports Validators
begin

text \<open>
  \<open>billing/billing.go\<close>: provider-neutral checkout, subscription and usage values.
  \<open>url.ParseRequestURI\<close> is a parameter: what it parsed, or nothing; nothing is assumed of it.
\<close>

section \<open>Data\<close>

datatype billing_error = ErrInvalidRequest | ErrInvalidSubscription | ErrInvalidUsage

record checkout_request =
  cr_CustomerID :: string
  cr_PriceID :: string
  SuccessURL :: string
  CancelURL :: string

record checkout =
  co_ID :: string
  URL :: string

text \<open>A status is a string; the constants are four of them.\<close>

definition SubscriptionTrialing :: string where "SubscriptionTrialing = ''trialing''"
definition SubscriptionActive :: string where "SubscriptionActive = ''active''"
definition SubscriptionPastDue :: string where "SubscriptionPastDue = ''past_due''"
definition SubscriptionCanceled :: string where "SubscriptionCanceled = ''canceled''"

record subscription =
  sub_ID :: string
  sub_CustomerID :: string
  sub_PriceID :: string
  Status :: string
  CurrentEnd :: time

record usage =
  us_ID :: string
  us_CustomerID :: string
  Metric :: string
  us_Quantity :: int
  us_OccurredAt :: time

record parsed_url =
  has_user :: bool
  Host :: string
  Scheme :: string

type_synonym url_parser = "string \<Rightarrow> parsed_url option"

definition maxIdentifierBytes_billing :: nat where "maxIdentifierBytes_billing = 128"
definition maxURLBytes :: nat where "maxURLBytes = 2048"
definition maxQuantity :: int where "maxQuantity = 1000000000"

section \<open>Checks\<close>

definition validIdentifier_billing :: "string \<Rightarrow> bool" where
  "validIdentifier_billing value =
     (if length value = 0 \<or> length value > maxIdentifierBytes_billing then False
      else list_all (\<lambda>c. \<not> (not_alnum c \<and> c \<noteq> CHR ''-'' \<and> c \<noteq> CHR ''_'' \<and> c \<noteq> CHR ''.'' \<and> c \<noteq> CHR '':''))
             (lead_bytes value))"

interpretation billing_id: byte_validator validIdentifier_billing 128
  "\<lambda>c. \<not> (not_alnum c \<and> c \<noteq> CHR ''-'' \<and> c \<noteq> CHR ''_'' \<and> c \<noteq> CHR ''.'' \<and> c \<noteq> CHR '':'')"
  by unfold_locales (auto simp: validIdentifier_billing_def maxIdentifierBytes_billing_def char_class_graphic)

definition validReturnURL :: "url_parser \<Rightarrow> string \<Rightarrow> bool" where
  "validReturnURL parse value =
     (if length value = 0 \<or> length value > maxURLBytes then False
      else case parse value of
        None \<Rightarrow> False
      | Some parsed \<Rightarrow>
          if has_user parsed \<or> Host parsed = [] \<or> (Scheme parsed \<noteq> ''https'' \<and> Scheme parsed \<noteq> ''http'') then False
          else \<not> contains_any value [CR, LF, NUL])"

definition validStatus :: "string \<Rightarrow> bool" where
  "validStatus status \<longleftrightarrow>
     status = SubscriptionTrialing \<or> status = SubscriptionActive \<or> status = SubscriptionPastDue \<or>
     status = SubscriptionCanceled"

definition CheckoutRequest_Validate :: "url_parser \<Rightarrow> checkout_request \<Rightarrow> billing_error option" where
  "CheckoutRequest_Validate parse r =
     (if \<not> validIdentifier_billing (cr_CustomerID r) \<or> \<not> validIdentifier_billing (cr_PriceID r) \<or>
         \<not> validReturnURL parse (SuccessURL r) \<or> \<not> validReturnURL parse (CancelURL r)
      then Some ErrInvalidRequest else None)"

definition Checkout_Validate :: "url_parser \<Rightarrow> checkout \<Rightarrow> billing_error option" where
  "Checkout_Validate parse c =
     (if \<not> validIdentifier_billing (co_ID c) \<or> \<not> validReturnURL parse (URL c) then Some ErrInvalidRequest else None)"

definition Subscription_Validate :: "subscription \<Rightarrow> billing_error option" where
  "Subscription_Validate s =
     (if \<not> validIdentifier_billing (sub_ID s) \<or> \<not> validIdentifier_billing (sub_CustomerID s) \<or>
         \<not> validIdentifier_billing (sub_PriceID s) \<or> \<not> validStatus (Status s) \<or> is_zero (CurrentEnd s)
      then Some ErrInvalidSubscription else None)"

definition Usage_Validate :: "usage \<Rightarrow> billing_error option" where
  "Usage_Validate u =
     (if \<not> validIdentifier_billing (us_ID u) \<or> \<not> validIdentifier_billing (us_CustomerID u) \<or>
         \<not> validIdentifier_billing (Metric u) \<or> us_Quantity u < 1 \<or> us_Quantity u > maxQuantity \<or>
         is_zero (us_OccurredAt u)
      then Some ErrInvalidUsage else None)"

section \<open>Properties\<close>

text \<open>What a redirect target must be.\<close>

definition url_safe_target :: "url_parser \<Rightarrow> string \<Rightarrow> bool" where
  "url_safe_target parse v \<longleftrightarrow> v \<noteq> [] \<and> length v \<le> 2048 \<and> CR \<notin> set v \<and> LF \<notin> set v \<and> NUL \<notin> set v \<and>
     (\<exists>u. parse v = Some u \<and> \<not> has_user u \<and> Host u \<noteq> [] \<and> Scheme u \<in> {''http'', ''https''})"

lemma validReturnURL_iff: "validReturnURL parse v \<longleftrightarrow> url_safe_target parse v"
  by (auto simp: validReturnURL_def url_safe_target_def maxURLBytes_def contains_any_def list_ex_iff split: option.splits)

definition plain_id :: "string \<Rightarrow> bool" where
  "plain_id v \<longleftrightarrow> v \<noteq> [] \<and> length v \<le> 128 \<and>
     list_all (\<lambda>c. \<not> not_alnum c \<or> c \<in> {CHR ''-'', CHR ''_'', CHR ''.'', CHR '':''}) v"

lemma validIdentifier_billing_iff: "validIdentifier_billing v \<longleftrightarrow> plain_id v"
  by (auto simp: billing_id.valid_iff plain_id_def list_all_iff)

text \<open>
  Billing values are accepted exactly when they are safe to hand on: plain identifiers of at
  most 128 bytes; redirect targets that are absolute http or https URLs with a host, without
  credentials, of at most 2048 bytes and without CR, LF or NUL, so that none can split a Location
  header; one of the four states and an end for a subscription; a time and a quantity of 1 to a
  thousand million for usage.
\<close>

theorem Billing_accepts_safe_values:
  "(CheckoutRequest_Validate parse r = None) = (plain_id (cr_CustomerID r) \<and> plain_id (cr_PriceID r) \<and>
      url_safe_target parse (SuccessURL r) \<and> url_safe_target parse (CancelURL r)) \<and>
   (Checkout_Validate parse c = None) = (plain_id (co_ID c) \<and> url_safe_target parse (URL c)) \<and>
   (Subscription_Validate s = None) = (list_all plain_id [sub_ID s, sub_CustomerID s, sub_PriceID s] \<and>
      Status s \<in> {''trialing'', ''active'', ''past_due'', ''canceled''} \<and> CurrentEnd s \<noteq> 0) \<and>
   (Usage_Validate u = None) = (list_all plain_id [us_ID u, us_CustomerID u, Metric u] \<and>
      us_Quantity u \<in> {1..1000000000} \<and> us_OccurredAt u \<noteq> 0)"
proof (intro conjI)
  show "(CheckoutRequest_Validate parse r = None) = (plain_id (cr_CustomerID r) \<and> plain_id (cr_PriceID r) \<and>
      url_safe_target parse (SuccessURL r) \<and> url_safe_target parse (CancelURL r))"
    by (simp add: CheckoutRequest_Validate_def validReturnURL_iff validIdentifier_billing_iff)
  show "(Checkout_Validate parse c = None) = (plain_id (co_ID c) \<and> url_safe_target parse (URL c))"
    by (simp add: Checkout_Validate_def validReturnURL_iff validIdentifier_billing_iff)
  show "(Subscription_Validate s = None) = (list_all plain_id [sub_ID s, sub_CustomerID s, sub_PriceID s] \<and>
      Status s \<in> {''trialing'', ''active'', ''past_due'', ''canceled''} \<and> CurrentEnd s \<noteq> 0)"
    by (auto simp: Subscription_Validate_def validIdentifier_billing_iff validStatus_def is_zero_def
        SubscriptionTrialing_def SubscriptionActive_def SubscriptionPastDue_def SubscriptionCanceled_def)
  show "(Usage_Validate u = None) = (list_all plain_id [us_ID u, us_CustomerID u, Metric u] \<and>
      us_Quantity u \<in> {1..1000000000} \<and> us_OccurredAt u \<noteq> 0)"
    by (auto simp: Usage_Validate_def validIdentifier_billing_iff is_zero_def maxQuantity_def)
qed

end
