(* ===== verification/Database.thy ===== *)
theory Database
  imports Go_Prelude
begin

text \<open>
  \<open>database/database.go\<close>: the ordered readiness check. A pinger answers with its error or
  none; \<open>Ready\<close> also returns the names it has pinged, in order.
\<close>

datatype 'e db_error = NilReadinessContext | InvalidDependency | DependencyErr string 'e

record ('c, 'e) dependency =
  dep_name :: string
  dep_pinger :: "('c \<Rightarrow> 'e option) option"

fun ready_loop :: "'c \<Rightarrow> ('c, 'e) dependency list \<Rightarrow> 'e db_error option \<times> string list" where
  "ready_loop ctx [] = (None, [])"
| "ready_loop ctx (d # rest) =
     (if dep_name d = [] \<or> dep_pinger d = None then (Some InvalidDependency, [])
      else case the (dep_pinger d) ctx of
        Some err \<Rightarrow> (Some (DependencyErr (dep_name d) err), [dep_name d])
      | None \<Rightarrow> (case ready_loop ctx rest of (r, pinged) \<Rightarrow> (r, dep_name d # pinged)))"

definition Ready :: "'c option \<Rightarrow> ('c, 'e) dependency list \<Rightarrow> 'e db_error option \<times> string list" where
  "Ready ctx dependencies =
     (case ctx of None \<Rightarrow> (Some NilReadinessContext, []) | Some ctx \<Rightarrow> ready_loop ctx dependencies)"

definition usable :: "('c, 'e) dependency \<Rightarrow> bool" where
  "usable d \<longleftrightarrow> dep_name d \<noteq> [] \<and> dep_pinger d \<noteq> None"

definition answers :: "'c \<Rightarrow> ('c, 'e) dependency \<Rightarrow> bool" where
  "answers ctx d \<longleftrightarrow> usable d \<and> the (dep_pinger d) ctx = None"

lemma ready_loop_append:
  "list_all (answers ctx) ds \<Longrightarrow>
   ready_loop ctx (ds @ es) = (fst (ready_loop ctx es), map dep_name ds @ snd (ready_loop ctx es))"
  by (induction ds) (auto simp: answers_def usable_def case_prod_beta)

text \<open>
  The readiness check is ordered and stops at the first failure: with a context, \<open>Ready\<close>
  pings every dependency before the first one that does not answer and no later one; it succeeds
  exactly if there is none, and otherwise reports this dependency, by name when its ping failed.
\<close>

theorem Ready_first_failure:
  "Ready (Some ctx) ds =
     (case dropWhile (answers ctx) ds of
        [] \<Rightarrow> (None, map dep_name ds)
      | d # rest \<Rightarrow>
          if usable d
          then (Some (DependencyErr (dep_name d) (the (the (dep_pinger d) ctx))),
                map dep_name (takeWhile (answers ctx) ds) @ [dep_name d])
          else (Some InvalidDependency, map dep_name (takeWhile (answers ctx) ds)))"
proof -
  have ans: "list_all (answers ctx) (takeWhile (answers ctx) ds)"
    by (auto simp: list_all_iff dest: set_takeWhileD)
  have "Ready (Some ctx) ds = ready_loop ctx (takeWhile (answers ctx) ds @ dropWhile (answers ctx) ds)"
    by (simp add: Ready_def)
  also have "\<dots> = (fst (ready_loop ctx (dropWhile (answers ctx) ds)),
      map dep_name (takeWhile (answers ctx) ds) @ snd (ready_loop ctx (dropWhile (answers ctx) ds)))"
    by (rule ready_loop_append [OF ans])
  finally have run: "Ready (Some ctx) ds = \<dots>" .
  show ?thesis
  proof (cases "dropWhile (answers ctx) ds")
    case Nil
    then have "takeWhile (answers ctx) ds = ds" by (metis append_Nil2 takeWhile_dropWhile_id)
    with run show ?thesis unfolding Nil by simp
  next
    case (Cons d rest)
    then have "\<not> answers ctx d" by (metis dropWhile_eq_Cons_conv)
    with run Cons show ?thesis
      by (cases "usable d"; cases "the (dep_pinger d) ctx") (auto simp: answers_def usable_def)
  qed
qed

end
