(* ===== verification/Http.thy ===== *)
theory Http
  imports Go_IO "HOL-Library.AList"
begin

text \<open>
  \<open>net/http\<close> as \<open>server\<close> and \<open>api\<close> use it: requests, the response writer of an HTTP/1.1
  connection with its documented rules (one final status, informational ones before it, implicit
  200, no body for some statuses, hijacking), and \<open>http.Error\<close>. A handler is a program over the
  operations of a response writer: at each operation it goes on with the reply, and it may end or
  panic; so every handler of an application is covered, and each one can be run. The flag of a
  \<open>Push\<close> is the answer a pusher gives, the chunks of a \<open>ReadFrom\<close> what the reader yields.
\<close>

section \<open>Headers and requests\<close>

text \<open>Header maps with one value per canonical name.\<close>

type_synonym headers = "(string \<times> string) list"

definition header_get :: "headers \<Rightarrow> string \<Rightarrow> string" where
  "header_get h k = (case map_of h k of None \<Rightarrow> [] | Some v \<Rightarrow> v)"

datatype http_key = RequestIDKey | ForeignCtxKey string

record request =
  rq_method :: string
  rq_path :: string
  rq_headers :: headers
  rq_body :: reader
  rq_ctx :: "(http_key, string) ctx"

text \<open>\<open>http.MaxBytesReader\<close>: the reader fails after the limit instead of ending.\<close>

definition max_bytes_error :: string where "max_bytes_error = ''http: request body too large''"

definition MaxBytesReader :: "reader \<Rightarrow> int \<Rightarrow> reader" where
  "MaxBytesReader r limit =
     (if int (length (rd_data r)) \<le> limit then r
      else \<lparr>rd_data = take (nat limit) (rd_data r), rd_err = Some max_bytes_error\<rparr>)"

section \<open>The connection's response writer\<close>

text \<open>
  \<open>final\<close> is the final status with the headers it was sent with, \<open>informational\<close> the 1xx
  responses before it, \<open>sent\<close> the body bytes the writer accepted, and \<open>room\<close> how many of them it
  still takes before the connection breaks. A writer that answers a \<open>HEAD\<close> request (\<open>head_only\<close>)
  accepts the body and sends nothing of it. The four flags are the optional interfaces the writer
  implements.
\<close>

record wire =
  hdr :: headers
  informational :: "int list"
  final :: "(int \<times> headers) option"
  sent :: string
  room :: nat
  head_only :: bool
  hijacked :: bool
  flushes :: nat
  can_flush :: bool
  can_hijack :: bool
  can_push :: bool
  can_read_from :: bool

datatype panic_value = InvalidStatus int | AppPanic string

definition is_informational :: "int \<Rightarrow> bool" where
  "is_informational code \<longleftrightarrow> 100 \<le> code \<and> code \<le> 199 \<and> code \<noteq> 101"

definition wire_WriteHeader :: "int \<Rightarrow> wire \<Rightarrow> panic_value option \<times> wire" where
  "wire_WriteHeader code w =
     (if hijacked w \<or> final w \<noteq> None then (None, w)
      else if code < 100 \<or> code > 999 then (Some (InvalidStatus code), w)
      else if is_informational code then (None, w\<lparr>informational := informational w @ [code]\<rparr>)
      else (None, w\<lparr>final := Some (code, hdr w)\<rparr>))"

definition body_allowed :: "int \<Rightarrow> bool" where
  "body_allowed code \<longleftrightarrow> \<not> (100 \<le> code \<and> code \<le> 199) \<and> code \<noteq> 204 \<and> code \<noteq> 304"

text \<open>\<open>Write\<close>: the writer, the bytes written, and whether there was an error.\<close>

definition wire_Write :: "string \<Rightarrow> wire \<Rightarrow> wire \<times> nat \<times> bool" where
  "wire_Write data w =
     (if hijacked w then (w, 0, True)
      else let w = snd (wire_WriteHeader 200 w) in
        if data = [] then (w, 0, False)
        else if \<not> body_allowed (fst (the (final w))) then (w, 0, True)
        else let n = (if head_only w then length data else min (room w) (length data)) in
          (w\<lparr>sent := sent w @ take n data, room := room w - (if head_only w then 0 else n)\<rparr>,
           n, n < length data))"

text \<open>The body the peer is sent.\<close>

definition client_body :: "wire \<Rightarrow> string" where
  "client_body w = (if head_only w then [] else sent w)"

definition wire_Flush :: "wire \<Rightarrow> wire" where
  "wire_Flush w = (if hijacked w then w else (snd (wire_WriteHeader 200 w))\<lparr>flushes := flushes w + 1\<rparr>)"

definition wire_Hijack :: "wire \<Rightarrow> wire \<times> bool" where
  "wire_Hijack w = (if hijacked w then (w, False) else (w\<lparr>hijacked := True\<rparr>, True))"

text \<open>When the handler is done, a response without a status becomes a 200.\<close>

definition wire_finish :: "wire \<Rightarrow> wire" where
  "wire_finish w = snd (wire_WriteHeader 200 w)"

definition wire_status :: "wire \<Rightarrow> int option" where
  "wire_status w = map_option fst (final (wire_finish w))"

section \<open>Handlers\<close>

datatype action = GetHeader string | SetHeader string string | DelHeader string
  | WriteHeader int | Write string | Flush | Hijack | Push string bool | ReadFrom "string list"
  | CallLimiter "ctx_error option" string

datatype reply = Nothing | Value string | Wrote nat bool | Success bool | Verdict "unit + bool"

datatype prog = Return | Panic string | Do action "reply \<Rightarrow> prog"

type_synonym handler = "request \<Rightarrow> prog"

primrec and_then :: "prog \<Rightarrow> prog \<Rightarrow> prog" where
  "and_then Return q = q"
| "and_then (Panic v) q = Panic v"
| "and_then (Do a k) q = Do a (\<lambda>r. and_then (k r) q)"

abbreviation do_action :: "action \<Rightarrow> prog \<Rightarrow> prog" where
  "do_action a p \<equiv> Do a (\<lambda>_. p)"

text \<open>\<open>http.Error\<close>.\<close>

definition http_Error :: "string \<Rightarrow> int \<Rightarrow> prog" where
  "http_Error msg code =
     do_action (DelHeader ''Content-Length'')
    (do_action (SetHeader ''Content-Type'' ''text/plain; charset=utf-8'')
    (do_action (SetHeader ''X-Content-Type-Options'' ''nosniff'')
    (do_action (WriteHeader code)
    (do_action (Write (msg @ [LF])) Return))))"

section \<open>Lemmas\<close>

lemma wire_WriteHeader_200:
  "wire_WriteHeader 200 w =
     (None, if hijacked w \<or> final w \<noteq> None then w else w\<lparr>final := Some (200, hdr w)\<rparr>)"
  by (simp add: wire_WriteHeader_def is_informational_def)

lemma header_get_update [simp]:
  "header_get (AList.update k v h) k' = (if k' = k then v else header_get h k')"
  by (simp add: header_get_def update_conv')

end
