(* ===== verification/Server.thy ===== *)
theory Server
  imports Http Validators
begin

text \<open>
  \<open>server/server.go\<close>: the configuration, the response recorder, the middlewares and the request
  pipeline with its recovery, logging and observation. The dispatch of \<open>http.ServeMux\<close> is a
  handler; the random source, the clock, the logger and the observer are parameters or outputs.
\<close>

section \<open>Configuration\<close>

text \<open>\<open>Logger\<close> tells whether a logger was given; \<open>withDefaults\<close> puts the default one.\<close>

record config =
  Addr :: string
  ReadHeaderTimeout :: duration
  ReadTimeout :: duration
  WriteTimeout :: duration
  IdleTimeout :: duration
  ShutdownTimeout :: duration
  MaxHeaderBytes :: int
  Logger :: bool

definition withDefaults :: "config \<Rightarrow> config" where
  "withDefaults c =
     (let c = (if Addr c = [] then c\<lparr>Addr := '':8080''\<rparr> else c);
          c = (if ReadTimeout c = 0 then c\<lparr>ReadTimeout := 15 * second\<rparr> else c);
          c = (if ReadHeaderTimeout c = 0 then c\<lparr>ReadHeaderTimeout := 5 * second\<rparr> else c);
          c = (if WriteTimeout c = 0 then c\<lparr>WriteTimeout := 30 * second\<rparr> else c);
          c = (if IdleTimeout c = 0 then c\<lparr>IdleTimeout := 60 * second\<rparr> else c);
          c = (if ShutdownTimeout c = 0 then c\<lparr>ShutdownTimeout := 15 * second\<rparr> else c);
          c = (if MaxHeaderBytes c = 0 then c\<lparr>MaxHeaderBytes := 1048576\<rparr> else c);
          c = (if Logger c then c else c\<lparr>Logger := True\<rparr>)
      in c)"

definition maxRequestIDLength :: nat where "maxRequestIDLength = 128"
definition maxLogValueLength :: nat where "maxLogValueLength = 2048"

section \<open>The response recorder\<close>

record recorder =
  under :: wire
  status :: int
  rec_bytes :: int
  wroteHeader :: bool

definition rec_WriteHeader :: "int \<Rightarrow> recorder \<Rightarrow> panic_value option \<times> recorder" where
  "rec_WriteHeader code r =
     (if wroteHeader r then (None, r)
      else let r = r\<lparr>status := code, wroteHeader := True\<rparr> in
        case wire_WriteHeader code (under r) of (p, w) \<Rightarrow> (p, r\<lparr>under := w\<rparr>))"

text \<open>\<open>if !w.wroteHeader { w.WriteHeader(http.StatusOK) }\<close>, which cannot panic.\<close>

definition rec_ensure_header :: "recorder \<Rightarrow> recorder" where
  "rec_ensure_header r = (if \<not> wroteHeader r then snd (rec_WriteHeader 200 r) else r)"

definition rec_Write :: "string \<Rightarrow> recorder \<Rightarrow> recorder \<times> nat \<times> bool" where
  "rec_Write data r =
     (let r = rec_ensure_header r in
      case wire_Write data (under r) of (w, written, err) \<Rightarrow>
        (r\<lparr>under := w, rec_bytes := rec_bytes r + int written\<rparr>, written, err))"

definition rec_Flush :: "recorder \<Rightarrow> recorder" where
  "rec_Flush r =
     (let r = rec_ensure_header r in
      if can_flush (under r) then r\<lparr>under := wire_Flush (under r)\<rparr> else r)"

definition rec_Hijack :: "recorder \<Rightarrow> recorder \<times> bool" where
  "rec_Hijack r =
     (if \<not> can_hijack (under r) then (r, False)
      else let r = (if \<not> wroteHeader r then r\<lparr>status := 101, wroteHeader := True\<rparr> else r) in
        case wire_Hijack (under r) of (w, success) \<Rightarrow> (r\<lparr>under := w\<rparr>, success))"

text \<open>\<open>io.Copy\<close> to the recorder: one \<open>Write\<close> for each chunk the reader yields, up to an error.\<close>

fun rec_copy :: "string list \<Rightarrow> recorder \<Rightarrow> nat \<Rightarrow> recorder \<times> nat \<times> bool" where
  "rec_copy [] r n = (r, n, False)"
| "rec_copy (chunk # rest) r n =
     (case rec_Write chunk r of (r, written, err) \<Rightarrow>
        if err then (r, n + written, True) else rec_copy rest r (n + written))"

definition rec_ReadFrom :: "string list \<Rightarrow> recorder \<Rightarrow> recorder \<times> nat \<times> bool" where
  "rec_ReadFrom chunks r =
     (let r = rec_ensure_header r in
      if can_read_from (under r) then
        (case wire_Write (concat chunks) (under r) of (w, written, err) \<Rightarrow>
           (r\<lparr>under := w, rec_bytes := rec_bytes r + int written\<rparr>, written, err))
      else rec_copy chunks r 0)"

definition statusCode :: "recorder \<Rightarrow> int" where
  "statusCode r = (if status r = 0 then 200 else status r)"

definition new_recorder :: "wire \<Rightarrow> recorder" where
  "new_recorder w = \<lparr>under = w, status = 0, rec_bytes = 0, wroteHeader = False\<rparr>"

section \<open>Running a handler\<close>

text \<open>
  The recorder together with the limiter, whose state is whatever it is and whose clock is fixed
  for the request.
\<close>

type_synonym 's allow_fun = "'s \<Rightarrow> ctx_error option \<Rightarrow> string \<Rightarrow> 's \<times> (unit + bool)"

definition upd_hdr :: "(headers \<Rightarrow> headers) \<Rightarrow> recorder \<Rightarrow> recorder" where
  "upd_hdr f r = r\<lparr>under := (under r)\<lparr>hdr := f (hdr (under r))\<rparr>\<rparr>"

fun perform :: "'s allow_fun \<Rightarrow> action \<Rightarrow> recorder \<times> 's \<Rightarrow> (panic_value + reply) \<times> recorder \<times> 's" where
  "perform allow (GetHeader k) (r, s) = (Inr (Value (header_get (hdr (under r)) k)), r, s)"
| "perform allow (SetHeader k v) (r, s) = (Inr Nothing, upd_hdr (AList.update k v) r, s)"
| "perform allow (DelHeader k) (r, s) = (Inr Nothing, upd_hdr (AList.delete k) r, s)"
| "perform allow (WriteHeader code) (r, s) =
     (case rec_WriteHeader code r of
        (Some p, r) \<Rightarrow> (Inl p, r, s) | (None, r) \<Rightarrow> (Inr Nothing, r, s))"
| "perform allow (Write data) (r, s) =
     (case rec_Write data r of (r, n, err) \<Rightarrow> (Inr (Wrote n err), r, s))"
| "perform allow Flush (r, s) = (Inr Nothing, rec_Flush r, s)"
| "perform allow Hijack (r, s) = (case rec_Hijack r of (r, success) \<Rightarrow> (Inr (Success success), r, s))"
| "perform allow (Push tgt accepted) (r, s) = (Inr (Success (can_push (under r) \<and> accepted)), r, s)"
| "perform allow (ReadFrom chunks) (r, s) =
     (case rec_ReadFrom chunks r of (r, n, err) \<Rightarrow> (Inr (Wrote n err), r, s))"
| "perform allow (CallLimiter c key) (r, s) =
     (case allow s c key of (s, v) \<Rightarrow> (Inr (Verdict v), r, s))"

primrec exec :: "'s allow_fun \<Rightarrow> prog \<Rightarrow> recorder \<times> 's \<Rightarrow> panic_value option \<times> recorder \<times> 's" where
  "exec allow Return = (\<lambda>e. (None, e))"
| "exec allow (Panic v) = (\<lambda>e. (Some (AppPanic v), e))"
| "exec allow (Do a k) = (\<lambda>e. case perform allow a e of
       (Inl p, e) \<Rightarrow> (Some p, e)
     | (Inr reply, e) \<Rightarrow> exec allow (k reply) e)"

section \<open>Request identifiers\<close>

definition validRequestID :: "string \<Rightarrow> bool" where
  "validRequestID value =
     (if value = [] \<or> length value > maxRequestIDLength then False
      else list_all (\<lambda>c. \<not> (not_alnum c \<and> c \<noteq> CHR ''-'' \<and> c \<noteq> CHR ''_'' \<and> c \<noteq> CHR ''.''))
             (lead_bytes value))"

interpretation request_id: byte_validator validRequestID 128
  "\<lambda>c. \<not> (not_alnum c \<and> c \<noteq> CHR ''-'' \<and> c \<noteq> CHR ''_'' \<and> c \<noteq> CHR ''.'')"
  by unfold_locales (auto simp: validRequestID_def maxRequestIDLength_def char_class_graphic)

text \<open>\<open>rand\<close> gives 16 random bytes or fails; \<open>nanos\<close> is \<open>time.Now().UnixNano()\<close>.\<close>

definition requestID :: "string option \<Rightarrow> int \<Rightarrow> string \<Rightarrow> string" where
  "requestID rand nanos value =
     (if validRequestID value then value
      else case rand of Some data \<Rightarrow> hex_encode data | None \<Rightarrow> format_int nanos)"

definition RequestID :: "(http_key, string) ctx \<Rightarrow> string" where
  "RequestID c = (case ctx_value c RequestIDKey of None \<Rightarrow> [] | Some v \<Rightarrow> v)"

definition boundedLogValue :: "string \<Rightarrow> string" where
  "boundedLogValue value =
     (if length value \<le> maxLogValueLength then value else take maxLogValueLength value @ ''...'')"

section \<open>Middlewares\<close>

type_synonym middleware = "handler \<Rightarrow> handler"

record header_policy =
  ContentSecurityPolicy :: string
  PermissionsPolicy :: string
  ReferrerPolicy :: string
  StrictTransportSecurity :: string
  FrameOptions :: string
  NoSniff :: bool

definition set_if :: "string \<Rightarrow> string \<Rightarrow> prog \<Rightarrow> prog" where
  "set_if k v p = (if v \<noteq> [] then do_action (SetHeader k v) p else p)"

definition SecurityHeaders :: "header_policy \<Rightarrow> middleware" where
  "SecurityHeaders policy nxt r =
     set_if ''Content-Security-Policy'' (ContentSecurityPolicy policy)
    (set_if ''Permissions-Policy'' (PermissionsPolicy policy)
    (set_if ''Referrer-Policy'' (ReferrerPolicy policy)
    (set_if ''Strict-Transport-Security'' (StrictTransportSecurity policy)
    (set_if ''X-Frame-Options'' (FrameOptions policy)
    (if NoSniff policy then do_action (SetHeader ''X-Content-Type-Options'' ''nosniff'') (nxt r)
     else nxt r)))))"

definition MaxBodyBytes :: "int \<Rightarrow> middleware" where
  "MaxBodyBytes limit nxt r =
     (if limit < 1 then http_Error ''request body limit is not configured'' 500
      else nxt (r\<lparr>rq_body := MaxBytesReader (rq_body r) limit\<rparr>))"

text \<open>\<open>limiter\<close> tells whether there is one; its calls are actions of the handler.\<close>

definition RateLimit :: "bool \<Rightarrow> (request \<Rightarrow> string) option \<Rightarrow> middleware" where
  "RateLimit limiter key nxt r =
     (case key of
        None \<Rightarrow> http_Error ''rate limit is not configured'' 500
      | Some key \<Rightarrow>
          if \<not> limiter then http_Error ''rate limit is not configured'' 500
          else Do (CallLimiter (ctx_err (rq_ctx r)) (key r)) (\<lambda>reply.
            case reply of
              Verdict (Inr allowed) \<Rightarrow>
                if \<not> allowed
                then do_action (SetHeader ''Retry-After'' ''1'') (http_Error ''rate limit exceeded'' 429)
                else nxt r
            | _ \<Rightarrow> http_Error ''rate limit unavailable'' 503))"

text \<open>\<open>Use\<close> appends what is not nil; \<open>ServeHTTP\<close> wraps from the last to the first.\<close>

definition Use :: "middleware option list \<Rightarrow> middleware list \<Rightarrow> middleware list" where
  "Use ms mws = fold (\<lambda>m acc. case m of None \<Rightarrow> acc | Some m \<Rightarrow> acc @ [m]) ms mws"

fun wrap_from :: "nat \<Rightarrow> middleware list \<Rightarrow> handler \<Rightarrow> handler" where
  "wrap_from 0 mws h = h"
| "wrap_from (Suc index) mws h = wrap_from index mws ((mws ! index) h)"


section \<open>The request pipeline\<close>

record observation =
  obs_RequestID :: string
  Method :: string
  Path :: string
  Status :: int
  Bytes :: int
  Duration :: duration
  Panicked :: bool

datatype log_entry = PanicRecovered string panic_value | RequestCompleted observation
  | ObserverPanicked string string

text \<open>
  \<open>observe\<close>: nothing without an observer; a panic of the observer is logged and goes no further.
  The result is what the observer was given and what was logged.
\<close>

type_synonym observer = "observation \<Rightarrow> string option"

definition observe :: "observer option \<Rightarrow> observation \<Rightarrow> observation list \<times> log_entry list" where
  "observe obs x =
     (case obs of None \<Rightarrow> ([], [])
      | Some f \<Rightarrow> ([x], case f x of None \<Rightarrow> [] | Some v \<Rightarrow> [ObserverPanicked (obs_RequestID x) v]))"

record server =
  srv_config :: config
  mux :: handler
  middlewares :: "middleware list"

text \<open>What \<open>ServeHTTP\<close> leaves behind: the recorder, the limiter, the log and the observations.\<close>

record 's served =
  srv_recorder :: recorder
  srv_limiter :: 's
  srv_log :: "log_entry list"
  srv_observed :: "observation list"

definition tagged_request :: "string \<Rightarrow> request \<Rightarrow> request" where
  "tagged_request rid r = r\<lparr>rq_ctx := with_value (rq_ctx r) RequestIDKey rid\<rparr>"

text \<open>The deferred function; \<open>p\<close> is what it recovered.\<close>

definition finish_request ::
  "'s allow_fun \<Rightarrow> observer option \<Rightarrow> duration \<Rightarrow> string \<Rightarrow> request \<Rightarrow> panic_value option \<Rightarrow>
     recorder \<times> 's \<Rightarrow> 's served" where
  "finish_request allow obs elapsed rid r p e =
     (case (case p of
         None \<Rightarrow> (e, [])
       | Some v \<Rightarrow>
           (if \<not> wroteHeader (fst e) then snd (exec allow (http_Error ''internal server error'' 500) e) else e,
            [PanicRecovered rid v])) of
      ((recd, s), log) \<Rightarrow>
        let x = \<lparr>obs_RequestID = rid, Method = rq_method r, Path = boundedLogValue (rq_path r),
                 Status = statusCode recd, Bytes = rec_bytes recd, Duration = elapsed,
                 Panicked = p \<noteq> None\<rparr> in
        case observe obs x of (seen, logged) \<Rightarrow>
          \<lparr>srv_recorder = recd, srv_limiter = s, srv_log = log @ RequestCompleted x # logged,
           srv_observed = seen\<rparr>)"

definition ServeHTTP ::
  "string option \<Rightarrow> int \<Rightarrow> 's allow_fun \<Rightarrow> observer option \<Rightarrow> duration \<Rightarrow> server \<Rightarrow>
     wire \<Rightarrow> 's \<Rightarrow> request \<Rightarrow> 's served" where
  "ServeHTTP rand nanos allow obs elapsed srv w s r =
     (let rid = requestID rand nanos (header_get (rq_headers r) ''X-Request-Id'');
          w = w\<lparr>hdr := AList.update ''X-Request-Id'' rid (hdr w)\<rparr>;
          r = tagged_request rid r;
          h = wrap_from (length (middlewares srv)) (middlewares srv) (mux srv) in
      case exec allow (h r) (new_recorder w, s) of (p, e) \<Rightarrow>
        finish_request allow obs elapsed rid r p e)"

section \<open>Pages and helpers\<close>

text \<open>\<open>Page\<close> refuses without a renderer; the handler it registers renders a whole document first.\<close>

definition page_handler :: "(request \<Rightarrow> string + string) \<Rightarrow> handler" where
  "page_handler render r =
     (case render r of
        Inl err \<Rightarrow> http_Error ''rendering failed'' 500
      | Inr document \<Rightarrow>
          do_action (SetHeader ''Content-Type'' ''text/html; charset=utf-8'')
         (do_action (Write document) Return))"

definition Page :: "(request \<Rightarrow> string + string) option \<Rightarrow> handler option" where
  "Page renderer = (case renderer of None \<Rightarrow> None | Some render \<Rightarrow> Some (page_handler render))"

definition HTML :: "int \<Rightarrow> string \<Rightarrow> prog" where
  "HTML code body =
     (let code = (if code = 0 then 200 else code) in
      do_action (SetHeader ''Content-Type'' ''text/html; charset=utf-8'')
     (do_action (WriteHeader code)
     (do_action (Write body) Return)))"

text \<open>\<open>encode\<close> is the JSON text with its line break, or nothing when the value has none.\<close>

definition JSON :: "int \<Rightarrow> string option \<Rightarrow> prog" where
  "JSON code encode =
     (let code = (if code = 0 then 200 else code) in
      do_action (SetHeader ''Content-Type'' ''application/json; charset=utf-8'')
     (do_action (WriteHeader code)
     (case encode of None \<Rightarrow> Return | Some text \<Rightarrow> do_action (Write text) Return)))"

section \<open>The lifecycle\<close>

datatype run_event = ServeEnded string | ServeClosed | StopSignal | CtxEnded

text \<open>
  \<open>Run\<close>: what the \<open>select\<close> saw first, the answer of \<open>Shutdown\<close>, the error returned and whether
  the connections were drained.
\<close>

definition Run :: "config \<Rightarrow> run_event \<Rightarrow> (duration \<Rightarrow> string option) \<Rightarrow> string option \<times> bool" where
  "Run c ev shutdown =
     (case ev of
        ServeEnded err \<Rightarrow> (Some err, False)
      | ServeClosed \<Rightarrow> (None, False)
      | StopSignal \<Rightarrow> (shutdown (ShutdownTimeout c), True)
      | CtxEnded \<Rightarrow> (shutdown (ShutdownTimeout c), True))"


section \<open>The recorder and the connection\<close>

text \<open>A connection on which nothing has been sent.\<close>

definition fresh_wire :: "wire \<Rightarrow> bool" where
  "fresh_wire w \<longleftrightarrow> final w = None \<and> \<not> hijacked w \<and> sent w = [] \<and> informational w = []"

text \<open>As long as the recorder has seen no header the connection is untouched.\<close>

definition untouched :: "nat \<Rightarrow> recorder \<Rightarrow> bool" where
  "untouched n r \<longleftrightarrow> wroteHeader r \<or>
     (fresh_wire (under r) \<and> room (under r) = n \<and> status r = 0 \<and> rec_bytes r = 0)"

lemma rec_ensure_header_wrote [simp]: "wroteHeader (rec_ensure_header r)"
  by (simp add: rec_ensure_header_def rec_WriteHeader_def split: prod.splits)

lemma rec_Flush_wrote [simp]: "wroteHeader (rec_Flush r)"
  by (simp add: rec_Flush_def Let_def)

lemma rec_Write_wrote: "rec_Write d r = (r', n, err) \<Longrightarrow> wroteHeader r'"
  by (auto simp: rec_Write_def Let_def split: prod.splits)

lemma rec_copy_wrote: "rec_copy cs r n = (r', m, err) \<Longrightarrow> wroteHeader r \<Longrightarrow> wroteHeader r'"
proof (induction cs arbitrary: r n)
  case (Cons c cs)
  then show ?case by (auto split: prod.splits if_splits dest: rec_Write_wrote)
qed simp

lemma rec_ReadFrom_wrote: "rec_ReadFrom cs r = (r', n, err) \<Longrightarrow> wroteHeader r'"
  by (auto simp: rec_ReadFrom_def Let_def split: prod.splits if_splits dest: rec_copy_wrote)

lemma untouched_perform:
  "untouched n (fst e) \<Longrightarrow> perform allow a e = (x, e') \<Longrightarrow> untouched n (fst e')"
proof (cases a)
  case (WriteHeader c)
  then show "untouched n (fst e) \<Longrightarrow> perform allow a e = (x, e') \<Longrightarrow> ?thesis"
    by (cases e) (auto simp: untouched_def rec_WriteHeader_def Let_def split: prod.splits option.splits if_splits)
next
  case (Write d)
  then show "untouched n (fst e) \<Longrightarrow> perform allow a e = (x, e') \<Longrightarrow> ?thesis"
    by (cases e) (auto simp: untouched_def split: prod.splits dest: rec_Write_wrote)
next
  case (ReadFrom cs)
  then show "untouched n (fst e) \<Longrightarrow> perform allow a e = (x, e') \<Longrightarrow> ?thesis"
    by (cases e) (auto simp: untouched_def split: prod.splits dest: rec_ReadFrom_wrote)
next
  case Flush
  then show "untouched n (fst e) \<Longrightarrow> perform allow a e = (x, e') \<Longrightarrow> ?thesis"
    by (cases e) (auto simp: untouched_def)
next
  case Hijack
  then show "untouched n (fst e) \<Longrightarrow> perform allow a e = (x, e') \<Longrightarrow> ?thesis"
    by (cases e) (auto simp: untouched_def rec_Hijack_def Let_def split: prod.splits if_splits)
qed (cases e; auto simp: untouched_def upd_hdr_def fresh_wire_def split: prod.splits)+

lemma untouched_exec:
  "untouched n (fst e) \<Longrightarrow> exec allow p e = (v, e') \<Longrightarrow> untouched n (fst e')"
proof (induction p arbitrary: e)
  case (Do a k)
  obtain x e1 where x: "perform allow a e = (x, e1)" by (cases "perform allow a e")
  from untouched_perform [OF Do.prems(1) x] have "untouched n (fst e1)" .
  with x Do.prems(2) Do.IH [OF rangeI, of e1] show ?case by (cases x) auto
qed auto

text \<open>No operation changes whether the request was a \<open>HEAD\<close>.\<close>

lemma head_only_wire [simp]:
  "head_only (snd (wire_WriteHeader c w)) = head_only w" "head_only (fst (wire_Write d w)) = head_only w"
  "head_only (wire_Flush w) = head_only w" "head_only (fst (wire_Hijack w)) = head_only w"
  by (auto simp: wire_WriteHeader_def wire_Write_def wire_Flush_def wire_Hijack_def Let_def)

lemma head_only_rec [simp]:
  "head_only (under (snd (rec_WriteHeader c r))) = head_only (under r)"
  "head_only (under (rec_ensure_header r)) = head_only (under r)"
  "head_only (under (rec_Flush r)) = head_only (under r)"
  "head_only (under (fst (rec_Write d r))) = head_only (under r)"
  "head_only (under (fst (rec_Hijack r))) = head_only (under r)"
  by (simp_all add: rec_WriteHeader_def rec_ensure_header_def rec_Flush_def rec_Write_def rec_Hijack_def Let_def
      split_beta)

lemma head_only_copy [simp]: "head_only (under (fst (rec_copy cs r n))) = head_only (under r)"
  by (induction cs arbitrary: r n) (simp_all add: split_beta)

lemma head_only_ReadFrom [simp]: "head_only (under (fst (rec_ReadFrom cs r))) = head_only (under r)"
  by (simp add: rec_ReadFrom_def Let_def split_beta)

lemma head_only_perform: "head_only (under (fst (snd (perform allow a e)))) = head_only (under (fst e))"
proof (cases a)
  case (WriteHeader c)
  then show ?thesis
    using head_only_rec(1) [of c "fst e"]
    by (cases e) (auto simp del: head_only_rec split: prod.splits option.splits)
qed (cases e; simp add: upd_hdr_def split_beta)+

lemma head_only_exec:
  "exec allow p e = (v, e') \<Longrightarrow> head_only (under (fst e')) = head_only (under (fst e))"
proof (induction p arbitrary: e)
  case (Do a k)
  obtain x e1 where x: "perform allow a e = (x, e1)" by (cases "perform allow a e")
  from head_only_perform [of allow a e] x Do.prems Do.IH [OF rangeI, of _ e1] show ?case by (cases x) auto
qed auto

text \<open>
  The recorder tells the truth as long as handlers send final status codes: its status is the one
  on the connection, its count the body bytes that the connection took.
\<close>

definition rec_ok :: "recorder \<Rightarrow> bool" where
  "rec_ok r \<longleftrightarrow> informational (under r) = [] \<and> rec_bytes r = int (length (sent (under r))) \<and>
     (if wroteHeader r
      then (case final (under r) of
              Some (c, h) \<Rightarrow> status r = c \<and> c \<noteq> 0
            | None \<Rightarrow> status r = 101 \<and> hijacked (under r))
      else status r = 0 \<and> final (under r) = None \<and> \<not> hijacked (under r))"

definition final_code :: "int \<Rightarrow> bool" where
  "final_code c \<longleftrightarrow> c = 101 \<or> 200 \<le> c \<and> c \<le> 999"

fun action_ok :: "action \<Rightarrow> bool" where
  "action_ok (WriteHeader c) = final_code c"
| "action_ok _ = True"

primrec codes_ok :: "prog \<Rightarrow> bool" where
  "codes_ok Return = True"
| "codes_ok (Panic v) = True"
| "codes_ok (Do a k) = (action_ok a \<and> (\<forall>r. codes_ok (k r)))"

lemma rec_WriteHeader_ok:
  assumes "rec_ok r" "final_code c"
  shows "fst (rec_WriteHeader c r) = None \<and> rec_ok (snd (rec_WriteHeader c r)) \<and>
    wroteHeader (snd (rec_WriteHeader c r))"
  using assms
  by (auto simp: rec_WriteHeader_def rec_ok_def Let_def wire_WriteHeader_def final_code_def is_informational_def
      split: option.splits)

lemma rec_ensure_header_ok: "rec_ok r \<Longrightarrow> rec_ok (rec_ensure_header r)"
  using rec_WriteHeader_ok [of r 200] by (simp add: rec_ensure_header_def final_code_def)

text \<open>Below a recorder whose header is written the connection only takes bytes.\<close>

lemma rec_ok_under:
  assumes "rec_ok r" "wroteHeader r" "final w = final (under r)" "hijacked w = hijacked (under r)"
    "informational w = informational (under r)" "length (sent w) = length (sent (under r)) + n"
  shows "rec_ok (r\<lparr>under := w, rec_bytes := rec_bytes r + int n\<rparr>)"
  using assms by (cases "final (under r)") (auto simp: rec_ok_def)

lemma rec_ok_written: "rec_ok r \<Longrightarrow> wroteHeader r \<Longrightarrow> hijacked (under r) \<or> (\<exists>c h. final (under r) = Some (c, h))"
  by (cases "final (under r)") (auto simp: rec_ok_def)

lemma wire_Write_ok:
  assumes "rec_ok r" "wroteHeader r" "wire_Write d (under r) = (w, n, err)"
  shows "rec_ok (r\<lparr>under := w, rec_bytes := rec_bytes r + int n\<rparr>)"
proof -
  have "final w = final (under r) \<and> hijacked w = hijacked (under r) \<and> informational w = informational (under r) \<and>
      length (sent w) = length (sent (under r)) + n"
    using rec_ok_written [OF assms(1,2)] assms(3)
    by (auto simp: wire_Write_def wire_WriteHeader_200 Let_def split: if_splits)
  then show ?thesis using assms(1,2) by (intro rec_ok_under) simp_all
qed

lemma rec_Write_ok: "rec_ok r \<Longrightarrow> rec_Write d r = (r', n, err) \<Longrightarrow> rec_ok r'"
  using wire_Write_ok [OF rec_ensure_header_ok, of r d]
  by (auto simp: rec_Write_def Let_def split: prod.splits)

lemma rec_copy_ok: "rec_ok r \<Longrightarrow> rec_copy cs r n = (r', m, err) \<Longrightarrow> rec_ok r'"
proof (induction cs arbitrary: r n)
  case (Cons c cs)
  then show ?case by (auto split: prod.splits if_splits dest: rec_Write_ok)
qed simp

lemma rec_ReadFrom_ok: "rec_ok r \<Longrightarrow> rec_ReadFrom cs r = (r', n, err) \<Longrightarrow> rec_ok r'"
  using wire_Write_ok [OF rec_ensure_header_ok, of r "concat cs"] rec_copy_ok [OF rec_ensure_header_ok, of r cs]
  by (auto simp: rec_ReadFrom_def Let_def split: prod.splits if_splits)

lemma rec_Flush_ok:
  assumes "rec_ok r"
  shows "rec_ok (rec_Flush r)"
proof -
  let ?q = "rec_ensure_header r"
  have q: "rec_ok ?q" "wroteHeader ?q" using rec_ensure_header_ok [OF assms] by simp_all
  then have "rec_ok (?q\<lparr>under := wire_Flush (under ?q), rec_bytes := rec_bytes ?q + int 0\<rparr>)"
    using rec_ok_written [OF q] by (intro rec_ok_under) (auto simp: wire_Flush_def wire_WriteHeader_200)
  with q show ?thesis by (simp add: rec_Flush_def Let_def)
qed

lemma rec_Hijack_ok:
  assumes "rec_ok r" "rec_Hijack r = (r', success)"
  shows "rec_ok r'"
proof (cases "wroteHeader r")
  case True
  with assms show ?thesis
    by (cases "final (under r)") (auto simp: rec_Hijack_def rec_ok_def wire_Hijack_def Let_def split: if_splits)
next
  case False
  with assms show ?thesis
    by (auto simp: rec_Hijack_def rec_ok_def wire_Hijack_def Let_def split: if_splits)
qed

lemma rec_ok_upd_hdr [simp]: "rec_ok (upd_hdr f r) = rec_ok r"
  by (cases "final (under r)") (simp_all add: rec_ok_def upd_hdr_def)

lemma perform_ok:
  assumes "rec_ok (fst e)" "action_ok a" "perform allow a e = (x, e')"
  shows "rec_ok (fst e') \<and> (\<forall>p. x \<noteq> Inl p)"
proof (cases a)
  case (WriteHeader c)
  then show ?thesis
    using assms rec_WriteHeader_ok [of "fst e" c] by (cases e) (auto split: prod.splits option.splits)
next
  case (Write d)
  then show ?thesis using assms by (cases e) (auto split: prod.splits dest: rec_Write_ok)
next
  case (ReadFrom cs)
  then show ?thesis using assms by (cases e) (auto split: prod.splits dest: rec_ReadFrom_ok)
next
  case Hijack
  then show ?thesis using assms by (cases e) (auto split: prod.splits dest: rec_Hijack_ok)
next
  case Flush
  then show ?thesis using assms rec_Flush_ok [of "fst e"] by (cases e) auto
qed (use assms in \<open>cases e; auto split: prod.splits\<close>)+

lemma exec_ok:
  "rec_ok (fst e) \<Longrightarrow> codes_ok p \<Longrightarrow> exec allow p e = (v, e') \<Longrightarrow> rec_ok (fst e') \<and> (\<forall>c. v \<noteq> Some (InvalidStatus c))"
proof (induction p arbitrary: e)
  case (Do a k)
  obtain x e1 where x: "perform allow a e = (x, e1)" by (cases "perform allow a e")
  from perform_ok [OF Do.prems(1) _ x] Do.prems(2) obtain y where "x = Inr y" "rec_ok (fst e1)"
    by (cases x) auto
  with x Do.prems Do.IH [OF rangeI, of e1 y] show ?case by auto
qed auto


section \<open>The pipeline\<close>

text \<open>The loop wraps from the inside out: the first middleware registered is the outermost.\<close>

lemma wrap_from_foldr: "n \<le> length mws \<Longrightarrow> wrap_from n mws h = foldr (\<lambda>m h. m h) (take n mws) h"
proof (induction n arbitrary: h)
  case (Suc n)
  then show ?case by (simp add: take_Suc_conv_app_nth)
qed simp

lemma Use_filter: "Use ms mws = mws @ map the (filter (\<lambda>m. m \<noteq> None) ms)"
  by (induction ms arbitrary: mws) (auto simp: Use_def split: option.splits)

definition pipeline :: "server \<Rightarrow> handler" where
  "pipeline srv = foldr (\<lambda>m h. m h) (middlewares srv) (mux srv)"

definition start_state :: "string \<Rightarrow> wire \<Rightarrow> 's \<Rightarrow> recorder \<times> 's" where
  "start_state rid w s = (new_recorder (w\<lparr>hdr := AList.update ''X-Request-Id'' rid (hdr w)\<rparr>), s)"

definition request_rid :: "string option \<Rightarrow> int \<Rightarrow> request \<Rightarrow> string" where
  "request_rid rand nanos r = requestID rand nanos (header_get (rq_headers r) ''X-Request-Id'')"

lemma ServeHTTP_pipeline:
  "ServeHTTP rand nanos allow obs elapsed srv w s r =
     (let rid = request_rid rand nanos r; r = tagged_request rid r in
      case exec allow (pipeline srv r) (start_state rid w s) of (p, e) \<Rightarrow>
        finish_request allow obs elapsed rid r p e)"
  by (simp add: ServeHTTP_def request_rid_def pipeline_def start_state_def wrap_from_foldr Let_def)

lemma untouched_start: "fresh_wire w \<Longrightarrow> untouched (room w) (fst (start_state rid w s))"
  by (simp add: untouched_def start_state_def new_recorder_def fresh_wire_def)

lemma rec_ok_start: "fresh_wire w \<Longrightarrow> rec_ok (fst (start_state rid w s))"
  by (simp add: rec_ok_def start_state_def new_recorder_def fresh_wire_def)

lemma take_min_line: "take (min n (Suc (length msg))) (msg @ [c]) = take n (msg @ [c])"
  by (simp add: min_def)

text \<open>\<open>http.Error\<close> on an untouched connection.\<close>

lemma exec_http_Error:
  assumes "\<not> wroteHeader r" "fresh_wire (under r)" "rec_bytes r = 0" "200 \<le> code" "code \<le> 999" "body_allowed code"
  shows "\<exists>r'. exec allow (http_Error msg code) (r, s) = (None, r', s) \<and> wroteHeader r' \<and> status r' = code \<and>
    wire_status (under r') = Some code \<and> \<not> hijacked (under r') \<and>
    client_body (under r') = (if head_only (under r) then [] else take (room (under r)) (msg @ [LF])) \<and>
    rec_bytes r' = int (if head_only (under r) then length msg + 1 else min (room (under r)) (length msg + 1))"
  using assms
  by (simp add: http_Error_def upd_hdr_def rec_WriteHeader_def rec_Write_def rec_ensure_header_def
      fresh_wire_def wire_WriteHeader_def is_informational_def wire_Write_def wire_status_def wire_finish_def
      client_body_def Let_def min.commute)
    (auto simp: min_def take_Cons')

lemma codes_ok_http_Error: "final_code code \<Longrightarrow> codes_ok (http_Error msg code)"
  by (simp add: http_Error_def)

lemma finish_request_fields:
  assumes "finish_request allow obs elapsed rid r p e = out"
  shows "\<exists>x. srv_log out = (case p of None \<Rightarrow> [] | Some v \<Rightarrow> [PanicRecovered rid v]) @ RequestCompleted x #
      (case obs of None \<Rightarrow> [] | Some f \<Rightarrow> case f x of None \<Rightarrow> [] | Some v \<Rightarrow> [ObserverPanicked rid v]) \<and>
    srv_observed out = (if obs = None then [] else [x]) \<and>
    obs_RequestID x = rid \<and> Status x = statusCode (srv_recorder out) \<and> Bytes x = rec_bytes (srv_recorder out) \<and>
    Panicked x = (p \<noteq> None) \<and> Path x = boundedLogValue (rq_path r) \<and> Method x = rq_method r"
  unfolding assms [symmetric]
  by (rule exI [of _ "\<lparr>obs_RequestID = rid, Method = rq_method r, Path = boundedLogValue (rq_path r),
      Status = statusCode (srv_recorder (finish_request allow obs elapsed rid r p e)),
      Bytes = rec_bytes (srv_recorder (finish_request allow obs elapsed rid r p e)), Duration = elapsed,
      Panicked = p \<noteq> None\<rparr>"])
    (auto simp: finish_request_def observe_def Let_def split_beta split: option.splits)

text \<open>The completed-request entries of a log.\<close>

definition completed :: "log_entry list \<Rightarrow> observation list" where
  "completed log = concat (map (\<lambda>l. case l of RequestCompleted x \<Rightarrow> [x] | _ \<Rightarrow> []) log)"

lemma finish_request_completed:
  assumes "finish_request allow obs elapsed rid r p e = out"
  shows "\<exists>x. completed (srv_log out) = [x] \<and> srv_observed out = (if obs = None then [] else [x]) \<and>
    obs_RequestID x = rid \<and> Status x = statusCode (srv_recorder out) \<and> Bytes x = rec_bytes (srv_recorder out) \<and>
    Panicked x = (p \<noteq> None) \<and> Path x = boundedLogValue (rq_path r) \<and> Method x = rq_method r"
  using finish_request_fields [OF assms] by (auto simp: completed_def split: option.splits)

lemma finish_request_recorder:
  "srv_recorder (finish_request allow obs elapsed rid r p e) =
     (if p \<noteq> None \<and> \<not> wroteHeader (fst e)
      then fst (snd (exec allow (http_Error ''internal server error'' 500) e)) else fst e)"
  by (auto simp: finish_request_def Let_def split: option.splits prod.splits)

section \<open>Properties\<close>

text \<open>
  C10. A panic never escapes and never leaves a half-made response: if the handler panics before it
  wrote a header, whatever it did to the header map or the limiter, the client gets status 500 with
  the fixed message as far as the connection takes it (no body in answer to a \<open>HEAD\<close> request), and
  the log is exactly one entry for the panic and one for the completed request, with status 500, the
  bytes the connection took and the panic, followed by one more only if the observer itself panics;
  the observer is given that same observation once.
\<close>

theorem ServeHTTP_recovers_panic:
  assumes "fresh_wire w" "head_only w = (rq_method r = ''HEAD'')"
    and "exec allow (pipeline srv (tagged_request (request_rid rand nanos r) r))
           (start_state (request_rid rand nanos r) w s) = (Some v, e)"
    and "\<not> wroteHeader (fst e)"
  shows "\<exists>x. let out = ServeHTTP rand nanos allow obs elapsed srv w s r; rid = request_rid rand nanos r in
    wire_status (under (srv_recorder out)) = Some 500 \<and>
    client_body (under (srv_recorder out)) =
      (if rq_method r = ''HEAD'' then [] else take (room w) (''internal server error'' @ [LF])) \<and>
    srv_log out = PanicRecovered rid v # RequestCompleted x #
      (case obs of None \<Rightarrow> [] | Some f \<Rightarrow> case f x of None \<Rightarrow> [] | Some v \<Rightarrow> [ObserverPanicked rid v]) \<and>
    srv_observed out = (if obs = None then [] else [x]) \<and>
    Status x = 500 \<and> Panicked x \<and> obs_RequestID x = rid \<and>
    Bytes x = int (if rq_method r = ''HEAD'' then 22 else min (room w) 22)"
proof -
  let ?out = "ServeHTTP rand nanos allow obs elapsed srv w s r"
  let ?rid = "request_rid rand nanos r"
  have out: "?out = finish_request allow obs elapsed ?rid (tagged_request ?rid r) (Some v) e"
    using assms(3) by (simp add: ServeHTTP_pipeline Let_def)
  have "untouched (room w) (fst e)"
    using untouched_exec [OF untouched_start [OF assms(1)] assms(3)] .
  with assms(4) have u: "fresh_wire (under (fst e))" "room (under (fst e)) = room w" "rec_bytes (fst e) = 0"
    by (simp_all add: untouched_def)
  have head: "head_only (under (fst e)) = (rq_method r = ''HEAD'')"
    using head_only_exec [OF assms(3)] assms(2) by (simp add: start_state_def new_recorder_def)
  obtain r' where r': "exec allow (http_Error ''internal server error'' 500) e = (None, r', snd e)"
    "status r' = 500" "wire_status (under r') = Some 500"
    "client_body (under r') = (if rq_method r = ''HEAD'' then [] else take (room w) (''internal server error'' @ [LF]))"
    "rec_bytes r' = int (if rq_method r = ''HEAD'' then 22 else min (room w) 22)"
    using exec_http_Error [OF assms(4) u(1,3), of 500 allow "''internal server error''" "snd e"] u(2) head
    by (auto simp: body_allowed_def)
  have recd: "srv_recorder ?out = r'"
    using r'(1) assms(4) by (simp add: out finish_request_recorder)
  show ?thesis
    using finish_request_fields [OF out [symmetric]] r'(2-5) by (auto simp: recd statusCode_def Let_def)
qed


text \<open>A server for the witnesses, with a handler that sets a header and panics.\<close>

definition demo_config :: config where
  "demo_config = \<lparr>Addr = [], ReadHeaderTimeout = 0, ReadTimeout = 0, WriteTimeout = 0, IdleTimeout = 0,
     ShutdownTimeout = 0, MaxHeaderBytes = 0, Logger = True\<rparr>"

definition demo_wire :: wire where
  "demo_wire = \<lparr>hdr = [], informational = [], final = None, sent = [], room = 100, head_only = False, hijacked = False,
     flushes = 0, can_flush = True, can_hijack = True, can_push = False, can_read_from = True\<rparr>"

definition demo_request :: request where
  "demo_request = \<lparr>rq_method = ''GET'', rq_path = ''/x'', rq_headers = [(''X-Request-Id'', ''r1'')],
     rq_body = \<lparr>rd_data = [], rd_err = None\<rparr>, rq_ctx = background\<rparr>"

definition demo_server :: "prog \<Rightarrow> server" where
  "demo_server p = \<lparr>srv_config = demo_config, mux = (\<lambda>_. p), middlewares = []\<rparr>"

definition no_limiter :: "unit allow_fun" where
  "no_limiter s c k = (s, Inr True)"

lemma demo_fresh: "fresh_wire demo_wire"
  by (simp add: fresh_wire_def demo_wire_def)

lemma demo_pipeline: "pipeline (demo_server p) r = p"
  by (simp add: pipeline_def demo_server_def)

theorem ServeHTTP_recovers_panic_witness:
  "wire_status (under (srv_recorder (ServeHTTP None 0 no_limiter None 5
     (demo_server (do_action (SetHeader ''A'' ''b'') (Panic ''boom''))) demo_wire () demo_request))) = Some 500"
proof -
  let ?p = "do_action (SetHeader ''A'' ''b'') (Panic ''boom'')"
  let ?s = "start_state (request_rid None 0 demo_request) demo_wire ()"
  obtain e where e: "exec no_limiter ?p ?s = (Some (AppPanic ''boom''), e)" "\<not> wroteHeader (fst e)"
    by (simp add: start_state_def new_recorder_def upd_hdr_def)
  from ServeHTTP_recovers_panic [OF demo_fresh, of demo_request no_limiter "demo_server ?p" None 0 "()" _ e None 5]
  show ?thesis using e by (simp add: demo_pipeline demo_wire_def demo_request_def Let_def)
qed

text \<open>
  C3. The access log is true: if the middlewares and the handler send only final status codes, then
  after any sequence of header changes, writes, flushes, copies, pushes, limiter calls, hijacking
  and panics there is exactly one completed-request entry, and the observer was given the same
  observation once. Its byte count is the number of body bytes the connection took from the
  handlers, and these are the body the client is sent, but for a \<open>HEAD\<close> request, to which
  \<open>net/http\<close> sends none of them. Its status is the status the client gets, an implicit 200
  included; the only response without one is that of a connection hijacked before a status was
  sent, which is reported as 101.
\<close>

theorem ServeHTTP_observes_truly:
  assumes "fresh_wire w" "head_only w = (rq_method r = ''HEAD'')"
    and "codes_ok (pipeline srv (tagged_request (request_rid rand nanos r) r))"
  shows "\<exists>x. let out = ServeHTTP rand nanos allow obs elapsed srv w s r; w' = under (srv_recorder out) in
    completed (srv_log out) = [x] \<and> srv_observed out = (if obs = None then [] else [x]) \<and>
    Bytes x = int (length (sent w')) \<and> client_body w' = (if rq_method r = ''HEAD'' then [] else sent w') \<and>
    Status x = (case wire_status w' of Some c \<Rightarrow> c | None \<Rightarrow> 101) \<and>
    (wire_status w' = None \<longrightarrow> hijacked w')"
proof -
  let ?out = "ServeHTTP rand nanos allow obs elapsed srv w s r"
  let ?rid = "request_rid rand nanos r"
  let ?w = "under (srv_recorder ?out)"
  obtain p e where pe: "exec allow (pipeline srv (tagged_request ?rid r)) (start_state ?rid w s) = (p, e)"
    by (cases "exec allow (pipeline srv (tagged_request ?rid r)) (start_state ?rid w s)")
  obtain v r' s' where err: "exec allow (http_Error ''internal server error'' 500) e = (v, r', s')"
    by (cases "exec allow (http_Error ''internal server error'' 500) e")
  have out: "?out = finish_request allow obs elapsed ?rid (tagged_request ?rid r) p e"
    using pe by (simp add: ServeHTTP_pipeline Let_def)
  have ok: "rec_ok (fst e)" using exec_ok [OF rec_ok_start [OF assms(1)] assms(3) pe] by simp
  have rec: "rec_ok (srv_recorder ?out)"
    using exec_ok [OF ok codes_ok_http_Error err] ok err by (simp add: out finish_request_recorder final_code_def)
  have "head_only ?w = (rq_method r = ''HEAD'')"
    using head_only_exec [OF pe] head_only_exec [OF err] assms(2) err
    by (simp add: out finish_request_recorder start_state_def new_recorder_def)
  then have "client_body ?w = (if rq_method r = ''HEAD'' then [] else sent ?w)" by (simp add: client_body_def)
  moreover have "statusCode (srv_recorder ?out) = (case wire_status ?w of Some c \<Rightarrow> c | None \<Rightarrow> 101)"
    "wire_status ?w = None \<longrightarrow> hijacked ?w" "rec_bytes (srv_recorder ?out) = int (length (sent ?w))"
    using rec
    by (cases "final ?w";
        auto simp: rec_ok_def wire_status_def wire_finish_def wire_WriteHeader_200 statusCode_def split: if_splits)+
  ultimately show ?thesis using finish_request_completed [OF out [symmetric]] unfolding Let_def by metis
qed

theorem ServeHTTP_observes_truly_witness:
  "\<exists>x. srv_observed (ServeHTTP None 0 no_limiter (Some (\<lambda>_. None)) 5
       (demo_server (http_Error ''nope'' 404)) demo_wire () demo_request) = [x] \<and>
     Bytes x = int (length (sent (under (srv_recorder (ServeHTTP None 0 no_limiter (Some (\<lambda>_. None)) 5
       (demo_server (http_Error ''nope'' 404)) demo_wire () demo_request)))))"
  using ServeHTTP_observes_truly [OF demo_fresh, of demo_request "demo_server (http_Error ''nope'' 404)" None 0
      no_limiter "Some (\<lambda>_. None)" 5 "()"]
  by (auto simp: demo_pipeline demo_wire_def demo_request_def codes_ok_http_Error final_code_def Let_def)

text \<open>
  C27. Where the access log is not true: the recorder takes an informational status for the final
  one. A handler that sends 103 Early Hints, or any other 1xx but 101, and then answers with an
  error has its final status swallowed: the client gets 200 with the error's body (none for \<open>HEAD\<close>), and the log and
  the observer are told the informational status.
\<close>

theorem ServeHTTP_loses_status_after_informational:
  assumes "fresh_wire w" "is_informational c" "pipeline srv = (\<lambda>_. do_action (WriteHeader c) (http_Error msg code))"
  shows "\<exists>x. let out = ServeHTTP rand nanos allow obs elapsed srv w s r in
    wire_status (under (srv_recorder out)) = Some 200 \<and> informational (under (srv_recorder out)) = [c] \<and>
    client_body (under (srv_recorder out)) = (if head_only w then [] else take (room w) (msg @ [LF])) \<and>
    RequestCompleted x \<in> set (srv_log out) \<and> Status x = c"
proof -
  let ?out = "ServeHTTP rand nanos allow obs elapsed srv w s r"
  let ?rid = "request_rid rand nanos r"
  have c: "100 \<le> c" "c \<le> 199" "c \<noteq> 0" using assms(2) by (auto simp: is_informational_def)
  obtain r1 where r1: "exec allow (do_action (WriteHeader c) (http_Error msg code)) (start_state ?rid w s) =
      exec allow (do_action (Write (msg @ [LF])) Return) (r1, s)"
    "wroteHeader r1" "status r1 = c" "final (under r1) = None" "\<not> hijacked (under r1)" "sent (under r1) = []"
    "informational (under r1) = [c]" "room (under r1) = room w" "head_only (under r1) = head_only w"
    using assms(1,2) c
    by (simp add: http_Error_def start_state_def new_recorder_def upd_hdr_def rec_WriteHeader_def
        fresh_wire_def wire_WriteHeader_def Let_def)
  from r1(2-) obtain r' where last: "exec allow (do_action (Write (msg @ [LF])) Return) (r1, s) = (None, r', s)"
    and r': "wroteHeader r'" "status r' = c" "wire_status (under r') = Some 200" "informational (under r') = [c]"
      "client_body (under r') = (if head_only w then [] else take (room w) (msg @ [LF]))"
    by (cases "head_only w")
      (simp_all add: rec_Write_def rec_ensure_header_def wire_Write_def wire_WriteHeader_200 wire_status_def
        wire_finish_def body_allowed_def client_body_def Let_def take_min_line del: take_append)
  note run = r1(1) [unfolded last]
  have out: "?out = finish_request allow obs elapsed ?rid (tagged_request ?rid r) None (r', s)"
    using run assms(3) by (simp add: ServeHTTP_pipeline Let_def)
  have "srv_recorder ?out = r'" by (simp add: out finish_request_recorder)
  with finish_request_fields [OF out [symmetric]] r' c(3) show ?thesis
    by (auto simp: statusCode_def Let_def)
qed

theorem ServeHTTP_loses_status_after_informational_witness:
  "wire_status (under (srv_recorder (ServeHTTP None 0 no_limiter None 5
     (demo_server (do_action (WriteHeader 103) (http_Error ''missing'' 404))) demo_wire () demo_request))) = Some 200"
  using ServeHTTP_loses_status_after_informational [OF demo_fresh, of 103
      "demo_server (do_action (WriteHeader 103) (http_Error ''missing'' 404))" "''missing''" 404 None 0 no_limiter None 5 "()" demo_request]
  by (auto simp: is_informational_def pipeline_def demo_server_def Let_def)

text \<open>
  C28. Where recovery fails: a handler that panics because \<open>net/http\<close> refuses its status code, say
  0 or 1000, is recovered, but the recorder has already marked its header as written, so no error
  page is sent and the client gets an empty 200 response.
\<close>

theorem ServeHTTP_invalid_status_becomes_200:
  assumes "fresh_wire w" "c < 100 \<or> c > 999" "pipeline srv = (\<lambda>_. do_action (WriteHeader c) p)"
  shows "\<exists>x. let out = ServeHTTP rand nanos allow obs elapsed srv w s r in
    PanicRecovered (request_rid rand nanos r) (InvalidStatus c) \<in> set (srv_log out) \<and>
    wire_status (under (srv_recorder out)) = Some 200 \<and> sent (under (srv_recorder out)) = [] \<and>
    RequestCompleted x \<in> set (srv_log out) \<and> Panicked x"
proof -
  let ?out = "ServeHTTP rand nanos allow obs elapsed srv w s r"
  let ?rid = "request_rid rand nanos r"
  obtain r' where run: "exec allow (do_action (WriteHeader c) p) (start_state ?rid w s) = (Some (InvalidStatus c), r', s)"
    and r': "wroteHeader r'" "wire_status (under r') = Some 200" "sent (under r') = []"
    using assms(1,2)
    by (auto simp: start_state_def new_recorder_def rec_WriteHeader_def fresh_wire_def wire_WriteHeader_def
        wire_status_def wire_finish_def is_informational_def Let_def)
  have out: "?out = finish_request allow obs elapsed ?rid (tagged_request ?rid r) (Some (InvalidStatus c)) (r', s)"
    using run assms(3) by (simp add: ServeHTTP_pipeline Let_def)
  have "srv_recorder ?out = r'" using r'(1) by (simp add: out finish_request_recorder)
  moreover have "PanicRecovered ?rid (InvalidStatus c) \<in> set (srv_log ?out)"
    by (auto simp: out finish_request_def Let_def split: prod.splits)
  ultimately show ?thesis
    using finish_request_fields [OF out [symmetric]] r' by (auto simp: Let_def)
qed

theorem ServeHTTP_invalid_status_becomes_200_witness:
  "wire_status (under (srv_recorder (ServeHTTP None 0 no_limiter None 5
     (demo_server (do_action (WriteHeader 0) Return)) demo_wire () demo_request))) = Some 200"
  using ServeHTTP_invalid_status_becomes_200 [OF demo_fresh, of 0 "demo_server (do_action (WriteHeader 0) Return)"
      Return None 0 no_limiter None 5 "()" demo_request]
  by (auto simp: pipeline_def demo_server_def Let_def)


section \<open>Request identifiers and headers\<close>

definition id_char :: "char \<Rightarrow> bool" where
  "id_char c \<longleftrightarrow> \<not> not_alnum c \<or> c \<in> {CHR ''-'', CHR ''_'', CHR ''.''}"

lemma validRequestID_iff: "validRequestID v \<longleftrightarrow> v \<noteq> [] \<and> length v \<le> 128 \<and> list_all id_char v"
  by (auto simp: request_id.valid_iff id_char_def list_all_iff)

lemma id_char_hex: "is_digit c \<or> 97 \<le> byte c \<and> byte c \<le> 102 \<Longrightarrow> id_char c"
  by (auto simp: id_char_def not_alnum_def outside_byte is_digit_byte byte_def)

text \<open>The fallbacks are valid identifiers too.\<close>

lemma valid_hex_id: "length d = 16 \<Longrightarrow> validRequestID (hex_encode d)"
  using hex_encode_bytes [of _ d] length_hex_encode [of d]
  by (cases "hex_encode d = []") (auto simp: validRequestID_iff list_all_iff id_char_hex)

lemma valid_nanos_id:
  assumes "in_int64 n"
  shows "validRequestID (format_int n)"
proof -
  have "nat (if n < 0 then - n else n) < 10 ^ 20" using assms by (auto simp: in_int64_def nat_less_iff)
  then have len: "length (nat_digits (nat (if n < 0 then - n else n))) \<le> 20"
    by (rule length_nat_digits) simp
  have digits: "list_all id_char (nat_digits m)" for m
    using nat_digits_all [of m] by (simp add: list_all_iff id_char_hex)
  have minus: "id_char (CHR ''-'')" by (simp only: id_char_def) simp
  show ?thesis
  proof (cases "n < 0")
    case True
    with len digits minus show ?thesis by (simp only: validRequestID_iff format_int_def) simp
  next
    case False
    with len digits show ?thesis by (simp only: validRequestID_iff format_int_def) simp
  qed
qed

text \<open>Handlers that leave one header at its value.\<close>

fun leaves_header :: "string \<Rightarrow> string \<Rightarrow> action \<Rightarrow> bool" where
  "leaves_header k v (SetHeader k' v') = (k' \<noteq> k \<or> v' = v)"
| "leaves_header k v (DelHeader k') = (k' \<noteq> k)"
| "leaves_header k v _ = True"

primrec keeps_header :: "string \<Rightarrow> string \<Rightarrow> prog \<Rightarrow> bool" where
  "keeps_header k v Return = True"
| "keeps_header k v (Panic x) = True"
| "keeps_header k v (Do a q) = (leaves_header k v a \<and> (\<forall>r. keeps_header k v (q r)))"

definition has_header :: "string \<Rightarrow> string \<Rightarrow> wire \<Rightarrow> bool" where
  "has_header k v w \<longleftrightarrow> header_get (hdr w) k = v \<and> (\<forall>c h. final w = Some (c, h) \<longrightarrow> header_get h k = v)"

lemma has_header_upd:
  "header_get (f (hdr (under r))) k = header_get (hdr (under r)) k \<Longrightarrow>
   has_header k v (under (upd_hdr f r)) = has_header k v (under r)"
  by (simp add: has_header_def upd_hdr_def)

lemma has_header_set:
  "has_header k v (under r) \<Longrightarrow> k' \<noteq> k \<or> v' = v \<Longrightarrow> has_header k v (under (upd_hdr (AList.update k' v') r))"
  by (auto simp: has_header_def upd_hdr_def)

lemma header_get_delete: "k' \<noteq> k \<Longrightarrow> header_get (AList.delete k' h) k = header_get h k"
  by (simp add: header_get_def)

lemma has_header_wire:
  "has_header k v w \<Longrightarrow> has_header k v (snd (wire_WriteHeader c w))"
  "has_header k v w \<Longrightarrow> wire_Write d w = (w', n, err) \<Longrightarrow> has_header k v w'"
  "has_header k v w \<Longrightarrow> has_header k v (wire_Flush w)"
  "has_header k v w \<Longrightarrow> wire_Hijack w = (w', success) \<Longrightarrow> has_header k v w'"
  by (auto simp: has_header_def wire_WriteHeader_def wire_Write_def wire_Flush_def wire_Hijack_def Let_def
      split: if_splits)

lemma has_header_ensure: "has_header k v (under r) \<Longrightarrow> has_header k v (under (rec_ensure_header r))"
  using has_header_wire(1) [of k v "under r" 200]
  by (auto simp: rec_ensure_header_def rec_WriteHeader_def Let_def split: prod.splits)

lemma has_header_Write: "has_header k v (under r) \<Longrightarrow> rec_Write d r = (r', n, err) \<Longrightarrow> has_header k v (under r')"
  using has_header_wire(2) [OF has_header_ensure] by (auto simp: rec_Write_def Let_def split: prod.splits)

lemma has_header_copy: "has_header k v (under r) \<Longrightarrow> rec_copy cs r m = (r', n, err) \<Longrightarrow> has_header k v (under r')"
proof (induction cs arbitrary: r m)
  case (Cons c cs)
  then show ?case by (auto split: prod.splits if_splits dest: has_header_Write)
qed simp

lemma has_header_ReadFrom:
  assumes "has_header k v (under r)" "rec_ReadFrom cs r = (r', n, err)"
  shows "has_header k v (under r')"
proof -
  let ?q = "rec_ensure_header r"
  have q: "has_header k v (under ?q)" using assms(1) by (rule has_header_ensure)
  show ?thesis
  proof (cases "can_read_from (under ?q)")
    case True
    obtain w m e where "wire_Write (concat cs) (under ?q) = (w, m, e)"
      by (cases "wire_Write (concat cs) (under ?q)")
    with True assms(2) has_header_wire(2) [OF q this] show ?thesis
      by (auto simp: rec_ReadFrom_def Let_def)
  next
    case False
    with assms(2) have "rec_copy cs ?q 0 = (r', n, err)" by (simp add: rec_ReadFrom_def Let_def)
    with q show ?thesis by (rule has_header_copy)
  qed
qed

lemma has_header_perform:
  assumes "has_header k v (under (fst e))" "leaves_header k v a" "perform allow a e = (x, e')"
  shows "has_header k v (under (fst e'))"
proof (cases a)
  case (WriteHeader c)
  then show ?thesis
    using assms has_header_wire(1) [of k v "under (fst e)" c]
    by (cases e) (auto simp: rec_WriteHeader_def Let_def split: prod.splits option.splits if_splits)
next
  case (Write d)
  then show ?thesis using assms by (cases e) (auto split: prod.splits dest: has_header_Write)
next
  case Flush
  then show ?thesis
    using assms has_header_wire(3) [OF has_header_ensure, of k v "fst e"] has_header_ensure [of k v "fst e"]
    by (cases e) (auto simp: rec_Flush_def Let_def)
next
  case Hijack
  then show ?thesis
    using assms by (cases e) (auto simp: rec_Hijack_def Let_def split: prod.splits if_splits dest: has_header_wire(4))
next
  case (ReadFrom cs)
  then show ?thesis
    using assms by (cases e) (auto split: prod.splits dest: has_header_ReadFrom)
qed (use assms in \<open>cases e; auto simp: has_header_upd has_header_set header_get_delete split: prod.splits\<close>)+

lemma has_header_exec:
  "has_header k v (under (fst e)) \<Longrightarrow> keeps_header k v p \<Longrightarrow> exec allow p e = (x, e') \<Longrightarrow> has_header k v (under (fst e'))"
proof (induction p arbitrary: e)
  case (Do a q)
  obtain y e1 where y: "perform allow a e = (y, e1)" by (cases "perform allow a e")
  from has_header_perform [OF Do.prems(1) _ y] Do.prems(2) have "has_header k v (under (fst e1))" by simp
  with y Do.prems Do.IH [OF rangeI, of e1] show ?case by (cases y) auto
qed auto




text \<open>The headers a policy declares, in the order in which they are set.\<close>

definition policy_entries :: "header_policy \<Rightarrow> headers" where
  "policy_entries p = filter (\<lambda>(k, v). v \<noteq> [])
     [(''Content-Security-Policy'', ContentSecurityPolicy p), (''Permissions-Policy'', PermissionsPolicy p),
      (''Referrer-Policy'', ReferrerPolicy p), (''Strict-Transport-Security'', StrictTransportSecurity p),
      (''X-Frame-Options'', FrameOptions p), (''X-Content-Type-Options'', if NoSniff p then ''nosniff'' else [])]"

definition with_headers :: "headers \<Rightarrow> recorder \<Rightarrow> recorder" where
  "with_headers kvs r = fold (\<lambda>(k, v) r. upd_hdr (AList.update k v) r) kvs r"

lemma exec_SecurityHeaders:
  "exec allow (SecurityHeaders p nxt r) (recd, s) = exec allow (nxt r) (with_headers (policy_entries p) recd, s)"
  by (simp add: SecurityHeaders_def set_if_def policy_entries_def with_headers_def)

lemma with_headers_has:
  "distinct (map fst kvs) \<Longrightarrow> (k, v) \<in> set kvs \<Longrightarrow> final (under r) = None \<Longrightarrow>
     has_header k v (under (with_headers kvs r))"
proof (induction kvs arbitrary: r)
  case (Cons x kvs)
  obtain k' v' where x: "x = (k', v')" by (cases x)
  have keep: "has_header k v (under (with_headers kvs r))"
    if "k \<notin> fst ` set kvs" "has_header k v (under r)" for r
    using that
  proof (induction kvs arbitrary: r)
    case (Cons y ys)
    then show ?case by (cases y) (auto simp: with_headers_def has_header_set)
  qed (simp add: with_headers_def)
  have wh: "with_headers (x # kvs) r = with_headers kvs (upd_hdr (AList.update k' v') r)"
    by (simp add: with_headers_def x)
  have none: "final (under (upd_hdr (AList.update k' v') r)) = None"
    using Cons.prems(3) by (simp add: upd_hdr_def)
  show ?case
  proof (cases "(k, v) \<in> set kvs")
    case True
    with Cons.IH [OF _ True none] Cons.prems(1) show ?thesis by (simp add: wh)
  next
    case False
    with Cons.prems have "k' = k" "v' = v" "k \<notin> fst ` set kvs" by (auto simp: x)
    moreover have "has_header k v (under (upd_hdr (AList.update k v) r))"
      using none \<open>k' = k\<close> \<open>v' = v\<close> by (simp add: has_header_def upd_hdr_def)
    ultimately show ?thesis using keep by (simp add: wh)
  qed
qed simp

lemma policy_entries_distinct: "distinct (map fst (policy_entries p))"
  unfolding policy_entries_def by (rule distinct_map_filter) simp

text \<open>
  A header policy reaches every response: behind \<open>SecurityHeaders\<close> as the outermost middleware
  each header the policy declares is among those the client is sent, also on the error page of a
  panic, as long as the inner handlers do not change it themselves.
\<close>

theorem SecurityHeaders_on_every_response:
  assumes "fresh_wire w" "middlewares srv = SecurityHeaders pol # mws" "(k, v) \<in> set (policy_entries pol)"
    and "keeps_header k v (foldr (\<lambda>m h. m h) mws (mux srv) (tagged_request (request_rid rand nanos r) r))"
    and "final (wire_finish (under (srv_recorder (ServeHTTP rand nanos allow obs elapsed srv w s r)))) = Some (c, h)"
  shows "header_get h k = v"
proof -
  let ?rid = "request_rid rand nanos r"
  let ?out = "ServeHTTP rand nanos allow obs elapsed srv w s r"
  let ?next = "foldr (\<lambda>m h. m h) mws (mux srv) (tagged_request ?rid r)"
  obtain recd where recd: "start_state ?rid w s = (recd, s)" "final (under recd) = None"
    using assms(1) by (simp add: start_state_def new_recorder_def fresh_wire_def)
  obtain p e where pe: "exec allow ?next (with_headers (policy_entries pol) recd, s) = (p, e)"
    by (cases "exec allow ?next (with_headers (policy_entries pol) recd, s)")
  have out: "?out = finish_request allow obs elapsed ?rid (tagged_request ?rid r) p e"
    using pe by (simp add: ServeHTTP_pipeline pipeline_def assms(2) recd exec_SecurityHeaders Let_def)
  have "has_header k v (under (with_headers (policy_entries pol) recd))"
    using with_headers_has [OF policy_entries_distinct assms(3) recd(2)] .
  from has_header_exec [OF _ assms(4) pe] this have e: "has_header k v (under (fst e))" by simp
  have "keeps_header k v (http_Error ''internal server error'' 500)"
    using assms(3) by (auto simp: http_Error_def policy_entries_def split: if_splits)
  from has_header_exec [OF e this] have "has_header k v (under (srv_recorder ?out))"
    using e by (cases "exec allow (http_Error ''internal server error'' 500) e") (auto simp: out finish_request_recorder)
  from has_header_wire(1) [OF this, of 200] assms(5) show ?thesis
    by (simp add: wire_finish_def has_header_def)
qed

definition demo_policy :: header_policy where
  "demo_policy = \<lparr>ContentSecurityPolicy = [], PermissionsPolicy = [], ReferrerPolicy = ''no-referrer'',
     StrictTransportSecurity = [], FrameOptions = [], NoSniff = True\<rparr>"

definition demo_secure :: server where
  "demo_secure = \<lparr>srv_config = demo_config, mux = (\<lambda>_. HTML 200 ''ok''), middlewares = [SecurityHeaders demo_policy]\<rparr>"

theorem SecurityHeaders_on_every_response_witness:
  "\<exists>c h. final (wire_finish (under (srv_recorder
       (ServeHTTP None 0 no_limiter None 5 demo_secure demo_wire () demo_request)))) = Some (c, h) \<and>
     header_get h ''Referrer-Policy'' = ''no-referrer''"
proof -
  let ?w = "under (srv_recorder (ServeHTTP None 0 no_limiter None 5 demo_secure demo_wire () demo_request))"
  have "\<exists>c h. final (wire_finish ?w) = Some (c, h)"
    by (simp add: ServeHTTP_pipeline pipeline_def demo_secure_def exec_SecurityHeaders HTML_def Let_def
        start_state_def new_recorder_def demo_wire_def demo_policy_def policy_entries_def with_headers_def upd_hdr_def
        rec_WriteHeader_def rec_Write_def rec_ensure_header_def wire_WriteHeader_def wire_Write_def
        is_informational_def body_allowed_def finish_request_recorder wire_finish_def)
  then obtain c h where f: "final (wire_finish ?w) = Some (c, h)" by blast
  have "header_get h ''Referrer-Policy'' = ''no-referrer''"
    using SecurityHeaders_on_every_response [OF demo_fresh _ _ _ f, of demo_policy "[]"]
    by (simp add: demo_secure_def demo_policy_def policy_entries_def HTML_def)
  with f show ?thesis by blast
qed

text \<open>
  Behind \<open>MaxBodyBytes\<close> with a positive limit a handler is given a body of at most the limit's
  bytes, and reading it to the end succeeds exactly for a body that fits, with all of it.
\<close>

theorem MaxBodyBytes_bounds_body:
  assumes "1 \<le> limit"
  shows "\<exists>b. MaxBodyBytes limit nxt r = nxt (r\<lparr>rq_body := b\<rparr>) \<and> int (length (rd_data b)) \<le> limit \<and>
    (ReadAll b = Inr d) = (ReadAll (rq_body r) = Inr d \<and> int (length d) \<le> limit)"
  using assms
  by (intro exI [of _ "MaxBytesReader (rq_body r) limit"])
    (auto simp: MaxBodyBytes_def MaxBytesReader_def ReadAll_def split: option.splits)

theorem MaxBodyBytes_bounds_body_witness:
  "MaxBodyBytes 3 (\<lambda>r. case ReadAll (rq_body r) of Inl e \<Rightarrow> Panic e | Inr d \<Rightarrow> Return)
     (demo_request\<lparr>rq_body := \<lparr>rd_data = ''abcd'', rd_err = None\<rparr>\<rparr>) \<noteq> Return"
  using MaxBodyBytes_bounds_body [of 3 "\<lambda>r. case ReadAll (rq_body r) of Inl e \<Rightarrow> Panic e | Inr d \<Rightarrow> Return"
      "demo_request\<lparr>rq_body := \<lparr>rd_data = ''abcd'', rd_err = None\<rparr>\<rparr>" "''abcd''"]
  by (auto simp: MaxBodyBytes_def MaxBytesReader_def ReadAll_def)

end
