(* ===== verification/Rate_Limiting.thy ===== *)
theory Rate_Limiting
  imports Server Ratelimit
begin

text \<open>
  The \<open>RateLimit\<close> middleware of \<open>server\<close> over a limiter: the contract a
  \<open>RateLimiter\<close> must keep is a locale, the middleware's guarantee is proved in it for the whole
  request pipeline, and the in-memory limiter of \<open>ratelimit\<close> is shown to keep the contract.
\<close>

section \<open>The contract of a limiter\<close>

type_synonym 's limiter = "'s \<Rightarrow> time \<Rightarrow> ctx_error option \<Rightarrow> string \<Rightarrow> 's \<times> (unit + bool)"

text \<open>The times at which a sequence of calls let one key pass.\<close>

fun passes :: "'s limiter \<Rightarrow> 's \<Rightarrow> (time \<times> ctx_error option \<times> string) list \<Rightarrow> string \<Rightarrow> time list" where
  "passes allow s [] key = []"
| "passes allow s ((now, c, k) # cs) key =
     (case allow s now c k of (s', v) \<Rightarrow>
        (if k = key \<and> v = Inr True then [now] else []) @ passes allow s' cs key)"

text \<open>The clock readings and keys of the calls, and what a fixed-window limit allows in an interval.\<close>

definition readings :: "(time \<times> ctx_error option \<times> string) list \<Rightarrow> (time \<times> string) list" where
  "readings cs = map (\<lambda>(now, c, k). (now, k)) cs"

definition allowance :: "int \<Rightarrow> duration \<Rightarrow> time \<Rightarrow> (time \<times> string) list \<Rightarrow> string \<Rightarrow> int" where
  "allowance limit w T cs key =
     2 * limit - 1 + (limit - 1) * overtaken T False cs key + overtaken (T + w) False cs key"

locale rate_limiter =
  fixes allow :: "'s limiter" and ok :: "'s \<Rightarrow> bool"
    and window :: "'s \<Rightarrow> duration" and limit :: "'s \<Rightarrow> int"
  assumes budget: "ok s \<Longrightarrow>
    count_if (\<lambda>a. T \<le> a \<and> a < T + window s) (passes allow s cs key)
      \<le> allowance (limit s) (window s) T (readings cs) key"

section \<open>A server behind the middleware\<close>

text \<open>A request as it arrives: the time, the random bytes and the clock for its identifier.\<close>

type_synonym arrival = "time \<times> string option \<times> int \<times> request"

definition arrived :: "arrival \<Rightarrow> request" where
  "arrived a = (case a of (now, rand, nanos, r) \<Rightarrow> tagged_request (request_rid rand nanos r) r)"

text \<open>Each request is served on a fresh connection; the limiter's state goes from one to the next.\<close>

fun serve_all :: "'s limiter \<Rightarrow> server \<Rightarrow> wire \<Rightarrow> 's \<Rightarrow> arrival list \<Rightarrow> (arrival \<times> int option) list" where
  "serve_all allow srv w s [] = []"
| "serve_all allow srv w s ((now, rand, nanos, r) # rest) =
     (let out = ServeHTTP rand nanos (\<lambda>s c k. allow s now c k) None 0 srv w s r in
      ((now, rand, nanos, r), wire_status (under (srv_recorder out))) #
        serve_all allow srv w (srv_limiter out) rest)"

text \<open>Handlers that do not call the limiter themselves.\<close>

fun not_limiter_call :: "action \<Rightarrow> bool" where
  "not_limiter_call (CallLimiter c k) = False"
| "not_limiter_call _ = True"

primrec limiter_free :: "prog \<Rightarrow> bool" where
  "limiter_free Return = True"
| "limiter_free (Panic v) = True"
| "limiter_free (Do a k) = (not_limiter_call a \<and> (\<forall>r. limiter_free (k r)))"

lemma perform_limiter_free: "not_limiter_call a \<Longrightarrow> perform allow a e = (x, e') \<Longrightarrow> snd e' = snd e"
  by (cases a; cases e) (auto split: prod.splits option.splits)

lemma exec_limiter_free: "limiter_free p \<Longrightarrow> exec allow p e = (v, e') \<Longrightarrow> snd e' = snd e"
proof (induction p arbitrary: e)
  case (Do a k)
  obtain x e1 where x: "perform allow a e = (x, e1)" by (cases "perform allow a e")
  with Do.prems perform_limiter_free [of a allow e x e1] Do.IH [OF rangeI, of _ e1] show ?case
    by (cases x) auto
qed auto

lemma limiter_free_http_Error [simp]: "limiter_free (http_Error msg code)"
  by (simp add: http_Error_def)

lemma finish_request_limiter:
  "srv_limiter (finish_request allow obs elapsed rid r p e) = snd e"
proof (cases "exec allow (http_Error ''internal server error'' 500) e")
  case (fields v r' s')
  with exec_limiter_free [OF limiter_free_http_Error fields] show ?thesis
    by (auto simp: finish_request_def Let_def split: option.splits prod.splits)
qed

lemma exec_RateLimit:
  "exec allow (RateLimit True (Some key) nxt r) (recd, s) =
     (case allow s (ctx_err (rq_ctx r)) (key r) of (s', v) \<Rightarrow>
        exec allow (case v of
            Inr True \<Rightarrow> nxt r
          | Inr False \<Rightarrow> do_action (SetHeader ''Retry-After'' ''1'') (http_Error ''rate limit exceeded'' 429)
          | Inl e \<Rightarrow> http_Error ''rate limit unavailable'' 503) (recd, s'))"
  by (auto simp: RateLimit_def split: prod.splits sum.splits bool.splits)

text \<open>A request that the limiter does not let pass is answered by the middleware: 429 or 503.\<close>

lemma ServeHTTP_limited:
  assumes srv: "middlewares srv = RateLimit True (Some key) # mws" and w: "fresh_wire w"
    and free: "\<And>r. limiter_free (foldr (\<lambda>m h. m h) mws (mux srv) r)"
    and v: "allow s (ctx_err (rq_ctx r')) (key r') = (s', v)" and r': "r' = tagged_request (request_rid rand nanos r) r"
  shows "srv_limiter (ServeHTTP rand nanos allow None elapsed srv w s r) = s' \<and>
    (v \<noteq> Inr True \<longrightarrow>
      wire_status (under (srv_recorder (ServeHTTP rand nanos allow None elapsed srv w s r))) \<in> {Some 429, Some 503})"
proof -
  let ?out = "ServeHTTP rand nanos allow None elapsed srv w s r"
  let ?rid = "request_rid rand nanos r"
  let ?next = "foldr (\<lambda>m h. m h) mws (mux srv)"
  let ?q = "case v of Inr True \<Rightarrow> ?next r'
          | Inr False \<Rightarrow> do_action (SetHeader ''Retry-After'' ''1'') (http_Error ''rate limit exceeded'' 429)
          | Inl e \<Rightarrow> http_Error ''rate limit unavailable'' 503"
  obtain recd where recd: "start_state ?rid w s = (recd, s)" "\<And>s'. start_state ?rid w s' = (recd, s')"
    by (simp add: start_state_def)
  obtain p e where pe: "exec allow ?q (recd, s') = (p, e)" by (cases "exec allow ?q (recd, s')")
  have out: "?out = finish_request allow None elapsed ?rid r' p e"
    using pe v unfolding r' by (simp add: ServeHTTP_pipeline pipeline_def srv exec_RateLimit recd Let_def)
  have "limiter_free ?q" using free [of r'] by (auto split: sum.splits bool.splits)
  then have lim: "srv_limiter ?out = s'"
    using exec_limiter_free [OF _ pe] by (simp add: out finish_request_limiter)
  have fresh: "\<not> wroteHeader recd" "fresh_wire (under recd)" "rec_bytes recd = 0"
    using recd(1) w by (auto simp: start_state_def new_recorder_def fresh_wire_def)
  then have fresh': "\<not> wroteHeader (upd_hdr f recd)" "fresh_wire (under (upd_hdr f recd))" "rec_bytes (upd_hdr f recd) = 0" for f
    by (simp_all add: upd_hdr_def fresh_wire_def)
  have "wire_status (under (srv_recorder ?out)) \<in> {Some 429, Some 503}" if "v \<noteq> Inr True"
  proof (cases v)
    case (Inl u)
    with pe exec_http_Error [OF fresh, of 503 allow "''rate limit unavailable''" s'] show ?thesis
      by (auto simp: out finish_request_recorder body_allowed_def)
  next
    case (Inr b)
    with that have "b = False" by simp
    with Inr pe exec_http_Error [OF fresh', of 429 allow "''rate limit exceeded''" "AList.update ''Retry-After'' ''1''" s']
    show ?thesis by (auto simp: out finish_request_recorder body_allowed_def)
  qed
  with lim show ?thesis by blast
qed

text \<open>The responses the middleware did not write are at times at which the limiter let the key pass.\<close>

definition served_times :: "(request \<Rightarrow> string) \<Rightarrow> string \<Rightarrow> (arrival \<times> int option) list \<Rightarrow> time list" where
  "served_times key k outs =
     map (\<lambda>(a, st). fst a) (filter (\<lambda>(a, st). key (arrived a) = k \<and> st \<noteq> Some 429 \<and> st \<noteq> Some 503) outs)"

definition limiter_calls :: "(request \<Rightarrow> string) \<Rightarrow> arrival list \<Rightarrow> (time \<times> ctx_error option \<times> string) list" where
  "limiter_calls key as = map (\<lambda>a. (fst a, ctx_err (rq_ctx (arrived a)), key (arrived a))) as"

lemma served_count_le:
  assumes "middlewares srv = RateLimit True (Some key) # mws" "fresh_wire w"
    and "\<And>r. limiter_free (foldr (\<lambda>m h. m h) mws (mux srv) r)"
  shows "count_if P (served_times key k (serve_all allow srv w s as)) \<le> count_if P (passes allow s (limiter_calls key as) k)"
proof (induction as arbitrary: s)
  case Nil
  show ?case by (simp add: served_times_def limiter_calls_def)
next
  case (Cons a as)
  obtain now rand nanos r where a: "a = (now, rand, nanos, r)" by (cases a)
  let ?out = "ServeHTTP rand nanos (\<lambda>s c k. allow s now c k) None 0 srv w s r"
  let ?st = "wire_status (under (srv_recorder ?out))"
  obtain s' v where v: "allow s now (ctx_err (rq_ctx (arrived a))) (key (arrived a)) = (s', v)"
    by (cases "allow s now (ctx_err (rq_ctx (arrived a))) (key (arrived a))")
  have one: "srv_limiter ?out = s'" "v \<noteq> Inr True \<Longrightarrow> ?st = Some 429 \<or> ?st = Some 503"
    using ServeHTTP_limited [OF assms(1,2,3), of "\<lambda>s c k. allow s now c k" s "arrived a" s' v rand nanos r] v
    by (auto simp: a arrived_def)
  have head: "count_if P (served_times key k (serve_all allow srv w s (a # as))) =
      (if key (arrived a) = k \<and> ?st \<noteq> Some 429 \<and> ?st \<noteq> Some 503 \<and> P now then 1 else 0) +
      count_if P (served_times key k (serve_all allow srv w s' as))"
    by (simp add: served_times_def a Let_def one(1))
  have "count_if P (passes allow s (limiter_calls key (a # as)) k) =
      (if key (arrived a) = k \<and> v = Inr True \<and> P now then 1 else 0) +
      count_if P (passes allow s' (limiter_calls key as) k)"
    using v by (simp add: limiter_calls_def a)
  with head Cons.IH [of s'] one(2) show ?case by auto
qed

context rate_limiter
begin

text \<open>Behind the middleware no key gets more answers from the application than the contract allows.\<close>

lemma middleware_budget:
  assumes "middlewares srv = RateLimit True (Some key) # mws" "fresh_wire w"
    and "\<And>r. limiter_free (foldr (\<lambda>m h. m h) mws (mux srv) r)"
    and "ok s"
  shows "count_if (\<lambda>t. T \<le> t \<and> t < T + window s) (served_times key k (serve_all allow srv w s as))
    \<le> allowance (limit s) (window s) T (map (\<lambda>a. (fst a, key (arrived a))) as) k"
proof -
  have "readings (limiter_calls key as) = map (\<lambda>a. (fst a, key (arrived a))) as"
    by (simp add: readings_def limiter_calls_def comp_def)
  with budget [OF assms(4), of T "limiter_calls key as" k]
    served_count_le [OF assms(1,2,3), of "\<lambda>t. T \<le> t \<and> t < T + window s" k allow s as]
  show ?thesis by simp
qed

end

section \<open>The in-memory limiter keeps the contract\<close>

definition memory_allow :: "memory limiter" where
  "memory_allow m now c key =
     (case Allow (Some (\<lparr>ctx_err = c, ctx_pairs = []\<rparr> :: (unit, unit) ctx)) (Some m) now key of
        (m', res) \<Rightarrow> (the m', case res of Inl err \<Rightarrow> Inl () | Inr b \<Rightarrow> Inr b))"

lemma memory_allow_cases:
  "memory_allow m now c key =
     (if validKey key \<noteq> None \<or> c \<noteq> None then (m, Inl ())
      else case allow_locked m now key of (m', res) \<Rightarrow> (m', case res of Inl err \<Rightarrow> Inl () | Inr b \<Rightarrow> Inr b))"
  by (auto simp: memory_allow_def Allow_def split: option.splits prod.splits)

text \<open>Calls that reach the locked section, in order.\<close>

definition locked_calls :: "(time \<times> ctx_error option \<times> string) list \<Rightarrow> (time \<times> string) list" where
  "locked_calls cs = map (\<lambda>(now, c, k). (now, k)) (filter (\<lambda>(now, c, k). validKey k = None \<and> c = None) cs)"

lemma memory_passes: "passes memory_allow m cs key = allowed_times m (locked_calls cs) key"
proof (induction cs arbitrary: m)
  case Nil
  show ?case by (simp add: locked_calls_def)
next
  case (Cons x cs)
  obtain now c k where x: "x = (now, c, k)" by (cases x)
  obtain m' res where l: "allow_locked m now k = (m', res)" by (cases "allow_locked m now k")
  from Cons.IH [of m] Cons.IH [of m'] l show ?case
    by (cases res) (auto simp: x memory_allow_cases locked_calls_def)
qed

text \<open>Calls that never get to the lock overtake nothing.\<close>

lemma overtaken_locked:
  "past \<le> past' \<Longrightarrow> overtaken t past (locked_calls cs) key \<le> overtaken t past' (readings cs) key"
proof (induction cs arbitrary: past past')
  case Nil
  show ?case by (simp add: locked_calls_def readings_def)
next
  case (Cons x cs)
  obtain now c k where x: "x = (now, c, k)" by (cases x)
  have "overtaken t past (locked_calls cs) key \<le> overtaken t (past' \<or> t \<le> now) (readings cs) key"
    "overtaken t (past \<or> t \<le> now) (locked_calls cs) key \<le> overtaken t (past' \<or> t \<le> now) (readings cs) key"
    using Cons.prems by (auto intro: Cons.IH)
  with Cons.prems show ?case by (auto simp: x locked_calls_def readings_def)
qed

interpretation memory_limiter: rate_limiter memory_allow mem_ok "\<lambda>m. Window (mem_policy m)"
  "\<lambda>m. Limit (mem_policy m)"
proof
  fix s and cs :: "(time \<times> ctx_error option \<times> string) list" and T key
  assume ok: "mem_ok s"
  let ?L = "Limit (mem_policy s)" and ?W = "Window (mem_policy s)"
  have "(?L - 1) * overtaken T False (locked_calls cs) key \<le> (?L - 1) * overtaken T False (readings cs) key"
    using ok by (intro mult_left_mono overtaken_locked) (simp_all add: mem_ok_def)
  moreover have "overtaken (T + ?W) False (locked_calls cs) key \<le> overtaken (T + ?W) False (readings cs) key"
    by (simp add: overtaken_locked)
  ultimately show "count_if (\<lambda>a. T \<le> a \<and> a < T + ?W) (passes memory_allow s cs key)
      \<le> allowance ?L ?W T (readings cs) key"
    using any_interval [OF ok, of T "locked_calls cs" key]
    by (simp add: memory_passes allowance_def)
qed

section \<open>Properties\<close>

text \<open>
  C9. The rate limit holds end to end: a server whose outermost middleware is \<open>RateLimit\<close> over a
  \<open>Memory\<close> limiter, whatever its other middlewares and its handlers do or panic with (as long as they
  do not call that limiter themselves), gives one key fewer than twice the limit of answers other
  than its own 429 and 503 in any interval as long as the window, but for limit - 1 more for every
  request of the key that is overtaken at the start of the interval, and one more for every one that
  is overtaken at its end. Requests are taken in the order in which they get the limiter's lock,
  with the clock reading they took before: one is overtaken at an instant if it read the clock
  before it and another that read the clock at or after it was faster. Errors of the limiter count
  as refusals, never as permission.
\<close>

theorem RateLimit_end_to_end:
  assumes "NewMemory pol n = Inr m" "fresh_wire w" "middlewares srv = RateLimit True (Some key) # mws"
    and "\<And>r. limiter_free (foldr (\<lambda>m h. m h) mws (mux srv) r)"
  shows "count_if (\<lambda>t. T \<le> t \<and> t < T + Window (mem_policy m))
      (served_times key k (serve_all memory_allow srv w m as))
    \<le> 2 * Limit pol - 1 + (Limit pol - 1) * overtaken T False (map (\<lambda>a. (fst a, key (arrived a))) as) k +
      overtaken (T + Window (mem_policy m)) False (map (\<lambda>a. (fst a, key (arrived a))) as) k"
proof -
  have "Limit (mem_policy m) = Limit pol"
    using assms(1) by (auto simp: NewMemory_def Let_def split: if_splits)
  with memory_limiter.middleware_budget [OF assms(3,2,4), of m T k as] NewMemory_ok [OF assms(1)]
  show ?thesis by (simp add: allowance_def)
qed


definition demo_limited :: server where
  "demo_limited = \<lparr>srv_config = demo_config, mux = (\<lambda>_. HTML 200 ''ok''), middlewares = [RateLimit True (Some (\<lambda>_. ''a''))]\<rparr>"

theorem RateLimit_end_to_end_witness:
  "count_if (\<lambda>t. 0 \<le> t \<and> t < 1000000) (served_times (\<lambda>_. ''a'') ''a''
     (serve_all memory_allow demo_limited demo_wire demo_memory
       [(5, None, 0, demo_request), (6, None, 0, demo_request), (7, None, 0, demo_request)])) \<le> 3"
proof -
  have "limiter_free (foldr (\<lambda>m h. m h) [] (mux demo_limited) r)" for r
    by (simp add: demo_limited_def HTML_def)
  then show ?thesis
    using RateLimit_end_to_end [OF demo_memory_new demo_fresh, of demo_limited "\<lambda>_. ''a''" "[]" 0 "''a''"
        "[(5, None, 0, demo_request), (6, None, 0, demo_request), (7, None, 0, demo_request)]"]
    by (simp add: demo_limited_def demo_memory_def)
qed

end
