(* ===== verification/Go_Json.thy ===== *)
theory Go_Json
  imports Go_IO
begin

text \<open>
  The part of \<open>encoding/json\<close> the code runs on: the scanner that checks syntax byte by byte, the
  stream decoder of \<open>json.NewDecoder\<close> built on it, and the encoder of strings. What a document
  means for a Go type is reflection over application types and a parameter of the decoder.
\<close>

section \<open>The scanner\<close>

text \<open>The step functions of \<open>scanner.go\<close> as states, and its stack of enclosing values.\<close>

datatype json_state = BeginValue | BeginValueOrEmpty | BeginString | BeginStringOrEmpty | EndValue | EndTop
  | InString | InStringEsc | InStringEscU nat
  | Neg | Digits | Zero | Dot | Dot0 | Exp | ExpSign | Exp0
  | Lit string

datatype enclosing = ObjectKey | ObjectValue | ArrayValue

type_synonym scan_state = "json_state \<times> enclosing list"

datatype scan_code = Continue | EndComposite | ScanEnd | ScanError

definition json_space :: "char \<Rightarrow> bool" where
  "json_space c \<longleftrightarrow> byte c = 32 \<or> byte c = 9 \<or> byte c = 13 \<or> byte c = 10"

definition max_nesting :: nat where "max_nesting = 10000"

definition scan_error :: "scan_code \<times> scan_state" where
  "scan_error = (ScanError, (EndTop, []))"

definition push_state :: "json_state \<Rightarrow> enclosing \<Rightarrow> enclosing list \<Rightarrow> scan_code \<times> scan_state" where
  "push_state next p ps = (if length ps < max_nesting then (Continue, (next, p # ps)) else scan_error)"

definition pop_state :: "enclosing list \<Rightarrow> scan_code \<times> scan_state" where
  "pop_state ps = (EndComposite, (if tl ps = [] then EndTop else EndValue, tl ps))"

definition end_value :: "enclosing list \<Rightarrow> char \<Rightarrow> scan_code \<times> scan_state" where
  "end_value ps c =
     (case ps of
        [] \<Rightarrow> (ScanEnd, (EndTop, []))
      | p # qs \<Rightarrow>
         if json_space c then (Continue, (EndValue, ps))
         else case p of
           ObjectKey \<Rightarrow> if c = CHR '':'' then (Continue, (BeginValue, ObjectValue # qs)) else scan_error
         | ObjectValue \<Rightarrow>
             if c = CHR '','' then (Continue, (BeginString, ObjectKey # qs))
             else if c = CHR ''}'' then pop_state ps else scan_error
         | ArrayValue \<Rightarrow>
             if c = CHR '','' then (Continue, (BeginValue, ps))
             else if c = CHR '']'' then pop_state ps else scan_error)"

definition begin_value :: "enclosing list \<Rightarrow> char \<Rightarrow> scan_code \<times> scan_state" where
  "begin_value ps c =
     (if json_space c then (Continue, (BeginValue, ps))
      else if c = CHR ''{'' then push_state BeginStringOrEmpty ObjectKey ps
      else if c = CHR ''['' then push_state BeginValueOrEmpty ArrayValue ps
      else if byte c = 34 then (Continue, (InString, ps))
      else if c = CHR ''-'' then (Continue, (Neg, ps))
      else if c = CHR ''0'' then (Continue, (Zero, ps))
      else if is_digit c then (Continue, (Digits, ps))
      else if c = CHR ''t'' then (Continue, (Lit ''rue'', ps))
      else if c = CHR ''f'' then (Continue, (Lit ''alse'', ps))
      else if c = CHR ''n'' then (Continue, (Lit ''ull'', ps))
      else scan_error)"

definition begin_string :: "enclosing list \<Rightarrow> char \<Rightarrow> scan_code \<times> scan_state" where
  "begin_string ps c =
     (if json_space c then (Continue, (BeginString, ps))
      else if byte c = 34 then (Continue, (InString, ps)) else scan_error)"

definition exp_char :: "char \<Rightarrow> bool" where "exp_char c \<longleftrightarrow> c = CHR ''e'' \<or> c = CHR ''E''"

definition after_zero :: "enclosing list \<Rightarrow> char \<Rightarrow> scan_code \<times> scan_state" where
  "after_zero ps c =
     (if c = CHR ''.'' then (Continue, (Dot, ps))
      else if exp_char c then (Continue, (Exp, ps)) else end_value ps c)"

definition exp_sign :: "enclosing list \<Rightarrow> char \<Rightarrow> scan_code \<times> scan_state" where
  "exp_sign ps c = (if is_digit c then (Continue, (Exp0, ps)) else scan_error)"

fun scan_step :: "scan_state \<Rightarrow> char \<Rightarrow> scan_code \<times> scan_state" where
  "scan_step (BeginValue, ps) c = begin_value ps c"
| "scan_step (BeginValueOrEmpty, ps) c =
     (if json_space c then (Continue, (BeginValueOrEmpty, ps))
      else if c = CHR '']'' then end_value ps c else begin_value ps c)"
| "scan_step (BeginString, ps) c = begin_string ps c"
| "scan_step (BeginStringOrEmpty, ps) c =
     (if json_space c then (Continue, (BeginStringOrEmpty, ps))
      else if c = CHR ''}'' then end_value (ObjectValue # tl ps) c else begin_string ps c)"
| "scan_step (EndValue, ps) c = end_value ps c"
| "scan_step (EndTop, ps) c = (ScanEnd, (EndTop, []))"
| "scan_step (InString, ps) c =
     (if byte c = 34 then (Continue, (EndValue, ps))
      else if byte c = 92 then (Continue, (InStringEsc, ps))
      else if byte c < 32 then scan_error else (Continue, (InString, ps)))"
| "scan_step (InStringEsc, ps) c =
     (if c \<in> set ''bfnrt/'' \<or> byte c = 92 \<or> byte c = 34 then (Continue, (InString, ps))
      else if c = CHR ''u'' then (Continue, (InStringEscU 4, ps)) else scan_error)"
| "scan_step (InStringEscU n, ps) c =
     (if hex_val c = None then scan_error
      else (Continue, (if n \<le> 1 then InString else InStringEscU (n - 1), ps)))"
| "scan_step (Neg, ps) c =
     (if c = CHR ''0'' then (Continue, (Zero, ps))
      else if is_digit c then (Continue, (Digits, ps)) else scan_error)"
| "scan_step (Digits, ps) c = (if is_digit c then (Continue, (Digits, ps)) else after_zero ps c)"
| "scan_step (Zero, ps) c = after_zero ps c"
| "scan_step (Dot, ps) c = (if is_digit c then (Continue, (Dot0, ps)) else scan_error)"
| "scan_step (Dot0, ps) c =
     (if is_digit c then (Continue, (Dot0, ps))
      else if exp_char c then (Continue, (Exp, ps)) else end_value ps c)"
| "scan_step (Exp, ps) c =
     (if c = CHR ''+'' \<or> c = CHR ''-'' then (Continue, (ExpSign, ps)) else exp_sign ps c)"
| "scan_step (ExpSign, ps) c = exp_sign ps c"
| "scan_step (Exp0, ps) c = (if is_digit c then (Continue, (Exp0, ps)) else end_value ps c)"
| "scan_step (Lit s, ps) c =
     (if s \<noteq> [] \<and> c = hd s then (Continue, (if tl s = [] then EndValue else Lit (tl s), ps)) else scan_error)"

section \<open>The stream decoder\<close>

text \<open>
  \<open>readValue\<close>: the number of bytes of the next value, an error, or that the data ran out in some
  state. The end of an object or array is seen at once, any other end one byte later.
\<close>

datatype scanned = Complete nat | BadSyntax | More scan_state

fun scan_value :: "scan_state \<Rightarrow> string \<Rightarrow> nat \<Rightarrow> scanned" where
  "scan_value st [] n = More st"
| "scan_value st (c # r) n =
     (case scan_step st c of
        (ScanError, _) \<Rightarrow> BadSyntax
      | (ScanEnd, _) \<Rightarrow> Complete n
      | (EndComposite, (s, ps)) \<Rightarrow> if ps = [] then Complete (n + 1) else scan_value (s, ps) r (n + 1)
      | (Continue, st) \<Rightarrow> scan_value st r (n + 1))"

definition scan_start :: scan_state where "scan_start = (BeginValue, [])"

datatype json_error = EOF | UnexpectedEOF | SyntaxError | ReadFailed string | TypeError string

text \<open>\<open>unmarshal\<close> fills the target from the bytes of one value.\<close>

definition json_Decode :: "(string \<Rightarrow> string + 'a) \<Rightarrow> reader \<Rightarrow> (json_error + 'a) \<times> reader" where
  "json_Decode unmarshal r =
     (let take_value = (\<lambda>n. (case unmarshal (take n (rd_data r)) of Inl e \<Rightarrow> Inl (TypeError e) | Inr v \<Rightarrow> Inr v,
                              r\<lparr>rd_data := drop n (rd_data r)\<rparr>))
      in case scan_value scan_start (rd_data r) 0 of
        BadSyntax \<Rightarrow> (Inl SyntaxError, r)
      | Complete n \<Rightarrow> take_value n
      | More st \<Rightarrow>
         (case rd_err r of
            Some e \<Rightarrow> (Inl (ReadFailed e), r)
          | None \<Rightarrow>
              if fst (scan_step st (CHR '' '')) = ScanEnd then take_value (length (rd_data r))
              else if list_ex (\<lambda>c. \<not> json_space c) (rd_data r) then (Inl UnexpectedEOF, r)
              else (Inl EOF, r)))"

section \<open>The encoder of strings\<close>

text \<open>
  A string literal as \<open>Marshal\<close> and \<open>NewEncoder\<close> write it, HTML escaping on: invalid UTF-8
  becomes U+FFFD, U+2028 and U+2029 are escaped.
\<close>

definition backslash :: char where "backslash = CHR 0x5C"
definition quote :: char where "quote = CHR 0x22"

definition json_ascii :: "char \<Rightarrow> string" where
  "json_ascii c = (let b = byte c in
     if b = 92 \<or> b = 34 then [backslash, c]
     else if b = 8 then [backslash, CHR ''b'']
     else if b = 12 then [backslash, CHR ''f'']
     else if b = 10 then [backslash, CHR ''n'']
     else if b = 13 then [backslash, CHR ''r'']
     else if b = 9 then [backslash, CHR ''t'']
     else if b < 32 \<or> c \<in> set ''<>&'' then backslash # ''u00'' @ [hex_digit (b div 16), hex_digit (b mod 16)]
     else [c])"

definition json_rune :: "string \<Rightarrow> string" where
  "json_rune u =
     (if map byte u = [226, 128, 168] then backslash # ''u2028''
      else if map byte u = [226, 128, 169] then backslash # ''u2029'' else u)"

function json_chars :: "string \<Rightarrow> string" where
  "json_chars [] = []"
| "json_chars (c # r) =
     (if ascii c then json_ascii c @ json_chars r
      else case utf8_width (c # r) of
        None \<Rightarrow> backslash # ''ufffd'' @ json_chars r
      | Some w \<Rightarrow> json_rune (take w (c # r)) @ json_chars (drop w (c # r)))"
  by pat_completeness auto
termination
  by (relation "measure length") (auto dest: utf8_width_pos)

declare json_chars.simps(2) [simp del]

definition json_string :: "string \<Rightarrow> string" where
  "json_string s = quote # json_chars s @ [quote]"

text \<open>\<open>"key": value\<close> members, arrays and objects without white space, as \<open>Encode\<close> writes them.\<close>

definition json_member :: "string \<Rightarrow> string \<Rightarrow> string" where
  "json_member key value = json_string key @ '':'' @ value"

definition json_object :: "string list \<Rightarrow> string" where
  "json_object members = ''{'' @ join_bytes '','' members @ ''}''"

definition json_array :: "string list \<Rightarrow> string" where
  "json_array elements = ''['' @ join_bytes '','' elements @ '']''"

section \<open>What the encoder writes scans\<close>

text \<open>The scanner run over a text that does not end the document; \<open>None\<close> if it ends or fails.\<close>

fun scan_run :: "scan_state \<Rightarrow> string \<Rightarrow> scan_state option" where
  "scan_run st [] = Some st"
| "scan_run st (c # r) =
     (case scan_step st c of
        (Continue, st) \<Rightarrow> scan_run st r
      | (EndComposite, (s, ps)) \<Rightarrow> if ps = [] then None else scan_run (s, ps) r
      | _ \<Rightarrow> None)"

lemma scan_run_append:
  "scan_run st (s @ t) = (case scan_run st s of None \<Rightarrow> None | Some st \<Rightarrow> scan_run st t)"
proof (induction s arbitrary: st)
  case (Cons c r)
  then show ?case by (auto split: prod.splits scan_code.splits)
qed simp

lemma scan_run_appendI: "scan_run st s = Some st1 \<Longrightarrow> scan_run st1 t = Some st2 \<Longrightarrow> scan_run st (s @ t) = Some st2"
  by (simp add: scan_run_append)

lemma scan_value_run:
  "scan_run st s = Some st' \<Longrightarrow> scan_value st (s @ t) n = scan_value st' t (n + length s)"
proof (induction s arbitrary: st n)
  case (Cons c r)
  then show ?case by (auto split: prod.splits scan_code.splits if_splits)
qed simp

lemma scan_run_string_bytes:
  "list_all (\<lambda>c. 32 \<le> byte c \<and> byte c \<noteq> 34 \<and> byte c \<noteq> 92) u \<Longrightarrow> scan_run (InString, ps) u = Some (InString, ps)"
  by (induction u) auto

lemma byte_consts:
  "byte backslash = 92" "byte quote = 34" "byte (CHR ''u'') = 117" "byte (CHR ''b'') = 98" "byte (CHR ''f'') = 102"
  "byte (CHR ''n'') = 110" "byte (CHR ''r'') = 114" "byte (CHR ''t'') = 116"
  by (simp_all add: byte_def backslash_def quote_def)

lemma hex_val_0: "hex_val (CHR ''0'') = Some 0" "hex_val (CHR ''2'') = Some 2" "hex_val (CHR ''8'') = Some 8"
  "hex_val (CHR ''9'') = Some 9" "hex_val (CHR ''d'') = Some 13" "hex_val (CHR ''f'') = Some 15"
  by (simp_all add: hex_val_def byte_def Let_def)

lemma scan_run_json_ascii: "ascii c \<Longrightarrow> scan_run (InString, ps) (json_ascii c) = Some (InString, ps)"
  by (auto simp: json_ascii_def Let_def ascii_def byte_consts hex_val_0 less_mult_imp_div_less)

lemma utf8_width_bytes:
  assumes "utf8_width (c # r) = Some w" "\<not> ascii c"
  shows "list_all (\<lambda>c. 128 \<le> byte c) (take w (c # r))"
  using assms
  by (auto simp: utf8_width_def ascii_def cont_byte_def Let_def split: list.splits if_splits)

lemma scan_run_json_rune:
  "list_all (\<lambda>c. 128 \<le> byte c) u \<Longrightarrow> scan_run (InString, ps) (json_rune u) = Some (InString, ps)"
  by (auto simp: json_rune_def byte_consts hex_val_0 intro!: scan_run_string_bytes elim!: list.pred_mono_strong)

lemma scan_run_json_chars: "scan_run (InString, ps) (json_chars s) = Some (InString, ps)"
proof (induction s rule: json_chars.induct)
  case (2 c r)
  show ?case
  proof (cases "ascii c")
    case True
    with 2 show ?thesis by (simp add: json_chars.simps scan_run_append scan_run_json_ascii)
  next
    case False
    show ?thesis
    proof (cases "utf8_width (c # r)")
      case None
      with False 2 show ?thesis by (simp add: json_chars.simps byte_consts hex_val_0)
    next
      case (Some w)
      with False 2 utf8_width_bytes [OF Some False] show ?thesis
        by (simp add: json_chars.simps scan_run_append scan_run_json_rune)
    qed
  qed
qed simp

text \<open>
  A complete value nested at most \<open>d\<close> levels deep: inside any other value it takes the scanner
  from the start of a value to its end.
\<close>

definition scans_value :: "nat \<Rightarrow> string \<Rightarrow> bool" where
  "scans_value d v \<longleftrightarrow>
     (\<forall>ps. ps \<noteq> [] \<longrightarrow> length ps + d \<le> max_nesting \<longrightarrow> scan_run (BeginValue, ps) v = Some (EndValue, ps))"

lemma not_space_consts:
  "\<not> json_space quote" "\<not> json_space (CHR ''{'')" "\<not> json_space (CHR ''['')" "\<not> json_space (CHR '']'')"
  "\<not> json_space (CHR ''}'')" "\<not> json_space (CHR '','')" "\<not> json_space (CHR '':'')"
  by (simp_all add: json_space_def quote_def byte_def)

lemma scan_string_literal:
  "scan_run (BeginValue, ps) (json_string s) = Some (EndValue, ps)"
  "scan_run (BeginString, ps) (json_string s) = Some (EndValue, ps)"
  "scan_run (BeginStringOrEmpty, ps) (json_string s) = Some (EndValue, ps)"
  by (simp_all add: json_string_def scan_run_append scan_run_json_chars begin_value_def begin_string_def
      not_space_consts byte_consts) (simp_all add: quote_def)

lemma scans_string: "scans_value d (json_string s)"
  by (simp add: scans_value_def scan_string_literal)

lemma scan_member:
  assumes "scans_value d v" "length ps + 1 + d \<le> max_nesting" "st \<in> {BeginString, BeginStringOrEmpty}"
  shows "scan_run (st, ObjectKey # ps) (json_member k v) = Some (EndValue, ObjectValue # ps)"
proof -
  have "scan_run (st, ObjectKey # ps) (json_string k) = Some (EndValue, ObjectKey # ps)"
    using assms(3) by (auto simp: scan_string_literal)
  moreover have "scan_run (BeginValue, ObjectValue # ps) v = Some (EndValue, ObjectValue # ps)"
    using assms(1,2) by (simp add: scans_value_def)
  ultimately show ?thesis
    by (simp add: json_member_def scan_run_append end_value_def not_space_consts)
qed

lemma scan_members:
  assumes "list_all (\<lambda>(k, v). scans_value d v) kvs" "length ps + 1 + d \<le> max_nesting" "kvs \<noteq> []"
    "st \<in> {BeginString, BeginStringOrEmpty}"
  shows "scan_run (st, ObjectKey # ps) (join_bytes '','' (map (\<lambda>(k, v). json_member k v) kvs)) =
     Some (EndValue, ObjectValue # ps)"
  using assms
proof (induction kvs arbitrary: st)
  case (Cons kv kvs)
  obtain k v where kv: "kv = (k, v)" by (cases kv)
  from Cons.prems have first: "scan_run (st, ObjectKey # ps) (json_member k v) = Some (EndValue, ObjectValue # ps)"
    by (intro scan_member) (simp_all add: kv)
  show ?case
  proof (cases kvs)
    case Nil
    with first show ?thesis by (simp add: kv)
  next
    case (Cons x xs)
    have "scan_run (BeginString, ObjectKey # ps) (join_bytes '','' (map (\<lambda>(k, v). json_member k v) kvs)) =
        Some (EndValue, ObjectValue # ps)"
      using Cons.IH Cons.prems \<open>kvs = x # xs\<close> by simp
    with first Cons show ?thesis
      by (simp add: kv scan_run_append end_value_def not_space_consts split: prod.splits)
  qed
qed simp

text \<open>The members of an object, up to its closing brace.\<close>

lemma scan_object_body:
  assumes "list_all (\<lambda>(k, v). scans_value d v) kvs" "length ps + 1 + d \<le> max_nesting"
  shows "\<exists>st. scan_run (BeginStringOrEmpty, ObjectKey # ps)
      (join_bytes '','' (map (\<lambda>(k, v). json_member k v) kvs)) = Some st \<and> scan_step st (CHR ''}'') = pop_state (ObjectValue # ps)"
proof (cases "kvs = []")
  case False
  with scan_members [OF assms False, of BeginStringOrEmpty] show ?thesis
    by (intro exI [of _ "(EndValue, ObjectValue # ps)"]) (simp add: end_value_def not_space_consts)
qed (simp add: end_value_def not_space_consts)

abbreviation json_fields :: "(string \<times> string) list \<Rightarrow> string" where
  "json_fields kvs \<equiv> json_object (map (\<lambda>(k, v). json_member k v) kvs)"

lemma scans_object:
  assumes "list_all (\<lambda>(k, v). scans_value d v) kvs"
  shows "scans_value (d + 1) (json_fields kvs)"
  unfolding scans_value_def
proof (intro allI impI)
  fix ps :: "enclosing list"
  assume ps: "ps \<noteq> []" "length ps + (d + 1) \<le> max_nesting"
  then have "length ps + 1 + d \<le> max_nesting" by simp
  from scan_object_body [OF assms this] obtain st where
    "scan_run (BeginStringOrEmpty, ObjectKey # ps) (join_bytes '','' (map (\<lambda>(k, v). json_member k v) kvs)) = Some st"
    "scan_step st (CHR ''}'') = pop_state (ObjectValue # ps)" by blast
  moreover have "scan_step (BeginValue, ps) (CHR ''{'') = (Continue, (BeginStringOrEmpty, ObjectKey # ps))"
    using ps by (simp add: begin_value_def not_space_consts push_state_def)
  moreover have "pop_state (ObjectValue # ps) = (EndComposite, (EndValue, ps))"
    using ps(1) by (simp add: pop_state_def)
  ultimately show "scan_run (BeginValue, ps) (json_fields kvs) = Some (EndValue, ps)"
    using ps(1) unfolding json_object_def by (simp add: scan_run_append del: scan_step.simps)
qed

lemma scan_elements:
  assumes "list_all (scans_value d) vs" "length ps + 1 + d \<le> max_nesting" "vs \<noteq> []"
  shows "scan_run (BeginValue, ArrayValue # ps) (join_bytes '','' vs) = Some (EndValue, ArrayValue # ps)"
  using assms
proof (induction vs)
  case (Cons v vs)
  then have first: "scan_run (BeginValue, ArrayValue # ps) v = Some (EndValue, ArrayValue # ps)"
    by (simp add: scans_value_def)
  then show ?case
    using Cons by (cases vs) (simp_all add: scan_run_append end_value_def not_space_consts)
qed simp

text \<open>An element never starts with a closing bracket, so an array may start with it.\<close>

lemma begin_value_or_empty:
  "scan_run (BeginValue, ps) s = Some st \<Longrightarrow> s \<noteq> [] \<Longrightarrow> hd s \<noteq> CHR '']'' \<Longrightarrow> \<not> json_space (hd s) \<Longrightarrow>
   scan_run (BeginValueOrEmpty, ps) s = Some st"
  by (cases s) auto

lemma scans_array:
  assumes "list_all (scans_value d) vs" "list_all (\<lambda>v. v \<noteq> [] \<and> hd v \<noteq> CHR '']'' \<and> \<not> json_space (hd v)) vs"
  shows "scans_value (d + 1) (json_array vs)"
  unfolding scans_value_def
proof (intro allI impI)
  fix ps :: "enclosing list"
  assume ps: "ps \<noteq> []" "length ps + (d + 1) \<le> max_nesting"
  show "scan_run (BeginValue, ps) (json_array vs) = Some (EndValue, ps)"
  proof (cases vs)
    case Nil
    with ps show ?thesis
      by (simp add: json_array_def begin_value_def not_space_consts push_state_def pop_state_def end_value_def)
  next
    case (Cons v ws)
    then have "join_bytes '','' vs \<noteq> []" "hd (join_bytes '','' vs) = hd v"
      using assms(2) by (cases ws; simp)+
    moreover have "length ps + 1 + d \<le> max_nesting" using ps by simp
    from scan_elements [OF assms(1) this] Cons
    have "scan_run (BeginValue, ArrayValue # ps) (join_bytes '','' vs) = Some (EndValue, ArrayValue # ps)" by simp
    ultimately have "scan_run (BeginValueOrEmpty, ArrayValue # ps) (join_bytes '','' vs) = Some (EndValue, ArrayValue # ps)"
      using assms(2) Cons by (intro begin_value_or_empty) simp_all
    with ps show ?thesis
      by (simp add: json_array_def scan_run_append begin_value_def not_space_consts push_state_def pop_state_def end_value_def)
  qed
qed

text \<open>An object at the top of a document is found complete at its closing brace.\<close>

lemma scan_document:
  assumes "list_all (\<lambda>(k, v). scans_value d v) kvs" "d < max_nesting"
  shows "scan_value scan_start (json_fields kvs @ t) 0 = Complete (length (json_fields kvs))"
proof -
  have "length ([] :: enclosing list) + 1 + d \<le> max_nesting" using assms(2) by simp
  from scan_object_body [OF assms(1) this] obtain st where
    run: "scan_run (BeginStringOrEmpty, [ObjectKey]) (join_bytes '','' (map (\<lambda>(k, v). json_member k v) kvs)) = Some st"
    and close: "scan_step st (CHR ''}'') = pop_state [ObjectValue]" by blast
  have "scan_step scan_start (CHR ''{'') = (Continue, (BeginStringOrEmpty, [ObjectKey]))"
    by (simp add: scan_start_def begin_value_def not_space_consts push_state_def max_nesting_def)
  then have "scan_value scan_start (json_fields kvs @ t) 0 = scan_value (BeginStringOrEmpty, [ObjectKey])
      (join_bytes '','' (map (\<lambda>(k, v). json_member k v) kvs) @ CHR ''}'' # t) 1"
    by (simp add: json_object_def del: scan_step.simps)
  also have "\<dots> = Complete (length (json_fields kvs))"
    using close by (simp add: scan_value_run [OF run] pop_state_def json_object_def del: scan_step.simps)
  finally show ?thesis .
qed

section \<open>The encoder's bytes\<close>

text \<open>At most six bytes for each byte, and always valid UTF-8.\<close>

lemma length_json_ascii: "length (json_ascii c) \<le> 6"
  by (simp add: json_ascii_def Let_def)

lemma length_json_rune: "length (json_rune u) \<le> 6 * length u"
  by (auto simp: json_rune_def dest: arg_cong [where f = length])

lemma length_json_chars: "length (json_chars s) \<le> 6 * length s"
proof (induction s rule: json_chars.induct)
  case (2 c r)
  show ?case
  proof (cases "ascii c")
    case True
    with 2 length_json_ascii [of c] show ?thesis by (simp add: json_chars.simps)
  next
    case False
    show ?thesis
    proof (cases "utf8_width (c # r)")
      case None
      with False 2 show ?thesis by (simp add: json_chars.simps)
    next
      case (Some w)
      with False 2 have "length (json_chars (drop w (c # r))) \<le> 6 * length (drop w (c # r))" by blast
      with length_json_rune [of "take w (c # r)"] False Some show ?thesis
        by (simp add: json_chars.simps min_def split: if_splits)
    qed
  qed
qed simp

lemma length_json_string: "length (json_string s) \<le> 6 * length s + 2"
  using length_json_chars [of s] by (simp add: json_string_def)

end
