(* ===== verification/Api.thy ===== *)
theory Api
  imports Server Go_Json
begin

text \<open>
  \<open>api/api.go\<close>: strict decoding of one bounded JSON document and the public error envelope.
  \<open>mime.ParseMediaType\<close> (\<open>None\<close> for an error) and the unmarshalling into the application's target
  are parameters; the scanner, the stream decoder and the encoder are those of \<open>Go_Json\<close>.
\<close>

section \<open>Errors and values\<close>

definition DefaultMaxBodyBytes_api :: int where "DefaultMaxBodyBytes_api = 2 ^ 20"
definition MaxBodyBytes_api :: int where "MaxBodyBytes_api = 8 * 2 ^ 20"
definition maxErrorCodeBytes :: nat where "maxErrorCodeBytes = 64"
definition maxErrorMessageBytes :: nat where "maxErrorMessageBytes = 1024"
definition maxFieldErrors :: nat where "maxFieldErrors = 32"
definition maxFieldBytes :: nat where "maxFieldBytes = 128"
definition maxFieldMessageBytes :: nat where "maxFieldMessageBytes = 256"

datatype api_error = ErrUnsupportedMediaType | ErrBodyTooLarge_api | ErrMalformedJSON | ErrInvalidBodyLimit

record field_error =
  Field :: string
  Message :: string

record error_body =
  eb_Code :: string
  eb_Message :: string
  eb_RequestID :: string
  eb_Fields :: "field_error list"

section \<open>Decoding\<close>

definition decodeError :: "json_error \<Rightarrow> api_error" where
  "decodeError err = (if err = ReadFailed max_bytes_error then ErrBodyTooLarge_api else ErrMalformedJSON)"

text \<open>
  The value is what the target holds afterwards; on an error the target is not to be used. The
  request comes back with the body that is left.
\<close>

definition DecodeJSON ::
  "(string \<Rightarrow> string option) \<Rightarrow> (string \<Rightarrow> string + 'a) \<Rightarrow> (string \<Rightarrow> string + unit) \<Rightarrow>
     request \<Rightarrow> int \<Rightarrow> (api_error + 'a) \<times> request" where
  "DecodeJSON parse_media unmarshal unmarshal_empty r limit =
     (let limit = (if limit = 0 then DefaultMaxBodyBytes_api else limit) in
      if limit < 1 \<or> limit > MaxBodyBytes_api then (Inl ErrInvalidBodyLimit, r)
      else let contentType = header_get (rq_headers r) ''Content-Type'' in
      if contentType = [] then (Inl ErrUnsupportedMediaType, r)
      else if parse_media contentType \<noteq> Some ''application/json'' then (Inl ErrUnsupportedMediaType, r)
      else case json_Decode unmarshal (MaxBytesReader (rq_body r) limit) of
        (Inl err, body) \<Rightarrow> (Inl (decodeError err), r\<lparr>rq_body := body\<rparr>)
      | (Inr v, body) \<Rightarrow>
         (case json_Decode unmarshal_empty body of
            (Inl EOF, body) \<Rightarrow> (Inr v, r\<lparr>rq_body := body\<rparr>)
          | (_, body) \<Rightarrow> (Inl ErrMalformedJSON, r\<lparr>rq_body := body\<rparr>)))"

text \<open>\<open>value\<close> implements \<open>Validatable\<close> when there is a validation method.\<close>

definition Validate :: "(unit \<Rightarrow> field_error list) option \<Rightarrow> field_error list" where
  "Validate validatable = (case validatable of None \<Rightarrow> [] | Some validate \<Rightarrow> validate ())"

section \<open>Public errors\<close>

definition boundedCode :: "string \<Rightarrow> string" where
  "boundedCode code =
     (let code = trim_space code in
      if code = [] then ''internal_error''
      else if length code > maxErrorCodeBytes then take maxErrorCodeBytes code else code)"

definition boundedMessage :: "string \<Rightarrow> string" where
  "boundedMessage message =
     (let message = trim_space message in
      if message = [] then ''request failed''
      else if length message > maxErrorMessageBytes then take maxErrorMessageBytes message else message)"

text \<open>The body of the loop over the fields; \<open>None\<close> is its \<open>continue\<close>.\<close>

definition bound_field :: "field_error \<Rightarrow> field_error option" where
  "bound_field field =
     (let field = field\<lparr>Field := trim_space (Field field)\<rparr>;
          field = field\<lparr>Message := trim_space (Message field)\<rparr> in
      if Field field = [] \<or> Message field = [] then None
      else
        let field = (if length (Field field) > maxFieldBytes
                     then field\<lparr>Field := take maxFieldBytes (Field field)\<rparr> else field);
            field = (if length (Message field) > maxFieldMessageBytes
                     then field\<lparr>Message := take maxFieldMessageBytes (Message field)\<rparr> else field)
        in Some field)"

fun bounded_loop :: "field_error list \<Rightarrow> field_error list \<Rightarrow> field_error list" where
  "bounded_loop result [] = result"
| "bounded_loop result (field # rest) =
     (case bound_field field of
        None \<Rightarrow> bounded_loop result rest
      | Some field \<Rightarrow> bounded_loop (result @ [field]) rest)"

definition boundedFields :: "field_error list \<Rightarrow> field_error list" where
  "boundedFields errs =
     (if errs = [] then []
      else bounded_loop [] (if length errs > maxFieldErrors then take maxFieldErrors errs else errs))"

text \<open>The JSON of the envelope by its struct tags; empty \<open>request_id\<close> and \<open>fields\<close> are left out.\<close>

definition field_json :: "field_error \<Rightarrow> string" where
  "field_json f = json_fields [(''field'', json_string (Field f)), (''message'', json_string (Message f))]"

definition error_members :: "error_body \<Rightarrow> (string \<times> string) list" where
  "error_members b =
     [(''code'', json_string (eb_Code b)), (''message'', json_string (eb_Message b))]
     @ (if eb_RequestID b = [] then [] else [(''request_id'', json_string (eb_RequestID b))])
     @ (if eb_Fields b = [] then [] else [(''fields'', json_array (map field_json (eb_Fields b)))])"

definition error_json :: "error_body \<Rightarrow> string" where
  "error_json b = json_fields [(''error'', json_fields (error_members b))]"

definition WriteError :: "int \<Rightarrow> string \<Rightarrow> string \<Rightarrow> field_error list \<Rightarrow> handler" where
  "WriteError code_status code message errs r =
     (let code_status = (if code_status < 400 \<or> code_status > 599 then 500 else code_status) in
      JSON code_status (Some (error_json
        \<lparr>eb_Code = boundedCode code, eb_Message = boundedMessage message,
         eb_RequestID = RequestID (rq_ctx r), eb_Fields = boundedFields errs\<rparr> @ [LF])))"

text \<open>\<open>None\<close> is any other error.\<close>

definition WriteDecodeError :: "api_error option \<Rightarrow> handler" where
  "WriteDecodeError err =
     (if err = Some ErrUnsupportedMediaType
      then WriteError 415 ''unsupported_media_type'' ''Content-Type must be application/json'' []
      else if err = Some ErrBodyTooLarge_api
      then WriteError 413 ''request_body_too_large'' ''request body exceeds the configured limit'' []
      else WriteError 400 ''invalid_request'' ''request body must contain one valid JSON object'' [])"

section \<open>What the decoder accepts\<close>

text \<open>The length of the JSON value a complete body starts with.\<close>

definition first_value :: "string \<Rightarrow> nat option" where
  "first_value s = (case scan_value scan_start s 0 of
       Complete n \<Rightarrow> Some n
     | BadSyntax \<Rightarrow> None
     | More st \<Rightarrow> if fst (scan_step st (CHR '' '')) = ScanEnd then Some (length s) else None)"

lemma scan_blank: "list_all json_space s \<Longrightarrow> scan_value (BeginValue, ps) s n = More (BeginValue, ps)"
  by (induction s arbitrary: n) (auto simp: begin_value_def)

lemma json_Decode_EOF:
  "fst (json_Decode u b) = Inl EOF \<longleftrightarrow> list_all json_space (rd_data b) \<and> rd_err b = None"
proof
  assume "list_all json_space (rd_data b) \<and> rd_err b = None"
  then show "fst (json_Decode u b) = Inl EOF"
    by (auto simp: json_Decode_def scan_start_def scan_blank begin_value_def json_space_def byte_def list_ex_iff list_all_iff)
next
  assume "fst (json_Decode u b) = Inl EOF"
  then show "list_all json_space (rd_data b) \<and> rd_err b = None"
    by (auto simp: json_Decode_def Let_def list_ex_iff list_all_iff split: scanned.splits option.splits sum.splits if_splits)
qed

text \<open>A body that ends without an error decodes exactly if it starts with a value of the target.\<close>

lemma json_Decode_Inr:
  "rd_err b = None \<Longrightarrow>
   json_Decode u b = (Inr v, b') \<longleftrightarrow>
     (\<exists>n. first_value (rd_data b) = Some n \<and> u (take n (rd_data b)) = Inr v \<and> b' = b\<lparr>rd_data := drop n (rd_data b)\<rparr>)"
  by (auto simp: json_Decode_def first_value_def Let_def split: scanned.splits sum.splits if_splits)

lemma json_Decode_err: "json_Decode u b = (x, b') \<Longrightarrow> rd_err b' = rd_err b"
  by (auto simp: json_Decode_def Let_def split: scanned.splits option.splits if_splits)

definition limit_ok :: "int \<Rightarrow> bool" where
  "limit_ok limit \<longleftrightarrow> 0 \<le> limit \<and> limit \<le> MaxBodyBytes_api"

definition effective_limit :: "int \<Rightarrow> int" where
  "effective_limit limit = (if limit = 0 then DefaultMaxBodyBytes_api else limit)"

definition json_content :: "(string \<Rightarrow> string option) \<Rightarrow> request \<Rightarrow> bool" where
  "json_content parse_media r \<longleftrightarrow> header_get (rq_headers r) ''Content-Type'' \<noteq> [] \<and>
     parse_media (header_get (rq_headers r) ''Content-Type'') = Some ''application/json''"

lemma DecodeJSON_body:
  assumes "limit_ok limit" "json_content pm r"
  shows "DecodeJSON pm u ue r limit =
    (case json_Decode u (MaxBytesReader (rq_body r) (effective_limit limit)) of
        (Inl err, body) \<Rightarrow> (Inl (decodeError err), r\<lparr>rq_body := body\<rparr>)
      | (Inr v, body) \<Rightarrow>
         (case json_Decode ue body of
            (Inl EOF, body) \<Rightarrow> (Inr v, r\<lparr>rq_body := body\<rparr>)
          | (_, body) \<Rightarrow> (Inl ErrMalformedJSON, r\<lparr>rq_body := body\<rparr>)))"
  using assms
  by (auto simp: DecodeJSON_def limit_ok_def json_content_def effective_limit_def Let_def
      DefaultMaxBodyBytes_api_def MaxBodyBytes_api_def)

lemma DecodeJSON_refused:
  "\<not> limit_ok limit \<Longrightarrow> DecodeJSON pm u ue r limit = (Inl ErrInvalidBodyLimit, r)"
  "limit_ok limit \<Longrightarrow> \<not> json_content pm r \<Longrightarrow> DecodeJSON pm u ue r limit = (Inl ErrUnsupportedMediaType, r)"
  by (auto simp: DecodeJSON_def limit_ok_def json_content_def DefaultMaxBodyBytes_api_def MaxBodyBytes_api_def Let_def)

text \<open>
  C25. \<open>DecodeJSON\<close> accepts exactly one bounded JSON document: it gives the target \<open>v\<close> if and only if
  the limit is allowed, the declared media type is \<open>application/json\<close>, the body arrives without an
  error and is no longer than the limit, it starts with one JSON value that is valid for the target
  and gives \<open>v\<close>, and nothing but white space follows. The body is then read to its end.
\<close>

theorem DecodeJSON_accepts_iff:
  "(\<exists>r'. DecodeJSON pm u ue r limit = (Inr v, r')) \<longleftrightarrow>
     limit_ok limit \<and> json_content pm r \<and> rd_err (rq_body r) = None \<and>
     int (length (rd_data (rq_body r))) \<le> effective_limit limit \<and>
     (\<exists>n. first_value (rd_data (rq_body r)) = Some n \<and> u (take n (rd_data (rq_body r))) = Inr v \<and>
          list_all json_space (drop n (rd_data (rq_body r))))"
  (is "?l \<longleftrightarrow> ?lim \<and> ?ct \<and> ?rest")
proof (cases "?lim \<and> ?ct")
  case True
  let ?b = "rq_body r" and ?m = "MaxBytesReader (rq_body r) (effective_limit limit)"
  have step: "?l \<longleftrightarrow> (\<exists>b'. json_Decode u ?m = (Inr v, b') \<and> fst (json_Decode ue b') = Inl EOF)"
    using True by (auto simp: DecodeJSON_body split: prod.splits sum.splits json_error.splits)
  show ?thesis
  proof (cases "rd_err ?b = None \<and> int (length (rd_data ?b)) \<le> effective_limit limit")
    case fits: True
    then have "?m = ?b" by (simp add: MaxBytesReader_def)
    with step fits True show ?thesis by (auto simp: json_Decode_EOF json_Decode_Inr)
  next
    case False
    then have "rd_err ?m \<noteq> None" by (auto simp: MaxBytesReader_def)
    with step have "\<not> ?l" by (auto simp: json_Decode_EOF dest: json_Decode_err)
    with False show ?thesis by auto
  qed
next
  case False
  then show ?thesis by (auto simp: DecodeJSON_refused) (metis DecodeJSON_refused sum.distinct(1) prod.inject)+
qed

text \<open>
  C30. How a body above the limit is reported depends on where the limit falls: inside the first
  value, \<open>ErrBodyTooLarge\<close>; after a complete value, even when only white space would follow, or after
  a syntax error, \<open>ErrMalformedJSON\<close>, although the body is above its configured limit.
\<close>

theorem DecodeJSON_reports_oversize:
  assumes "limit_ok limit" "json_content pm r" "effective_limit limit < int (length (rd_data (rq_body r)))"
  shows "\<exists>r'. DecodeJSON pm u ue r limit =
    (case scan_value scan_start (take (nat (effective_limit limit)) (rd_data (rq_body r))) 0 of
       More st \<Rightarrow> Inl ErrBodyTooLarge_api
     | _ \<Rightarrow> Inl ErrMalformedJSON, r')"
proof -
  let ?m = "MaxBytesReader (rq_body r) (effective_limit limit)"
  have m: "rd_data ?m = take (nat (effective_limit limit)) (rd_data (rq_body r))" "rd_err ?m = Some max_bytes_error"
    using assms(3) by (simp_all add: MaxBytesReader_def)
  have eof: "fst (json_Decode ue b) \<noteq> Inl EOF" if "rd_err b = Some max_bytes_error" for b
    using that by (simp add: json_Decode_EOF)
  show ?thesis
  proof (cases "scan_value scan_start (rd_data ?m) 0")
    case (Complete n)
    show ?thesis
    proof (cases "u (take n (rd_data ?m))")
      case (Inl e)
      with Complete m show ?thesis
        by (simp add: DecodeJSON_body [OF assms(1,2)] json_Decode_def Let_def decodeError_def)
    next
      case (Inr v)
      with Complete have d: "json_Decode u ?m = (Inr v, ?m\<lparr>rd_data := drop n (rd_data ?m)\<rparr>)"
        by (simp add: json_Decode_def Let_def)
      obtain x b where xb: "json_Decode ue (?m\<lparr>rd_data := drop n (rd_data ?m)\<rparr>) = (x, b)" by fastforce
      with eof [of "?m\<lparr>rd_data := drop n (rd_data ?m)\<rparr>"] m have "x \<noteq> Inl EOF" by simp
      with d xb Complete m show ?thesis
        by (auto simp: DecodeJSON_body [OF assms(1,2)] split: sum.splits json_error.splits)
    qed
  next
    case BadSyntax
    with m show ?thesis by (simp add: DecodeJSON_body [OF assms(1,2)] json_Decode_def Let_def decodeError_def)
  next
    case (More st)
    with m show ?thesis by (simp add: DecodeJSON_body [OF assms(1,2)] json_Decode_def Let_def decodeError_def)
  qed
qed

definition demo_json_request :: "string \<Rightarrow> request" where
  "demo_json_request body = demo_request\<lparr>rq_headers := [(''Content-Type'', ''application/json'')],
     rq_body := \<lparr>rd_data = body, rd_err = None\<rparr>\<rparr>"

text \<open>Four bytes of limit hold the whole of \<open>[1]\<close>, the two spaces after it do not fit.\<close>

theorem DecodeJSON_reports_oversize_witness:
  "fst (DecodeJSON Some (\<lambda>d. Inr d) (\<lambda>_. Inr ()) (demo_json_request ''[1]  '') 4) = Inl ErrMalformedJSON"
proof -
  have "scan_value scan_start ''[1] '' 0 = Complete 3"
    by code_simp
  then show ?thesis
    using DecodeJSON_reports_oversize [of 4 Some "demo_json_request ''[1]  ''" "\<lambda>d. Inr d" "\<lambda>_. Inr ()"]
    by (auto simp: limit_ok_def MaxBodyBytes_api_def json_content_def demo_json_request_def header_get_def effective_limit_def)
qed

section \<open>Error responses\<close>

definition clamp_status :: "int \<Rightarrow> int" where
  "clamp_status c = (if 400 \<le> c \<and> c \<le> 599 then c else 500)"

definition bounded_body :: "string \<Rightarrow> string \<Rightarrow> string \<Rightarrow> field_error list \<Rightarrow> error_body" where
  "bounded_body code message rid errs = \<lparr>eb_Code = boundedCode code, eb_Message = boundedMessage message,
     eb_RequestID = rid, eb_Fields = boundedFields errs\<rparr>"

lemma boundedCode_bounds: "boundedCode c \<noteq> [] \<and> length (boundedCode c) \<le> 64"
  by (simp add: boundedCode_def Let_def maxErrorCodeBytes_def)

lemma boundedMessage_bounds: "boundedMessage m \<noteq> [] \<and> length (boundedMessage m) \<le> 1024"
  by (simp add: boundedMessage_def Let_def maxErrorMessageBytes_def)

definition field_ok :: "field_error \<Rightarrow> bool" where
  "field_ok f \<longleftrightarrow> Field f \<noteq> [] \<and> Message f \<noteq> [] \<and> length (Field f) \<le> 128 \<and> length (Message f) \<le> 256"

lemma bound_field_ok: "bound_field f = Some g \<Longrightarrow> field_ok g"
  by (auto simp: bound_field_def field_ok_def Let_def maxFieldBytes_def maxFieldMessageBytes_def split: if_splits)

lemma bounded_loop_bounds:
  "list_all field_ok result \<Longrightarrow>
   list_all field_ok (bounded_loop result errs) \<and> length (bounded_loop result errs) \<le> length result + length errs"
proof (induction result errs rule: bounded_loop.induct)
  case (2 result field rest)
  show ?case
  proof (cases "bound_field field")
    case None
    with 2 show ?thesis by simp
  next
    case (Some g)
    with 2 bound_field_ok [OF Some] show ?thesis by simp
  qed
qed simp

lemma boundedFields_bounds: "list_all field_ok (boundedFields errs) \<and> length (boundedFields errs) \<le> 32"
  using bounded_loop_bounds [of "[]" "take 32 errs"] bounded_loop_bounds [of "[]" errs]
  by (auto simp: boundedFields_def maxFieldErrors_def)

lemma scans_field: "scans_value 1 (field_json f)"
  using scans_object [of 0 "[(''field'', json_string (Field f)), (''message'', json_string (Message f))]"]
  by (simp add: field_json_def scans_string)

lemma field_json_head: "field_json f \<noteq> [] \<and> hd (field_json f) \<noteq> CHR '']'' \<and> \<not> json_space (hd (field_json f))"
  by (simp add: field_json_def json_object_def not_space_consts)

lemma scans_error_members: "list_all (\<lambda>(k, v). scans_value 2 v) (error_members b)"
proof -
  have "list_all (scans_value 1) (map field_json fs)" for fs by (simp add: list_all_iff scans_field [unfolded One_nat_def])
  moreover have "list_all (\<lambda>v. v \<noteq> [] \<and> hd v \<noteq> CHR '']'' \<and> \<not> json_space (hd v)) (map field_json fs)" for fs
    by (simp add: list_all_iff field_json_head)
  ultimately have "scans_value (1 + 1) (json_array (map field_json fs))" for fs
    by (rule scans_array)
  then have "scans_value 2 (json_array (map field_json fs))" for fs
    by (simp only: one_add_one)
  then show ?thesis by (simp add: error_members_def scans_string)
qed

lemma scan_error_json: "scan_value scan_start (error_json b @ t) 0 = Complete (length (error_json b))"
proof -
  have "scans_value 3 (json_fields (error_members b))"
    using scans_object [OF scans_error_members] by simp
  then show ?thesis
    using scan_document [of 3 "[(''error'', json_fields (error_members b))]"]
    by (simp add: error_json_def max_nesting_def)
qed

lemma length_join: "length (join_bytes '','' ps) \<le> (\<Sum>p\<leftarrow>ps. length p + 1)"
  by (induction "'',''" ps rule: join_bytes.induct) auto

lemma length_json_member: "length (json_member k v) \<le> 6 * length k + length v + 3"
  using length_json_string [of k] by (simp add: json_member_def)

lemma length_json_fields: "length (json_fields kvs) \<le> (\<Sum>(k, v)\<leftarrow>kvs. 6 * length k + length v + 4) + 2"
proof -
  have "(\<Sum>p\<leftarrow>map (\<lambda>(k, v). json_member k v) kvs. length p + 1) \<le> (\<Sum>(k, v)\<leftarrow>kvs. 6 * length k + length v + 4)"
  proof (induction kvs)
    case (Cons kv kvs)
    obtain k v where "kv = (k, v)" by (cases kv)
    with Cons length_json_member [of k v] show ?case by simp
  qed simp
  then show ?thesis
    using length_join [of "map (\<lambda>(k, v). json_member k v) kvs"] by (simp add: json_object_def)
qed

lemma length_field_json: "field_ok f \<Longrightarrow> length (field_json f) \<le> 2400"
  using length_json_fields [of "[(''field'', json_string (Field f)), (''message'', json_string (Message f))]"]
    length_json_string [of "Field f"] length_json_string [of "Message f"]
  by (simp add: field_json_def field_ok_def)

lemma length_fields_json:
  assumes "list_all field_ok fs" "length fs \<le> 32"
  shows "length (json_array (map field_json fs)) \<le> 76900"
proof -
  have "(\<Sum>p\<leftarrow>map field_json fs. length p + 1) \<le> 2401 * length fs"
    using assms(1) by (induction fs) (auto dest: length_field_json)
  with assms(2) length_join [of "map field_json fs"] show ?thesis by (simp add: json_array_def)
qed

lemma length_error_json:
  "length (error_json (bounded_body code message rid errs)) \<le> 84000 + 6 * length rid"
proof -
  let ?b = "bounded_body code message rid errs"
  have "length (json_string (eb_Code ?b)) \<le> 386" "length (json_string (eb_Message ?b)) \<le> 6146"
    "length (json_string (eb_RequestID ?b)) \<le> 6 * length rid + 2"
    "length (json_array (map field_json (eb_Fields ?b))) \<le> 76900"
    using length_json_string [of "eb_Code ?b"] length_json_string [of "eb_Message ?b"]
      length_json_string [of "eb_RequestID ?b"] length_fields_json [of "eb_Fields ?b"]
      boundedCode_bounds [of code] boundedMessage_bounds [of message] boundedFields_bounds [of errs]
    by (auto simp: bounded_body_def)
  then have "length (json_fields (error_members ?b)) \<le> 83700 + 6 * length rid"
    using length_json_fields [of "error_members ?b"] by (auto simp: error_members_def split: if_splits)
  then show ?thesis
    using length_json_fields [of "[(''error'', json_fields (error_members ?b))]"]
    by (simp add: error_json_def)
qed

lemma WriteError_JSON:
  "WriteError c code message errs r =
     JSON (clamp_status c) (Some (error_json (bounded_body code message (RequestID (rq_ctx r)) errs) @ [LF]))"
  by (auto simp: WriteError_def clamp_status_def bounded_body_def)

lemma exec_JSON:
  assumes "fresh_wire w" "400 \<le> c" "c \<le> 599" "text \<noteq> []" "length text \<le> room w"
  shows "\<exists>recd. exec allow (JSON c (Some text)) (new_recorder w, s) = (None, recd, s) \<and>
    final (under recd) = Some (c, AList.update ''Content-Type'' ''application/json; charset=utf-8'' (hdr w)) \<and>
    sent (under recd) = text \<and> head_only (under recd) = head_only w \<and> status recd = c"
  using assms
  by (simp add: JSON_def Let_def new_recorder_def fresh_wire_def upd_hdr_def rec_WriteHeader_def rec_Write_def
      rec_ensure_header_def wire_WriteHeader_def wire_Write_def is_informational_def body_allowed_def)

text \<open>
  C26. Whatever status, code, message and field errors an application gives to \<open>WriteError\<close>, the
  client of a fresh connection gets one error response: its status is the given one if that is a 4xx
  or 5xx status and 500 otherwise, it is declared as JSON, and its body is one complete JSON document
  and a line break (not sent in answer to a \<open>HEAD\<close> request), of at most 84,001 bytes and six times those of the request identifier; the
  document holds a nonempty code of at most 64 and message of at most 1,024 bytes and at most 32
  nonempty field errors.
\<close>

theorem WriteError_response:
  assumes "fresh_wire w" "84001 + 6 * length (RequestID (rq_ctx r)) \<le> room w"
  shows "\<exists>recd h b. exec allow (WriteError c code message errs r) (new_recorder w, s) = (None, recd, s) \<and>
    final (under recd) = Some (if 400 \<le> c \<and> c \<le> 599 then c else 500, h) \<and>
    header_get h ''Content-Type'' = ''application/json; charset=utf-8'' \<and>
    sent (under recd) = error_json b @ [LF] \<and>
    client_body (under recd) = (if head_only w then [] else error_json b @ [LF]) \<and>
    scan_value scan_start (sent (under recd)) 0 = Complete (length (error_json b)) \<and>
    length (sent (under recd)) \<le> 84001 + 6 * length (RequestID (rq_ctx r)) \<and>
    eb_RequestID b = RequestID (rq_ctx r) \<and>
    eb_Code b \<noteq> [] \<and> length (eb_Code b) \<le> 64 \<and> eb_Message b \<noteq> [] \<and> length (eb_Message b) \<le> 1024 \<and>
    length (eb_Fields b) \<le> 32 \<and> list_all field_ok (eb_Fields b)"
proof -
  let ?b = "bounded_body code message (RequestID (rq_ctx r)) errs"
  let ?text = "error_json ?b @ [LF]"
  have len: "length ?text \<le> 84001 + 6 * length (RequestID (rq_ctx r))" using length_error_json by simp
  have c: "400 \<le> clamp_status c" "clamp_status c \<le> 599" by (simp_all add: clamp_status_def)
  have "?text \<noteq> []" "length ?text \<le> room w" using len assms(2) by simp_all
  from exec_JSON [OF assms(1) c this, where allow = allow and s = s] obtain recd where
    "exec allow (WriteError c code message errs r) (new_recorder w, s) = (None, recd, s)"
    "final (under recd) = Some (clamp_status c, AList.update ''Content-Type'' ''application/json; charset=utf-8'' (hdr w))"
    "sent (under recd) = ?text" "client_body (under recd) = (if head_only w then [] else ?text)"
    by (auto simp: WriteError_JSON client_body_def)
  moreover have "scan_value scan_start ?text 0 = Complete (length (error_json ?b))" by (rule scan_error_json)
  ultimately show ?thesis
    using len boundedCode_bounds [of code] boundedMessage_bounds [of message] boundedFields_bounds [of errs]
    by (intro exI [of _ recd] exI [of _ "AList.update ''Content-Type'' ''application/json; charset=utf-8'' (hdr w)"]
        exI [of _ ?b]) (simp add: clamp_status_def bounded_body_def)
qed

theorem WriteError_response_witness:
  "\<exists>recd h. exec no_limiter (WriteError 200 ''conflict'' ''taken'' [] demo_request)
      (new_recorder (demo_wire\<lparr>room := 100000\<rparr>), ()) = (None, recd, ()) \<and> final (under recd) = Some (500, h)"
proof -
  have "fresh_wire (demo_wire\<lparr>room := 100000\<rparr>)" using demo_fresh by (simp add: fresh_wire_def)
  moreover have "RequestID (rq_ctx demo_request) = []"
    by (simp add: RequestID_def demo_request_def background_def ctx_value_def)
  ultimately show ?thesis
    using WriteError_response [of "demo_wire\<lparr>room := 100000\<rparr>" demo_request no_limiter 200 "''conflict''" "''taken''" "[]" "()"]
    by auto
qed

text \<open>The status a failed decoding is answered with.\<close>

definition decode_status :: "api_error option \<Rightarrow> int" where
  "decode_status err = (if err = Some ErrUnsupportedMediaType then 415 else if err = Some ErrBodyTooLarge_api then 413 else 400)"

lemma WriteDecodeError_status:
  assumes "fresh_wire w" "84001 + 6 * length (RequestID (rq_ctx r)) \<le> room w"
  shows "\<exists>recd h. exec allow (WriteDecodeError err r) (new_recorder w, s) = (None, recd, s) \<and>
    final (under recd) = Some (decode_status err, h)"
proof -
  have "\<exists>recd h. exec allow (WriteError c code message errs r) (new_recorder w, s) = (None, recd, s) \<and>
      final (under recd) = Some (c, h)" if "400 \<le> c" "c \<le> 599" for c code message errs
    using exec_JSON [OF assms(1) that, of "error_json (bounded_body code message (RequestID (rq_ctx r)) errs) @ [LF]" allow s]
      length_error_json [of code message "RequestID (rq_ctx r)" errs] assms(2) that
    by (auto simp: WriteError_JSON clamp_status_def)
  then show ?thesis by (simp add: WriteDecodeError_def decode_status_def)
qed

text \<open>Cutting after a number of bytes may cut a character: the JSON text then has U+FFFD in its place.\<close>

lemma boundedCode_cuts_rune:
  "let code = replicate 63 (CHR ''a'') @ [CHR 0xC3, CHR 0xA9] in
     valid_utf8 code \<and> \<not> valid_utf8 (boundedCode code)"
  by code_simp

end
