(* ===== verification/Server_Setup.thy ===== *)
theory Server_Setup
  imports Server
begin

text \<open>
  Building a server (\<open>server/server.go\<close>): \<open>New\<close>, \<open>SetRenderer\<close>, \<open>Use\<close>, \<open>Handle\<close>, \<open>Page\<close>, the
  \<open>http.Server\<close> it runs on and the template renderer. \<open>http.ServeMux\<close> is a list of registrations with the
  dispatch as a parameter; executing a template is a parameter too.
\<close>

section \<open>Renderers\<close>

type_synonym renderer = "request \<Rightarrow> string + string"

definition RendererFunc_Render :: "renderer \<Rightarrow> renderer" where
  "RendererFunc_Render f r = f r"

text \<open>A template is executed on its data and gives what was written before an error, if there is one.\<close>

type_synonym template = "(string \<times> string) list \<Rightarrow> string \<times> string option"

definition TemplateRenderer_Render :: "template option \<Rightarrow> renderer" where
  "TemplateRenderer_Render t r =
     (case t of
        None \<Rightarrow> Inl ''server: template is nil''
      | Some execute \<Rightarrow> (case execute [(''Path'', rq_path r)] of
            (out, Some err) \<Rightarrow> Inl err
          | (out, None) \<Rightarrow> Inr out))"

section \<open>The server under construction\<close>

text \<open>A page asks for the server's renderer when it is requested, not when it is registered.\<close>

datatype route = Handler handler | PageRoute

record app =
  app_config :: config
  app_renderer :: "renderer option"
  app_routes :: "(string \<times> route) list"
  app_middlewares :: "middleware list"

definition New :: "config \<Rightarrow> app" where
  "New c = \<lparr>app_config = withDefaults c, app_renderer = None, app_routes = [], app_middlewares = []\<rparr>"

definition SetRenderer :: "renderer option \<Rightarrow> app \<Rightarrow> app" where
  "SetRenderer r a = a\<lparr>app_renderer := r\<rparr>"

definition Use_app :: "middleware option list \<Rightarrow> app \<Rightarrow> app" where
  "Use_app ms a = a\<lparr>app_middlewares := Use ms (app_middlewares a)\<rparr>"

text \<open>\<open>conflict\<close> tells whether the mux refuses a pattern beside the ones it has, with a panic.\<close>

definition register_route :: "(string list \<Rightarrow> string \<Rightarrow> bool) \<Rightarrow> string \<Rightarrow> route \<Rightarrow> app \<Rightarrow> app option" where
  "register_route conflict pattern rt a =
     (if conflict (map fst (app_routes a)) pattern then None
      else Some (a\<lparr>app_routes := app_routes a @ [(pattern, rt)]\<rparr>))"

definition Handle :: "(string list \<Rightarrow> string \<Rightarrow> bool) \<Rightarrow> string \<Rightarrow> handler \<Rightarrow> app \<Rightarrow> app option" where
  "Handle conflict pattern h a = register_route conflict pattern (Handler h) a"

definition HandleFunc :: "(string list \<Rightarrow> string \<Rightarrow> bool) \<Rightarrow> string \<Rightarrow> handler \<Rightarrow> app \<Rightarrow> app option" where
  "HandleFunc conflict pattern f a = register_route conflict pattern (Handler f) a"

definition Page_app :: "(string list \<Rightarrow> string \<Rightarrow> bool) \<Rightarrow> string \<Rightarrow> app \<Rightarrow> string + app option" where
  "Page_app conflict pattern a =
     (if app_renderer a = None then Inl ''server: configure a renderer before registering pages''
      else Inr (register_route conflict pattern PageRoute a))"

definition route_handler :: "app \<Rightarrow> route \<Rightarrow> handler" where
  "route_handler a rt = (case rt of
     Handler h \<Rightarrow> h
   | PageRoute \<Rightarrow> (case app_renderer a of None \<Rightarrow> (\<lambda>_. Panic ''nil pointer'') | Some render \<Rightarrow> page_handler render))"

text \<open>The server that handles requests.\<close>

definition app_server :: "((string \<times> handler) list \<Rightarrow> handler) \<Rightarrow> app \<Rightarrow> server" where
  "app_server dispatch a = \<lparr>srv_config = app_config a,
     mux = dispatch (map (\<lambda>(p, rt). (p, route_handler a rt)) (app_routes a)), middlewares = app_middlewares a\<rparr>"

record http_server =
  hs_Addr :: string
  hs_ReadHeaderTimeout :: duration
  hs_ReadTimeout :: duration
  hs_WriteTimeout :: duration
  hs_IdleTimeout :: duration
  hs_MaxHeaderBytes :: int

definition HTTPServer :: "app \<Rightarrow> http_server" where
  "HTTPServer a = \<lparr>hs_Addr = Addr (app_config a), hs_ReadHeaderTimeout = ReadHeaderTimeout (app_config a),
     hs_ReadTimeout = ReadTimeout (app_config a), hs_WriteTimeout = WriteTimeout (app_config a),
     hs_IdleTimeout = IdleTimeout (app_config a), hs_MaxHeaderBytes = MaxHeaderBytes (app_config a)\<rparr>"

definition rec_Unwrap :: "recorder \<Rightarrow> wire" where
  "rec_Unwrap r = under r"

section \<open>What a new server has\<close>

lemma withDefaults_keeps:
  "ReadTimeout (withDefaults c) = (if ReadTimeout c = 0 then 15 * second else ReadTimeout c)"
  "ReadHeaderTimeout (withDefaults c) = (if ReadHeaderTimeout c = 0 then 5 * second else ReadHeaderTimeout c)"
  "WriteTimeout (withDefaults c) = (if WriteTimeout c = 0 then 30 * second else WriteTimeout c)"
  "IdleTimeout (withDefaults c) = (if IdleTimeout c = 0 then 60 * second else IdleTimeout c)"
  "ShutdownTimeout (withDefaults c) = (if ShutdownTimeout c = 0 then 15 * second else ShutdownTimeout c)"
  "MaxHeaderBytes (withDefaults c) = (if MaxHeaderBytes c = 0 then 1048576 else MaxHeaderBytes c)"
  "Addr (withDefaults c) = (if Addr c = [] then '':8080'' else Addr c)"
  by (simp_all add: withDefaults_def Let_def)

text \<open>No timeout of a new server is zero, which \<open>net/http\<close> takes for none.\<close>

lemma New_has_timeouts:
  "hs_ReadHeaderTimeout (HTTPServer (New c)) \<noteq> 0 \<and> hs_ReadTimeout (HTTPServer (New c)) \<noteq> 0 \<and>
   hs_WriteTimeout (HTTPServer (New c)) \<noteq> 0 \<and> hs_IdleTimeout (HTTPServer (New c)) \<noteq> 0 \<and>
   hs_MaxHeaderBytes (HTTPServer (New c)) \<noteq> 0 \<and> hs_Addr (HTTPServer (New c)) \<noteq> []"
  by (simp add: HTTPServer_def New_def withDefaults_keeps second_def)

text \<open>Middlewares are kept in the order of the calls, the nil ones left out.\<close>

lemma Use_app_middlewares:
  "app_middlewares (Use_app ms a) = app_middlewares a @ List.map_filter (\<lambda>m. m) ms"
proof -
  have "fold (\<lambda>m acc. case m of None \<Rightarrow> acc | Some m \<Rightarrow> acc @ [m]) ms mws = mws @ List.map_filter (\<lambda>m. m) ms" for mws
    by (induction ms arbitrary: mws) (auto simp: List.map_filter_simps split: option.split)
  then show ?thesis by (simp add: Use_app_def Use_def)
qed

text \<open>What the template wrote before it failed is never part of a page.\<close>

lemma TemplateRenderer_whole:
  "TemplateRenderer_Render t r = Inr doc \<longleftrightarrow> (\<exists>execute. t = Some execute \<and> execute [(''Path'', rq_path r)] = (doc, None))"
  by (auto simp: TemplateRenderer_Render_def split: option.splits prod.splits)

end
