(* ===== verification/Web_Socket.thy ===== *)
theory Web_Socket
  imports Go_Prelude
begin

text \<open>
  \<open>realtime/websocket.go\<close>: the upgrade handler and the echo handler, over the connections of
  \<open>github.com/coder/websocket\<close>, which are a parameter: a state and the operations on it. A handler may run
  forever, return an error or nil, or panic.
\<close>

section \<open>Connections\<close>

datatype ws_error = WsCtx ctx_error | WsOther string

text \<open>Reading and writing are under the context of the handler, whose end makes them fail.\<close>

record 'c ws_api =
  ws_read :: "'c \<Rightarrow> (ws_error + int \<times> string) \<times> 'c"
  ws_write :: "int \<Rightarrow> string \<Rightarrow> 'c \<Rightarrow> ws_error option \<times> 'c"
  ws_close :: "int \<Rightarrow> string \<Rightarrow> 'c \<Rightarrow> 'c"
  ws_set_limit :: "int \<Rightarrow> 'c \<Rightarrow> 'c"
  ws_timeout :: "duration \<Rightarrow> 'c \<Rightarrow> 'c"

datatype ws_outcome = HandlerReturned "ws_error option" | HandlerPanicked string

type_synonym 'c ws_handler = "'c \<Rightarrow> (ws_outcome \<times> 'c) option"

definition defaultMaxMessageBytes :: int where "defaultMaxMessageBytes = 2 ^ 20"
definition defaultConnectionAge :: duration where "defaultConnectionAge = 15 * minute"

section \<open>The upgrade\<close>

definition is_ctx_error :: "ws_error \<Rightarrow> bool" where
  "is_ctx_error err = (case err of WsCtx _ \<Rightarrow> True | WsOther _ \<Rightarrow> False)"

text \<open>
  \<open>accepted\<close> is the result of \<open>websocket.Accept\<close>, \<open>None\<close> for an error. The first \<open>None\<close> of the result is a
  handler that never returns; a panic goes on after the deferred \<open>Close\<close>.
\<close>

definition WebSocket :: "'c ws_api \<Rightarrow> 'c ws_handler \<Rightarrow> 'c option \<Rightarrow> (string option \<times> 'c option) option" where
  "WebSocket api h accepted =
     (case accepted of
        None \<Rightarrow> Some (None, None)
      | Some conn \<Rightarrow>
          let conn = ws_set_limit api defaultMaxMessageBytes conn;
              conn = ws_timeout api defaultConnectionAge conn in
          (case h conn of
             None \<Rightarrow> None
           | Some (HandlerPanicked v, conn) \<Rightarrow> Some (Some v, Some (ws_close api 1000 [] conn))
           | Some (HandlerReturned err, conn) \<Rightarrow>
               let conn = (case err of
                     Some e \<Rightarrow> if \<not> is_ctx_error e then ws_close api 1011 ''internal server error'' conn else conn
                   | None \<Rightarrow> conn)
               in Some (None, Some (ws_close api 1000 [] conn))))"

partial_function (option) Echo :: "'c ws_api \<Rightarrow> 'c \<Rightarrow> (ws_outcome \<times> 'c) option" where
  "Echo api conn =
     (case ws_read api conn of (inp, conn) \<Rightarrow>
        if isl inp then Some (HandlerReturned (Some (projl inp)), conn)
        else
          (case ws_write api (fst (projr inp)) (snd (projr inp)) conn of (err, conn) \<Rightarrow>
             if err \<noteq> None then Some (HandlerReturned err, conn) else Echo api conn))"

section \<open>What the echo handler does\<close>

text \<open>From one connection state to another by reading messages and writing each back.\<close>

inductive exchange :: "'c ws_api \<Rightarrow> 'c \<Rightarrow> (int \<times> string) list \<Rightarrow> 'c \<Rightarrow> bool" for api where
  nothing: "exchange api c [] c"
| message: "ws_read api c = (Inr (kind, data), c1) \<Longrightarrow> ws_write api kind data c1 = (None, c2) \<Longrightarrow>
    exchange api c2 ms c3 \<Longrightarrow> exchange api c ((kind, data) # ms) c3"

text \<open>The next read or write fails.\<close>

definition breaks :: "'c ws_api \<Rightarrow> 'c \<Rightarrow> ws_error \<Rightarrow> 'c \<Rightarrow> bool" where
  "breaks api c err c' \<longleftrightarrow> ws_read api c = (Inl err, c') \<or>
     (\<exists>kind data c1. ws_read api c = (Inr (kind, data), c1) \<and> ws_write api kind data c1 = (Some err, c'))"

text \<open>At most \<open>n\<close> messages are exchanged before a read or write fails.\<close>

definition ends_within :: "nat \<Rightarrow> 'c ws_api \<Rightarrow> 'c \<Rightarrow> bool" where
  "ends_within n api c \<longleftrightarrow> (\<forall>ms c1. exchange api c ms c1 \<longrightarrow> length ms \<le> n)"

lemma Echo_breaks: "breaks api c err c' \<Longrightarrow> Echo api c = Some (HandlerReturned (Some err), c')"
  by (subst Echo.simps) (auto simp: breaks_def)

lemma Echo_message:
  "ws_read api c = (Inr (kind, data), c1) \<Longrightarrow> ws_write api kind data c1 = (None, c2) \<Longrightarrow> Echo api c = Echo api c2"
  by (subst Echo.simps) simp

lemma breaks_or_message:
  obtains err c' where "breaks api c err c'"
  | kind data c1 c2 where "ws_read api c = (Inr (kind, data), c1)" "ws_write api kind data c1 = (None, c2)"
proof -
  obtain inp c1 where r: "ws_read api c = (inp, c1)" by (metis surj_pair)
  show thesis
  proof (cases inp)
    case (Inl e)
    with r that(1) show thesis by (auto simp: breaks_def)
  next
    case (Inr m)
    obtain kind data where m: "m = (kind, data)" by (cases m)
    obtain err c2 where w: "ws_write api kind data c1 = (err, c2)" by (metis surj_pair)
    show thesis
    proof (cases err)
      case None
      with r w Inr m that(2) show thesis by blast
    next
      case (Some e)
      with r w Inr m that(1) [of e c2] show thesis by (auto simp: breaks_def)
    qed
  qed
qed

lemma Echo_exchange:
  assumes "ends_within n api c"
  shows "\<exists>ms c1 err c2. exchange api c ms c1 \<and> breaks api c1 err c2 \<and> Echo api c = Some (HandlerReturned (Some err), c2)"
  using assms
proof (induction n arbitrary: c)
  case 0
  show ?case
  proof (cases rule: breaks_or_message [of api c])
    case (1 err c')
    then show ?thesis using exchange.nothing Echo_breaks by metis
  next
    case (2 kind data c1 c2)
    then have "exchange api c [(kind, data)] c2" by (blast intro: exchange.intros)
    with 0 show ?thesis by (force simp: ends_within_def)
  qed
next
  case (Suc n)
  show ?case
  proof (cases rule: breaks_or_message [of api c])
    case (1 err c')
    then show ?thesis using exchange.nothing Echo_breaks by metis
  next
    case (2 kind data c1 c2)
    have "ends_within n api c2"
      using Suc.prems exchange.message [OF 2] by (force simp: ends_within_def)
    from Suc.IH [OF this] obtain ms c3 err c4 where "exchange api c2 ms c3" "breaks api c3 err c4"
      "Echo api c2 = Some (HandlerReturned (Some err), c4)" by blast
    with 2 Echo_message [OF 2] show ?thesis by (metis exchange.message)
  qed
qed

text \<open>
  C19. The echo endpoint ends: if the connection delivers only so many messages before a read or write fails, as it
  must when the context of the connection has ended, the handler returns; until then it has written back each
  message, in order and with its type, and the connection is closed in any case, with the status of an internal
  error first if the failure was not the end of the context.
\<close>

theorem WebSocket_echo_terminates:
  fixes api :: "'c ws_api"
  defines "start \<equiv> \<lambda>c. ws_timeout api defaultConnectionAge (ws_set_limit api defaultMaxMessageBytes c)"
  assumes "ends_within n api (start c)"
  shows "\<exists>ms c1 err c2. exchange api (start c) ms c1 \<and> breaks api c1 err c2 \<and>
    WebSocket api (Echo api) (Some c) = Some (None, Some (ws_close api 1000 []
      (if is_ctx_error err then c2 else ws_close api 1011 ''internal server error'' c2)))"
proof -
  from Echo_exchange [OF assms(2)] obtain ms c1 err c2 where e: "exchange api (start c) ms c1" "breaks api c1 err c2"
    "Echo api (start c) = Some (HandlerReturned (Some err), c2)" by blast
  then have "WebSocket api (Echo api) (Some c) = Some (None, Some (ws_close api 1000 []
      (if is_ctx_error err then c2 else ws_close api 1011 ''internal server error'' c2)))"
    by (simp add: WebSocket_def Let_def start_def)
  with e(1,2) show ?thesis by blast
qed

text \<open>A peer that sends two messages and goes away, with a log of what was written and closed.\<close>

definition demo_ws :: "((int \<times> string) list \<times> string list) ws_api" where
  "demo_ws = \<lparr>ws_read = (\<lambda>(inp, log). case inp of [] \<Rightarrow> (Inl (WsOther ''EOF''), ([], log)) | m # ms \<Rightarrow> (Inr m, (ms, log))),
     ws_write = (\<lambda>kind data (inp, log). (None, (inp, log @ [data]))),
     ws_close = (\<lambda>code why (inp, log). (inp, log @ [''close '' @ why])),
     ws_set_limit = (\<lambda>_ c. c), ws_timeout = (\<lambda>_ c. c)\<rparr>"

lemma demo_ws_exchange: "exchange demo_ws c ms c' \<Longrightarrow> fst c = ms @ fst c' \<and> snd c' = snd c @ map snd ms"
proof (induction rule: exchange.induct)
  case (message c kind data c1 c2 ms c3)
  then show ?case by (cases c; cases "fst c") (auto simp: demo_ws_def)
qed simp

lemma demo_ws_breaks: "breaks demo_ws c err c' \<Longrightarrow> fst c = [] \<and> c' = c \<and> \<not> is_ctx_error err"
  by (cases c; cases "fst c") (auto simp: demo_ws_def breaks_def is_ctx_error_def)

theorem WebSocket_echo_terminates_witness:
  "WebSocket demo_ws (Echo demo_ws) (Some ([(1, ''a''), (2, ''b'')], [])) =
     Some (None, Some ([], [''a'', ''b'', ''close internal server error'', ''close '']))"
proof -
  let ?c = "([(1 :: int, ''a''), (2, ''b'')], [] :: string list)"
  have start: "ws_timeout demo_ws defaultConnectionAge (ws_set_limit demo_ws defaultMaxMessageBytes ?c) = ?c"
    by (simp add: demo_ws_def)
  have "length ms \<le> 2" if "exchange demo_ws ?c ms c1" for ms c1
  proof -
    have "length (fst ?c) = length ms + length (fst c1)" using demo_ws_exchange [OF that] by simp
    then show ?thesis by simp
  qed
  then have "ends_within 2 demo_ws ?c" by (simp add: ends_within_def)
  from WebSocket_echo_terminates [of 2 demo_ws ?c, unfolded start, OF this] obtain ms c1 err c2 where
    w: "exchange demo_ws ?c ms c1" "breaks demo_ws c1 err c2"
      "WebSocket demo_ws (Echo demo_ws) (Some ?c) = Some (None, Some (ws_close demo_ws 1000 []
        (if is_ctx_error err then c2 else ws_close demo_ws 1011 ''internal server error'' c2)))" by blast
  from demo_ws_exchange [OF w(1)] demo_ws_breaks [OF w(2)] have "c2 = ([], [''a'', ''b''])" "\<not> is_ctx_error err"
    by (cases c1; auto)+
  with w(3) show ?thesis by (simp add: demo_ws_def)
qed

end
