(* ===== verification/Go_Text.thy ===== *)
theory Go_Text
  imports Go_Strings "HOL-Library.Sublist"
begin

text \<open>
  More of \<open>strings\<close>, for the project generator: \<open>Index\<close>, \<open>Contains\<close>, \<open>Replace\<close>, \<open>ReplaceAll\<close>,
  \<open>SplitAfter\<close>, \<open>Fields\<close>, \<open>TrimPrefix\<close>, \<open>TrimSuffix\<close>, and what they do on ASCII text.
\<close>

section \<open>Definitions\<close>

text \<open>\<open>strings.Index\<close>, \<open>None\<close> for its -1.\<close>

fun index_of :: "string \<Rightarrow> string \<Rightarrow> nat option" where
  "index_of sub [] = (if sub = [] then Some 0 else None)"
| "index_of sub (c # r) = (if prefix sub (c # r) then Some 0 else map_option Suc (index_of sub r))"

definition contains_sub :: "string \<Rightarrow> string \<Rightarrow> bool" where
  "contains_sub s sub \<longleftrightarrow> index_of sub s \<noteq> None"

definition replace_first :: "string \<Rightarrow> string \<Rightarrow> string \<Rightarrow> string" where
  "replace_first old new s =
     (case index_of old s of None \<Rightarrow> s | Some i \<Rightarrow> take i s @ new @ drop (i + length old) s)"

text \<open>\<open>strings.ReplaceAll\<close> for a nonempty old string.\<close>

function replace_all :: "string \<Rightarrow> string \<Rightarrow> string \<Rightarrow> string" where
  "replace_all old new s =
     (if old = [] then s
      else case index_of old s of
        None \<Rightarrow> s
      | Some i \<Rightarrow> take i s @ new @ replace_all old new (drop (i + length old) s))"
  by pat_completeness auto

lemma index_of_le: "index_of sub s = Some i \<Longrightarrow> i + length sub \<le> length s"
proof (induction s arbitrary: i)
  case (Cons c r)
  then show ?case by (auto split: if_splits dest: prefix_length_le)
qed (simp split: if_splits)

termination replace_all
proof (relation "measure (\<lambda>(old, new, s). length s)")
  fix old new s i
  assume "old \<noteq> []" "index_of old s = Some i"
  with index_of_le [of old s i] show "((old, new, drop (i + length old) s), (old, new, s)) \<in> measure (\<lambda>(old, new, s). length s)"
    by (cases old; cases s) auto
qed simp

declare replace_all.simps [simp del]

definition trim_prefix :: "string \<Rightarrow> string \<Rightarrow> string" where
  "trim_prefix p s = (if prefix p s then drop (length p) s else s)"

definition trim_suffix :: "string \<Rightarrow> string \<Rightarrow> string" where
  "trim_suffix p s = (if suffix p s then take (length s - length p) s else s)"

text \<open>\<open>strings.SplitAfter(s, sep)\<close> for a separator of one byte.\<close>

fun split_after :: "char \<Rightarrow> string \<Rightarrow> string list" where
  "split_after sep [] = [[]]"
| "split_after sep (c # r) = (if c = sep then [c] # split_after sep r
     else case split_after sep r of [] \<Rightarrow> [[c]] | p # ps \<Rightarrow> (c # p) # ps)"

text \<open>\<open>strings.Fields\<close>: the runs of runes that are no white space.\<close>

function word_len :: "string \<Rightarrow> nat" where
  "word_len s = (if s = [] \<or> space_len s \<noteq> 0 then 0
     else rune_width s + word_len (drop (rune_width s) s))"
  by pat_completeness auto
termination by (relation "measure length") auto

declare word_len.simps [simp del]

lemma word_len_pos: "s \<noteq> [] \<Longrightarrow> space_len s = 0 \<Longrightarrow> 0 < word_len s"
  by (subst word_len.simps) simp

lemma trim_left_stops: "trim_left s = [] \<or> space_len (trim_left s) = 0"
proof (induction s rule: trim_left.induct)
  case (1 s)
  then show ?case by (cases "s = [] \<or> space_len s = 0") (auto simp: trim_left.simps [of s])
qed

lemma length_trim_left: "length (trim_left s) \<le> length s"
  using trim_left_suffix [of s] by (metis le_add2 length_append)

function go_fields :: "string \<Rightarrow> string list" where
  "go_fields s = (let s = trim_left s in
     if s = [] then [] else take (word_len s) s # go_fields (drop (word_len s) s))"
  by pat_completeness auto
termination
proof (relation "measure length")
  fix s x :: string
  assume "x = trim_left s" "x \<noteq> []"
  then have "0 < length x" "0 < word_len x" "length x \<le> length s"
    using word_len_pos [of x] trim_left_stops [of s] length_trim_left [of s] by auto
  then have "length x - word_len x < length s" by (meson diff_less less_le_trans)
  then show "(drop (word_len x) x, s) \<in> measure length" by simp
qed simp

declare go_fields.simps [simp del]

section \<open>Searching\<close>

lemma index_of_Some:
  "index_of sub s = Some i \<Longrightarrow> s = take i s @ sub @ drop (i + length sub) s"
proof (induction s arbitrary: i)
  case (Cons c r)
  show ?case
  proof (cases "prefix sub (c # r)")
    case True
    with Cons.prems show ?thesis by (auto simp: prefix_def)
  next
    case False
    with Cons show ?thesis by auto
  qed
qed (simp split: if_splits)

lemma index_of_here: "index_of sub (sub @ b) = Some 0"
proof (cases "sub @ b")
  case (Cons c r)
  then have "prefix sub (c # r)" by (metis prefixI)
  then show ?thesis by (simp only: Cons index_of.simps if_True)
qed simp

lemma index_of_append:
  assumes "sub \<noteq> []" "hd sub \<notin> set a"
  shows "index_of sub (a @ sub @ b) = Some (length a)"
  using assms
proof (induction a)
  case Nil
  then show ?case by (simp add: index_of_here)
next
  case (Cons c r)
  then have "\<not> prefix sub (c # r @ sub @ b)" by (cases sub) auto
  with Cons show ?case by simp
qed

lemma index_of_mid: "index_of sub (a @ sub @ b) \<noteq> None"
proof (induction a)
  case Nil
  then show ?case by (simp add: index_of_here)
qed auto

lemma contains_sub_iff: "contains_sub s sub \<longleftrightarrow> (\<exists>a b. s = a @ sub @ b)"
proof
  assume "contains_sub s sub"
  then obtain i where "index_of sub s = Some i" by (auto simp: contains_sub_def)
  from index_of_Some [OF this] show "\<exists>a b. s = a @ sub @ b" by blast
next
  assume "\<exists>a b. s = a @ sub @ b"
  then show "contains_sub s sub" using index_of_mid by (auto simp: contains_sub_def)
qed

section \<open>Lines\<close>

lemma split_after_nonempty [simp]: "split_after sep s \<noteq> []"
  by (cases s) (auto split: list.splits)

lemma concat_split_after [simp]: "concat (split_after sep s) = s"
proof (induction s)
  case (Cons c r)
  then show ?case by (cases "split_after sep r") auto
qed simp

text \<open>The lists of lines: every line but the last ends with the separator, which is nowhere else.\<close>

definition is_lines :: "char \<Rightarrow> string list \<Rightarrow> bool" where
  "is_lines sep ls \<longleftrightarrow> ls \<noteq> [] \<and> (\<forall>l \<in> set (butlast ls). \<exists>p. l = p @ [sep] \<and> sep \<notin> set p) \<and> sep \<notin> set (last ls)"

lemma is_lines_split_after: "is_lines sep (split_after sep s)"
proof (induction s)
  case (Cons c r)
  obtain p ps where ps: "split_after sep r = p # ps" by (cases "split_after sep r") auto
  show ?case
  proof (cases "c = sep")
    case True
    with Cons ps show ?thesis by (auto simp: is_lines_def)
  next
    case False
    then have eq: "split_after sep (c # r) = (c # p) # ps" using ps by simp
    show ?thesis
    proof (cases ps)
      case Nil
      with Cons ps False show ?thesis by (simp add: eq is_lines_def del: split_after.simps)
    next
      case (Cons q qs)
      with \<open>is_lines sep (split_after sep r)\<close> ps obtain x where x: "p = x @ [sep]" "sep \<notin> set x"
        by (auto simp: is_lines_def)
      then have "c # p = (c # x) @ [sep]" "sep \<notin> set (c # x)" using False by auto
      with \<open>is_lines sep (split_after sep r)\<close> ps Cons show ?thesis
        unfolding eq by (simp add: is_lines_def)
    qed
  qed
qed (simp add: is_lines_def)

lemma split_after_line: "sep \<notin> set p \<Longrightarrow> split_after sep (p @ sep # r) = (p @ [sep]) # split_after sep r"
  by (induction p) auto

lemma split_after_last: "sep \<notin> set p \<Longrightarrow> split_after sep p = [p]"
  by (induction p) auto

lemma split_after_concat: "is_lines sep ls \<Longrightarrow> split_after sep (concat ls) = ls"
proof (induction ls)
  case (Cons l ls)
  show ?case
  proof (cases ls)
    case Nil
    with Cons.prems show ?thesis by (simp add: is_lines_def split_after_last)
  next
    case (Cons m ms)
    with Cons.prems obtain p where p: "l = p @ [sep]" "sep \<notin> set p" by (auto simp: is_lines_def)
    have "is_lines sep ls" using Cons Cons.prems by (simp add: is_lines_def)
    with Cons.IH p show ?thesis using split_after_line [of sep p "concat ls"] by simp
  qed
qed (simp add: is_lines_def)

text \<open>Replacing text without a separator inside one line keeps the division into lines.\<close>

lemma is_lines_replace:
  assumes "is_lines sep (l1 @ (a @ v @ b) # l2)" "sep \<notin> set v" "sep \<notin> set v'" "v \<noteq> []"
  shows "is_lines sep (l1 @ (a @ v' @ b) # l2)"
proof (cases l2)
  case Nil
  with assms show ?thesis by (simp add: is_lines_def butlast_append)
next
  case (Cons m ms)
  have lines: "\<forall>l \<in> set l1 \<union> {a @ v @ b} \<union> set (butlast l2). \<exists>p. l = p @ [sep] \<and> sep \<notin> set p" "sep \<notin> set (last l2)"
    using assms(1) Cons by (auto simp: is_lines_def butlast_append)
  then obtain p where p: "a @ v @ b = p @ [sep]" "sep \<notin> set p" by blast
  have "b \<noteq> []"
  proof
    assume "b = []"
    with p(1) assms(4) have "last v = sep" by (metis append_Nil2 last_appendR last_snoc)
    with assms(2,4) show False using last_in_set by blast
  qed
  then obtain q c where b: "b = q @ [c]" by (metis rev_exhaust)
  with p have q: "c = sep" "p = a @ v @ q" by auto
  then have "a @ v' @ b = (a @ v' @ q) @ [sep]" "sep \<notin> set (a @ v' @ q)" using p(2) b assms(3) by auto
  then have "\<exists>p. a @ v' @ b = p @ [sep] \<and> sep \<notin> set p" by blast
  with lines Cons show ?thesis by (simp add: is_lines_def butlast_append)
qed

section \<open>White space in ASCII text\<close>

definition ws :: "char \<Rightarrow> bool" where
  "ws c \<longleftrightarrow> byte c \<in> {9, 10, 11, 12, 13, 32}"

lemma space_len_ascii: "ascii c \<Longrightarrow> space_len (c # r) = (if ws c then 1 else 0)"
  by (auto simp: space_len_def ws_def ascii_def split: list.splits)

lemma trim_left_ascii: "list_all ascii s \<Longrightarrow> trim_left s = dropWhile ws s"
  by (induction s) (simp_all add: trim_left.simps space_len_ascii)

lemma space_suffix_ascii:
  assumes "list_all ascii s"
  shows "space_suffix s = (if s \<noteq> [] \<and> ws (last s) then 1 else 0)"
proof (cases s rule: rev_cases)
  case (snoc p c)
  have one: "space_len (drop n s) \<le> 1" for n
    using list_all_drop [OF assms, of n] by (cases "drop n s") (auto simp: space_len_ascii space_len_def [of "[]"])
  have "ascii c" using assms snoc by simp
  then have "space_len (drop (length s - 1) s) = (if ws c then 1 else 0)"
    using snoc by (simp add: space_len_ascii)
  then show ?thesis using one [of "length s - 2"] one [of "length s - 3"] snoc
    by (simp add: space_suffix_def)
qed (simp add: space_suffix_def)

lemma trim_right_ascii:
  "list_all ascii s \<Longrightarrow> trim_right s = rev (dropWhile ws (rev s))"
proof (induction s rule: rev_induct)
  case (snoc c s)
  then show ?case
    by (subst trim_right.simps) (simp add: space_suffix_ascii)
qed (simp add: trim_right.simps)

definition trimmed :: "string \<Rightarrow> bool" where
  "trimmed t \<longleftrightarrow> t = [] \<or> \<not> ws (hd t) \<and> \<not> ws (last t)"

lemma dropWhile_all_ws: "list_all ws w \<Longrightarrow> dropWhile ws (w @ t) = dropWhile ws t"
  by (induction w) auto

lemma trim_space_eq:
  assumes "list_all ascii (w1 @ t @ w2)" "list_all ws w1" "list_all ws w2" "trimmed t"
  shows "trim_space (w1 @ t @ w2) = t"
proof (cases "t = []")
  case True
  with assms have "dropWhile ws (w1 @ w2) = []" by (simp add: dropWhile_all_ws list_all_iff)
  with assms True show ?thesis by (simp add: trim_space_def trim_left_ascii trim_right.simps)
next
  case False
  then have l: "dropWhile ws (t @ w2) = t @ w2" using assms(4) by (cases t) (auto simp: trimmed_def)
  have "list_all ws (rev w2)" using assms(3) by (simp add: list_all_iff)
  then have "dropWhile ws (rev w2 @ rev t) = dropWhile ws (rev t)" by (rule dropWhile_all_ws)
  also have "\<dots> = rev t"
    using False assms(4) by (cases t rule: rev_cases) (auto simp: trimmed_def)
  finally show ?thesis
    using assms l by (simp add: trim_space_def trim_left_ascii trim_right_ascii dropWhile_all_ws)
qed

lemma trim_space_split:
  assumes "list_all ascii s"
  obtains w1 w2 where "s = w1 @ trim_space s @ w2" "list_all ws w1" "list_all ws w2" "trimmed (trim_space s)"
proof -
  let ?l = "dropWhile ws s"
  let ?t = "rev (dropWhile ws (rev ?l))" and ?w2 = "rev (takeWhile ws (rev ?l))"
  have s: "s = takeWhile ws s @ ?t @ ?w2" by (metis rev_append rev_rev_ident takeWhile_dropWhile_id)
  have "list_all ws (takeWhile ws s)" by (auto simp: list_all_iff dest: set_takeWhileD)
  moreover have "list_all ws ?w2" by (auto simp: list_all_iff dest: set_takeWhileD)
  moreover have "trimmed ?t"
  proof (cases "?t = []")
    case False
    then have "dropWhile ws (rev ?l) \<noteq> []" by simp
    then have last: "\<not> ws (last ?t)" using hd_dropWhile by (metis last_rev)
    have "?l = ?t @ ?w2" by (metis rev_append rev_rev_ident takeWhile_dropWhile_id)
    then have "hd ?t = hd ?l" "?l \<noteq> []" using False by (metis hd_append2, metis Nil_is_append_conv)
    then have "\<not> ws (hd ?t)" using hd_dropWhile by metis
    with last show ?thesis by (simp add: trimmed_def)
  qed (simp add: trimmed_def)
  ultimately have "trim_space s = ?t"
    using trim_space_eq [of "takeWhile ws s" ?t ?w2] s assms by metis
  with s that \<open>list_all ws (takeWhile ws s)\<close> \<open>list_all ws ?w2\<close> \<open>trimmed ?t\<close> show thesis by metis
qed

lemma word_len_ascii: "list_all ascii s \<Longrightarrow> word_len s = length (takeWhile (\<lambda>c. \<not> ws c) s)"
  by (induction s) (simp_all add: word_len.simps space_len_ascii)

lemma go_fields_ascii:
  "list_all ascii s \<Longrightarrow> go_fields s = (let s = dropWhile ws s in
     if s = [] then [] else takeWhile (\<lambda>c. \<not> ws c) s # go_fields (dropWhile (\<lambda>c. \<not> ws c) s))"
proof -
  assume a: "list_all ascii s"
  let ?l = "dropWhile ws s"
  have "list_all ascii ?l" using a by (auto simp: list_all_iff dest: set_dropWhileD)
  then have "word_len ?l = length (takeWhile (\<lambda>c. \<not> ws c) ?l)" by (rule word_len_ascii)
  then have "take (word_len ?l) ?l = takeWhile (\<lambda>c. \<not> ws c) ?l" "drop (word_len ?l) ?l = dropWhile (\<lambda>c. \<not> ws c) ?l"
    by (simp_all add: takeWhile_eq_take [symmetric] dropWhile_eq_drop [symmetric])
  with a show ?thesis by (simp add: go_fields.simps [of s] trim_left_ascii Let_def)
qed

text \<open>A word in front of the end or of white space is the first field.\<close>

definition word :: "string \<Rightarrow> bool" where
  "word v \<longleftrightarrow> v \<noteq> [] \<and> list_all (\<lambda>c. \<not> ws c) v"

definition ends_word :: "string \<Rightarrow> bool" where
  "ends_word s \<longleftrightarrow> s = [] \<or> ws (hd s)"

lemma takeWhile_word:
  "list_all (\<lambda>c. \<not> ws c) v \<Longrightarrow> ends_word r \<Longrightarrow> takeWhile (\<lambda>c. \<not> ws c) (v @ r) = v \<and> dropWhile (\<lambda>c. \<not> ws c) (v @ r) = r"
  by (induction v) (auto simp: ends_word_def, (cases r; auto)+)

lemma go_fields_word:
  assumes "list_all ascii (w @ v @ r)" "list_all ws w" "word v" "ends_word r"
  shows "go_fields (w @ v @ r) = v # go_fields r"
proof -
  have "dropWhile ws (w @ v @ r) = v @ r"
    using assms(2,3) by (cases v) (auto simp: dropWhile_all_ws word_def)
  then show ?thesis
    using takeWhile_word [of v r] assms by (simp add: go_fields_ascii [OF assms(1)] word_def)
qed

lemma go_fields_Cons:
  assumes "list_all ascii s" "go_fields s = v # fs"
  obtains w r where "s = w @ v @ r" "list_all ws w" "word v" "ends_word r" "go_fields r = fs"
proof -
  let ?l = "dropWhile ws s"
  let ?v = "takeWhile (\<lambda>c. \<not> ws c) ?l" and ?r = "dropWhile (\<lambda>c. \<not> ws c) ?l"
  have l: "?l \<noteq> []" and v: "v = ?v" and fs: "fs = go_fields ?r"
    using assms by (auto simp: go_fields_ascii Let_def split: if_splits)
  have "\<not> ws (hd ?l)" using l by (rule hd_dropWhile)
  then have "?v \<noteq> []" using l by (cases ?l) auto
  then have "word v" using v by (auto simp: word_def list_all_iff dest: set_takeWhileD)
  moreover have "ends_word ?r"
    using hd_dropWhile [of "\<lambda>c. \<not> ws c" ?l] by (auto simp: ends_word_def)
  moreover have "s = takeWhile ws s @ v @ ?r" unfolding v by simp
  moreover have "list_all ws (takeWhile ws s)" by (auto simp: list_all_iff dest: set_takeWhileD)
  ultimately show thesis using that fs by blast
qed

end
