(* ===== verification/Project_Files.thy ===== *)
theory Project_Files
  imports Go_Text "HOL-Library.AList"
begin

text \<open>
  The project directory as \<open>internal/scaffold/scaffold.go\<close> sees it through \<open>os.Root\<close>: a tree of
  directories, files and symbolic links, the operations the generator calls, each of which may fail at
  any time, and the generator's two ways of writing a file. The trail keeps every tree there ever was,
  so that what a crash leaves behind can be stated.

  How the operating system follows a path that goes through a symbolic link is a parameter; of a path
  without links it is the path itself. Nobody else changes the directory meanwhile. File modes and
  times are not modelled.
\<close>

section \<open>Trees\<close>

type_synonym path = "string list"

datatype node = Directory | Regular string | Symlink string

type_synonym tree = "(path \<times> node) list"

datatype errno = ENOENT | EEXIST | ENOTDIR | EISDIR | EShortWrite | EOther string

datatype root_node = Missing | RootSymlink | RootFile | RootDirectory

text \<open>\<open>clock\<close> counts the system calls.\<close>

record disk =
  root_dir :: root_node
  tree :: tree
  trail :: "tree list"
  clock :: nat

text \<open>
  \<open>follow tree final path\<close> resolves a path through symbolic links, the last element too if \<open>final\<close>.
  \<open>fault n\<close> is what goes wrong in the n-th system call: an error, and for a write a bound on the bytes
  that get written.
\<close>

record os =
  follow :: "tree \<Rightarrow> bool \<Rightarrow> path \<Rightarrow> errno + path"
  fault :: "nat \<Rightarrow> string option \<times> nat option"

definition segments :: "string \<Rightarrow> path" where
  "segments p = split_byte (CHR ''/'') p"

definition node_at :: "tree \<Rightarrow> path \<Rightarrow> node option" where
  "node_at t p = (if p = [] then Some Directory else map_of t p)"

definition is_symlink :: "node option \<Rightarrow> bool" where
  "is_symlink n = (case n of Some (Symlink _) \<Rightarrow> True | _ \<Rightarrow> False)"

definition parents :: "path \<Rightarrow> path list" where
  "parents p = map (\<lambda>i. take i p) [1..<length p]"

datatype walked = Here | Stop errno | Via

fun walk_parents :: "tree \<Rightarrow> path list \<Rightarrow> walked" where
  "walk_parents t [] = Here"
| "walk_parents t (q # qs) =
     (case map_of t q of
        Some Directory \<Rightarrow> walk_parents t qs
      | Some (Regular _) \<Rightarrow> Stop ENOTDIR
      | Some (Symlink _) \<Rightarrow> Via
      | None \<Rightarrow> Stop ENOENT)"

definition locate :: "os \<Rightarrow> tree \<Rightarrow> bool \<Rightarrow> path \<Rightarrow> errno + path" where
  "locate os t final p =
     (case walk_parents t (parents p) of
        Here \<Rightarrow> if final \<and> is_symlink (node_at t p) then follow os t True p else Inr p
      | Stop e \<Rightarrow> Inl e
      | Via \<Rightarrow> follow os t final p)"

section \<open>Steps that may fail\<close>

type_synonym ('e, 'a) io = "disk \<Rightarrow> ('e + 'a) \<times> disk"

definition io_return :: "'a \<Rightarrow> ('e, 'a) io" where
  "io_return x d = (Inr x, d)"

definition io_fail :: "'e \<Rightarrow> ('e, 'a) io" where
  "io_fail e d = (Inl e, d)"

definition io_bind :: "('e, 'a) io \<Rightarrow> ('a \<Rightarrow> ('e, 'b) io) \<Rightarrow> ('e, 'b) io" where
  "io_bind m f d = (case m d of (Inl e, d) \<Rightarrow> (Inl e, d) | (Inr x, d) \<Rightarrow> f x d)"

text \<open>\<open>fmt.Errorf\<close> around an error.\<close>

definition io_wrap :: "('e \<Rightarrow> 'f) \<Rightarrow> ('e, 'a) io \<Rightarrow> ('f, 'a) io" where
  "io_wrap g m d = (case m d of (Inl e, d) \<Rightarrow> (Inl (g e), d) | (Inr x, d) \<Rightarrow> (Inr x, d))"

definition tick :: "disk \<Rightarrow> disk" where
  "tick d = d\<lparr>clock := clock d + 1\<rparr>"

definition attempt :: "os \<Rightarrow> (disk \<Rightarrow> (errno + 'a) \<times> disk) \<Rightarrow> (errno, 'a) io" where
  "attempt os act d = (case fst (fault os (clock d)) of
       Some e \<Rightarrow> (Inl (EOther e), tick d)
     | None \<Rightarrow> act (tick d))"

definition put_tree :: "tree \<Rightarrow> disk \<Rightarrow> disk" where
  "put_tree t d = d\<lparr>tree := t, trail := trail d @ [t]\<rparr>"

section \<open>Operations on the project directory itself\<close>

definition LstatRoot :: "os \<Rightarrow> (errno, root_node) io" where
  "LstatRoot os = attempt os (\<lambda>d. (if root_dir d = Missing then Inl ENOENT else Inr (root_dir d), d))"

definition OpenRoot :: "os \<Rightarrow> (errno, unit) io" where
  "OpenRoot os = attempt os (\<lambda>d. (case root_dir d of
       Missing \<Rightarrow> Inl ENOENT | RootFile \<Rightarrow> Inl ENOTDIR | _ \<Rightarrow> Inr (), d))"

definition ReadRootDir :: "os \<Rightarrow> (errno, path list) io" where
  "ReadRootDir os = attempt os (\<lambda>d. (if root_dir d = RootFile then Inl ENOTDIR else Inr (map fst (tree d)), d))"

definition MkdirAllRoot :: "os \<Rightarrow> (errno, unit) io" where
  "MkdirAllRoot os = attempt os (\<lambda>d. (case root_dir d of
       Missing \<Rightarrow> (Inr (), d\<lparr>root_dir := RootDirectory\<rparr>)
     | RootFile \<Rightarrow> (Inl ENOTDIR, d)
     | _ \<Rightarrow> (Inr (), d)))"

section \<open>Operations below it\<close>

definition Lstat :: "os \<Rightarrow> string \<Rightarrow> (errno, node) io" where
  "Lstat os p = attempt os (\<lambda>d.
     (case locate os (tree d) False (segments p) of
        Inl e \<Rightarrow> Inl e
      | Inr q \<Rightarrow> (case node_at (tree d) q of None \<Rightarrow> Inl ENOENT | Some n \<Rightarrow> Inr n), d))"

definition ReadFile :: "os \<Rightarrow> string \<Rightarrow> (errno, string) io" where
  "ReadFile os p = attempt os (\<lambda>d.
     (case locate os (tree d) True (segments p) of
        Inl e \<Rightarrow> Inl e
      | Inr q \<Rightarrow> (case node_at (tree d) q of
          None \<Rightarrow> Inl ENOENT
        | Some (Regular s) \<Rightarrow> Inr s
        | Some Directory \<Rightarrow> Inl EISDIR
        | Some (Symlink _) \<Rightarrow> Inl (EOther ''symbolic link'')), d))"

text \<open>\<open>MkdirAll\<close>: from one directory to the next; a link must lead to a directory.\<close>

fun mkdir_from :: "os \<Rightarrow> path \<Rightarrow> path \<Rightarrow> (errno, unit) io" where
  "mkdir_from os base [] d = (Inr (), d)"
| "mkdir_from os base (s # rest) d =
     (let q = base @ [s] in
      case map_of (tree d) q of
        Some Directory \<Rightarrow> mkdir_from os q rest d
      | Some (Regular _) \<Rightarrow> (Inl ENOTDIR, d)
      | Some (Symlink _) \<Rightarrow>
          (case follow os (tree d) True q of
             Inl e \<Rightarrow> (Inl e, d)
           | Inr q \<Rightarrow> if node_at (tree d) q = Some Directory then mkdir_from os q rest d else (Inl ENOTDIR, d))
      | None \<Rightarrow>
          (case attempt os (\<lambda>d. (Inr (), put_tree (AList.update q Directory (tree d)) d)) d of
             (Inl e, d) \<Rightarrow> (Inl e, d)
           | (Inr _, d) \<Rightarrow> mkdir_from os q rest d))"

definition MkdirAll :: "os \<Rightarrow> string \<Rightarrow> (errno, unit) io" where
  "MkdirAll os p = mkdir_from os [] (segments p)"

text \<open>\<open>OpenFile\<close> with \<open>O_WRONLY|O_CREATE|O_EXCL\<close>: the new file's place.\<close>

definition OpenExcl :: "os \<Rightarrow> string \<Rightarrow> (errno, path) io" where
  "OpenExcl os p = attempt os (\<lambda>d.
     (case locate os (tree d) False (segments p) of
        Inl e \<Rightarrow> (Inl e, d)
      | Inr q \<Rightarrow>
          if node_at (tree d) q \<noteq> None then (Inl EEXIST, d)
          else (Inr q, put_tree (AList.update q (Regular []) (tree d)) d)))"

text \<open>\<open>Write\<close> on the open file: the bytes written and the error, if any.\<close>

definition FileWrite :: "os \<Rightarrow> path \<Rightarrow> string \<Rightarrow> disk \<Rightarrow> (nat \<times> errno option) \<times> disk" where
  "FileWrite os q data d =
     (let (err, room) = fault os (clock d);
          n = (case room of None \<Rightarrow> length data | Some k \<Rightarrow> min k (length data));
          old = (case map_of (tree d) q of Some (Regular s) \<Rightarrow> s | _ \<Rightarrow> [])
      in ((n, map_option EOther err),
          put_tree (AList.update q (Regular (old @ take n data)) (tree d)) (tick d)))"

definition CloseFile :: "os \<Rightarrow> (errno, unit) io" where
  "CloseFile os = attempt os (\<lambda>d. (Inr (), d))"

definition has_entries :: "tree \<Rightarrow> path \<Rightarrow> bool" where
  "has_entries t q = list_ex (\<lambda>(p, _). strict_prefix q p) t"

definition Remove :: "os \<Rightarrow> string \<Rightarrow> (errno, unit) io" where
  "Remove os p = attempt os (\<lambda>d.
     (case locate os (tree d) False (segments p) of
        Inl e \<Rightarrow> (Inl e, d)
      | Inr q \<Rightarrow>
          if node_at (tree d) q = None then (Inl ENOENT, d)
          else if has_entries (tree d) q then (Inl EEXIST, d)
          else (Inr (), put_tree (AList.delete q (tree d)) d)))"

text \<open>\<open>Rename\<close> of a file, in one step.\<close>

definition Rename :: "os \<Rightarrow> string \<Rightarrow> string \<Rightarrow> (errno, unit) io" where
  "Rename os a b = attempt os (\<lambda>d.
     (case (locate os (tree d) False (segments a), locate os (tree d) False (segments b)) of
        (Inl e, _) \<Rightarrow> (Inl e, d)
      | (_, Inl e) \<Rightarrow> (Inl e, d)
      | (Inr p, Inr q) \<Rightarrow>
          (case node_at (tree d) p of
             None \<Rightarrow> (Inl ENOENT, d)
           | Some n \<Rightarrow>
               if node_at (tree d) q = Some Directory then (Inl EEXIST, d)
               else (Inr (), put_tree (AList.update q n (AList.delete p (tree d))) d))))"

section \<open>Writing a file\<close>

definition writeNewFile :: "os \<Rightarrow> string \<Rightarrow> string \<Rightarrow> (errno, unit) io" where
  "writeNewFile os p data d =
     (case OpenExcl os p d of
        (Inl e, d) \<Rightarrow> (Inl e, d)
      | (Inr f, d) \<Rightarrow>
          (case FileWrite os f data d of
             ((written, Some e), d) \<Rightarrow> (Inl e, snd (Remove os p (snd (CloseFile os d))))
           | ((written, None), d) \<Rightarrow>
               if written \<noteq> length data
               then (Inl EShortWrite, snd (Remove os p (snd (CloseFile os d))))
               else (case CloseFile os d of
                   (Inl e, d) \<Rightarrow> (Inl e, snd (Remove os p d))
                 | (Inr _, d) \<Rightarrow> (Inr (), d))))"

definition temporary :: "string \<Rightarrow> string" where
  "temporary p = p @ ''.wahoo.tmp''"

text \<open>The deferred \<open>Remove\<close> runs on every return after the file has been opened.\<close>

definition writeAtomic :: "os \<Rightarrow> string \<Rightarrow> string \<Rightarrow> (errno, unit) io" where
  "writeAtomic os p data d =
     (case OpenExcl os (temporary p) d of
        (Inl e, d) \<Rightarrow> (Inl e, d)
      | (Inr f, d) \<Rightarrow>
         (case (case FileWrite os f data d of
             ((written, Some e), d) \<Rightarrow> (Inl e, snd (CloseFile os d))
           | ((written, None), d) \<Rightarrow>
               if written \<noteq> length data then (Inl EShortWrite, snd (CloseFile os d))
               else (case CloseFile os d of
                   (Inl e, d) \<Rightarrow> (Inl e, d)
                 | (Inr _, d) \<Rightarrow> Rename os (temporary p) p d)) of
           (result, d) \<Rightarrow> (result, snd (Remove os (temporary p) d))))"

section \<open>Paths without links\<close>

definition direct :: "tree \<Rightarrow> path \<Rightarrow> bool" where
  "direct t p \<longleftrightarrow> list_all (\<lambda>q. map_of t q = Some Directory) (parents p)"

lemma walk_direct: "walk_parents t qs = Here \<longleftrightarrow> list_all (\<lambda>q. map_of t q = Some Directory) qs"
  by (induction qs) (auto split: option.splits node.splits)

lemma locate_direct: "direct t p \<Longrightarrow> locate os t False p = Inr p"
  using walk_direct [of t "parents p"] by (simp add: locate_def direct_def)

lemma locate_direct_final:
  "direct t p \<Longrightarrow> \<not> is_symlink (node_at t p) \<Longrightarrow> locate os t final p = Inr p"
  using walk_direct [of t "parents p"] by (simp add: locate_def direct_def)

lemma parents_strict: "q \<in> set (parents p) \<Longrightarrow> length q < length p"
  by (auto simp: parents_def)

lemma direct_cong:
  "(\<And>q. q \<in> set (parents p) \<Longrightarrow> map_of t q = map_of t' q) \<Longrightarrow> direct t p = direct t' p"
  unfolding direct_def by (intro list.pred_cong) simp_all

lemma segments_nonempty [simp]: "segments p \<noteq> []"
  by (simp add: segments_def)

lemma node_at_segments [simp]: "node_at t (segments p) = map_of t (segments p)"
  by (simp add: node_at_def)

lemma split_byte_suffix:
  "sep \<notin> set e \<Longrightarrow> split_byte sep (p @ e) = butlast (split_byte sep p) @ [last (split_byte sep p) @ e]"
proof (induction p)
  case (Cons c r)
  obtain q qs where "split_byte sep r = q # qs" by (cases "split_byte sep r") auto
  with Cons show ?case by (cases qs) auto
qed simp

lemma segments_temporary:
  "segments (temporary p) = butlast (segments p) @ [last (segments p) @ ''.wahoo.tmp'']"
  by (simp add: segments_def temporary_def split_byte_suffix)

lemma length_segments_temporary: "length (segments (temporary p)) = length (segments p)"
  by (simp add: segments_temporary Suc_leI)

lemma segments_temporary_neq: "segments (temporary p) \<noteq> segments p"
proof
  assume "segments (temporary p) = segments p"
  then have "last (segments (temporary p)) = last (segments p)" by simp
  then show False by (simp add: segments_temporary)
qed

lemma parents_temporary: "parents (segments (temporary p)) = parents (segments p)"
proof -
  have "take i (segments (temporary p)) = take i (segments p)" if "i < length (segments p)" for i
    using that by (simp add: segments_temporary butlast_conv_take take_append)
  then show ?thesis by (simp add: parents_def length_segments_temporary)
qed

lemma direct_temporary: "direct t (segments (temporary p)) = direct t (segments p)"
  by (simp add: direct_def parents_temporary)

section \<open>Histories\<close>

text \<open>Every tree that comes up on the way satisfies \<open>G\<close>.\<close>

definition evolves :: "(tree \<Rightarrow> bool) \<Rightarrow> disk \<Rightarrow> disk \<Rightarrow> bool" where
  "evolves G d d' \<longleftrightarrow> root_dir d' = root_dir d \<and> (\<exists>ts. trail d' = trail d @ ts \<and> list_all G ts) \<and>
     (tree d' = tree d \<or> G (tree d'))"

lemma evolves_refl [simp]: "evolves G d d"
  by (simp add: evolves_def)

lemma evolves_trans: "evolves G d d1 \<Longrightarrow> evolves G d1 d2 \<Longrightarrow> evolves G d d2"
  unfolding evolves_def by (metis append.assoc list_all_append)

lemma evolves_tick [simp]: "evolves G d (tick d)" "evolves G (tick d) d' = evolves G d d'"
  by (simp_all add: evolves_def tick_def)

lemma evolves_put: "G t \<Longrightarrow> evolves G d (put_tree t d)"
  by (simp add: evolves_def put_tree_def)

lemma evolves_put_tick: "G t \<Longrightarrow> evolves G d (put_tree t (tick d))"
  by (simp add: evolves_def put_tree_def tick_def)

lemma evolves_mono: "evolves G d d' \<Longrightarrow> (\<And>t. G t \<Longrightarrow> H t) \<Longrightarrow> evolves H d d'"
  unfolding evolves_def by (metis (mono_tags, lifting) list.pred_mono_strong)

lemma tick_fields [simp]: "tree (tick d) = tree d" "trail (tick d) = trail d" "root_dir (tick d) = root_dir d"
  by (simp_all add: tick_def)

lemma put_tree_fields [simp]: "tree (put_tree t d) = t" "root_dir (put_tree t d) = root_dir d"
  by (simp_all add: put_tree_def)

lemma attempt_cases:
  assumes "attempt os act d = (r, d')"
  obtains e where "r = Inl (EOther e)" "d' = tick d" | "act (tick d) = (r, d')"
  using assms by (auto simp: attempt_def split: option.splits)

text \<open>What the operations on a path without links do to the tree.\<close>

lemma OpenExcl_direct:
  assumes "OpenExcl os p d = (r, d')" "direct (tree d) (segments p)"
  obtains e where "r = Inl e" "tree d' = tree d" "evolves G d d'"
  | "r = Inr (segments p)" "map_of (tree d) (segments p) = None"
    "d' = put_tree (AList.update (segments p) (Regular []) (tree d)) (tick d)"
  using assms(1) unfolding OpenExcl_def
  by (rule attempt_cases) (auto simp: locate_direct [OF assms(2)] split: if_splits)

lemma Remove_direct:
  assumes "Remove os p d = (r, d')" "direct (tree d) (segments p)"
  obtains e where "r = Inl e" "tree d' = tree d" "evolves G d d'"
  | "r = Inr ()" "d' = put_tree (AList.delete (segments p) (tree d)) (tick d)"
  using assms(1) unfolding Remove_def
  by (rule attempt_cases) (auto simp: locate_direct [OF assms(2)] split: if_splits)

lemma CloseFile_tree: "CloseFile os d = (r, d') \<Longrightarrow> tree d' = tree d \<and> evolves G d d'"
  by (auto simp: CloseFile_def elim!: attempt_cases)

lemma Rename_direct:
  assumes "Rename os a b d = (r, d')" "direct (tree d) (segments a)" "direct (tree d) (segments b)"
  obtains e where "r = Inl e" "tree d' = tree d" "evolves G d d'"
  | n where "r = Inr ()" "map_of (tree d) (segments a) = Some n"
    "d' = put_tree (AList.update (segments b) n (AList.delete (segments a) (tree d))) (tick d)"
  using assms(1) unfolding Rename_def
  by (rule attempt_cases)
    (auto simp: locate_direct [OF assms(2)] locate_direct [OF assms(3)] split: if_splits option.splits)

lemma FileWrite_tree:
  assumes "FileWrite os q data d = ((n, err), d')" "map_of (tree d) q = Some (Regular [])"
  shows "\<exists>s. d' = put_tree (AList.update q (Regular s) (tree d)) (tick d) \<and> (n = length data \<longrightarrow> s = data)"
  using assms by (auto simp: FileWrite_def Let_def split: prod.splits option.splits)

section \<open>Atomic replacement\<close>

text \<open>
  The trees that \<open>writeAtomic\<close> may leave: they differ from \<open>t0\<close> at most in the file and a temporary
  neighbour that was not there before, and the file has its old contents or all of the new ones.
\<close>

definition replaced :: "tree \<Rightarrow> string \<Rightarrow> string \<Rightarrow> tree \<Rightarrow> bool" where
  "replaced t0 p data t \<longleftrightarrow>
     (\<forall>q. q \<noteq> segments p \<longrightarrow> q \<noteq> segments (temporary p) \<longrightarrow> map_of t q = map_of t0 q) \<and>
     map_of t (segments p) \<in> {map_of t0 (segments p), Some (Regular data)} \<and>
     (case map_of t0 (segments (temporary p)) of
        Some n \<Rightarrow> map_of t (segments (temporary p)) = Some n
      | None \<Rightarrow> \<not> is_symlink (map_of t (segments (temporary p))))"

lemma replaced_refl [simp]: "replaced t p data t"
  by (simp add: replaced_def is_symlink_def split: option.split)

lemma replaced_direct: "replaced t0 p data t \<Longrightarrow> direct t (segments p) = direct t0 (segments p)"
proof (rule direct_cong)
  fix q
  assume "replaced t0 p data t" "q \<in> set (parents (segments p))"
  moreover from this(2) have "q \<noteq> segments p" "q \<noteq> segments (temporary p)"
    using parents_strict [of q "segments p"] length_segments_temporary [of p] by auto
  ultimately show "map_of t q = map_of t0 q" by (simp add: replaced_def)
qed

lemma replaced_temp:
  assumes "map_of t0 (segments (temporary p)) = None" "replaced t0 p data t"
  shows "replaced t0 p data (AList.update (segments (temporary p)) (Regular s) t)"
    "replaced t0 p data (AList.delete (segments (temporary p)) t)"
  using assms segments_temporary_neq [of p]
  by (auto simp: replaced_def update_conv' delete_conv' restrict_map_def is_symlink_def)

text \<open>The deferred removal keeps the file.\<close>

lemma Remove_temp:
  assumes "direct t0 (segments p)" "replaced t0 p data (tree d)" "Remove os (temporary p) d = (r, d')"
    and none: "map_of t0 (segments (temporary p)) = None"
  shows "evolves (replaced t0 p data) d d' \<and> map_of (tree d') (segments p) = map_of (tree d) (segments p) \<and>
    (map_of (tree d) (segments (temporary p)) = None \<longrightarrow> map_of (tree d') (segments (temporary p)) = None)"
proof -
  have "direct (tree d) (segments (temporary p))"
    using assms(1,2) by (simp add: direct_temporary replaced_direct)
  with assms(3) show ?thesis
  proof (rule Remove_direct [where G = "replaced t0 p data"])
    assume "d' = put_tree (AList.delete (segments (temporary p)) (tree d)) (tick d)"
    with assms(2) show ?thesis
      using replaced_temp(2) [OF none assms(2)] segments_temporary_neq [of p]
      by (auto simp: delete_conv' restrict_map_def intro: evolves_put_tick)
  qed simp
qed

text \<open>The part between the opening and the deferred removal.\<close>

definition fill_and_rename :: "os \<Rightarrow> string \<Rightarrow> string \<Rightarrow> path \<Rightarrow> (errno, unit) io" where
  "fill_and_rename os p data f d =
     (case FileWrite os f data d of
        ((written, Some e), d) \<Rightarrow> (Inl e, snd (CloseFile os d))
      | ((written, None), d) \<Rightarrow>
          if written \<noteq> length data then (Inl EShortWrite, snd (CloseFile os d))
          else (case CloseFile os d of
              (Inl e, d) \<Rightarrow> (Inl e, d)
            | (Inr _, d) \<Rightarrow> Rename os (temporary p) p d))"

lemma writeAtomic_fill:
  "writeAtomic os p data d =
     (case OpenExcl os (temporary p) d of
        (Inl e, d) \<Rightarrow> (Inl e, d)
      | (Inr f, d) \<Rightarrow> (case fill_and_rename os p data f d of
          (result, d) \<Rightarrow> (result, snd (Remove os (temporary p) d))))"
  unfolding writeAtomic_def fill_and_rename_def by (rule refl)

lemma fill_and_rename_replaced:
  assumes t0: "direct t0 (segments p)" "replaced t0 p data (tree d)" "map_of t0 (segments (temporary p)) = None"
    and d: "map_of (tree d) (segments (temporary p)) = Some (Regular [])"
    and run: "fill_and_rename os p data (segments (temporary p)) d = (r, d')"
  shows "evolves (replaced t0 p data) d d' \<and>
    (case r of
       Inl e \<Rightarrow> map_of (tree d') (segments p) = map_of (tree d) (segments p)
     | Inr _ \<Rightarrow> map_of (tree d') (segments p) = Some (Regular data) \<and> map_of (tree d') (segments (temporary p)) = None)"
proof -
  let ?T = "segments (temporary p)" and ?P = "segments p"
  obtain n err d1 where w: "FileWrite os ?T data d = ((n, err), d1)" by (metis surj_pair)
  from FileWrite_tree [OF this d] obtain s where
    d1: "d1 = put_tree (AList.update ?T (Regular s) (tree d)) (tick d)" and full: "n = length data \<longrightarrow> s = data" by blast
  have r1: "replaced t0 p data (tree d1)" using replaced_temp(1) [OF t0(3,2)] by (simp add: d1)
  then have e1: "evolves (replaced t0 p data) d d1" unfolding d1 by (simp add: evolves_put_tick)
  have P1: "map_of (tree d1) ?P = map_of (tree d) ?P" "map_of (tree d1) ?T = Some (Regular s)"
    using segments_temporary_neq [of p] by (simp_all add: d1 update_conv')
  obtain rc d2 where c: "CloseFile os d1 = (rc, d2)" by fastforce
  from CloseFile_tree [OF this] have t2: "tree d2 = tree d1" and e2: "evolves (replaced t0 p data) d1 d2" by blast+
  show ?thesis
  proof (cases "err = None \<and> n = length data \<and> (\<exists>u. rc = Inr u)")
    case False
    then have "r \<in> range Inl \<and> d' = d2"
      using run w c by (auto simp: fill_and_rename_def split: option.splits if_splits sum.splits)
    then show ?thesis using e1 e2 t2 P1 by (auto intro: evolves_trans)
  next
    case True
    then have ren: "Rename os (temporary p) p d2 = (r, d')" using run w c by (auto simp: fill_and_rename_def)
    have dir: "direct (tree d2) ?P" "direct (tree d2) ?T"
      using replaced_direct [OF r1] t0(1) by (simp_all add: t2 direct_temporary)
    from ren dir(2,1) show ?thesis
    proof (rule Rename_direct [where G = "replaced t0 p data"])
      fix e
      assume "r = Inl e" "tree d' = tree d2" "evolves (replaced t0 p data) d2 d'"
      then show ?thesis using e1 e2 t2 P1 by (auto intro: evolves_trans)
    next
      fix n
      assume r: "r = Inr ()" "map_of (tree d2) ?T = Some n"
        "d' = put_tree (AList.update ?P n (AList.delete ?T (tree d2))) (tick d2)"
      then have n: "n = Regular data" using P1(2) t2 full True by simp
      have "replaced t0 p data (tree d')"
        using replaced_temp(2) [OF t0(3) r1] segments_temporary_neq [of p]
        by (simp add: r n t2 replaced_def update_conv' delete_conv' is_symlink_def t0(3))
      then have "evolves (replaced t0 p data) d2 d'" using r(3) by (simp add: evolves_put_tick)
      moreover have "map_of (tree d') ?P = Some (Regular data)" "map_of (tree d') ?T = None"
        using segments_temporary_neq [of p] by (simp_all add: r n update_conv' delete_conv')
      ultimately show ?thesis using e1 e2 r(1) by (auto intro: evolves_trans)
    qed
  qed
qed

lemma writeAtomic_replaces:
  assumes "direct (tree d) (segments p)" "writeAtomic os p data d = (r, d')"
  shows "evolves (replaced (tree d) p data) d d' \<and>
    (case r of
       Inl e \<Rightarrow> map_of (tree d') (segments p) = map_of (tree d) (segments p)
     | Inr _ \<Rightarrow> map_of (tree d') (segments p) = Some (Regular data) \<and> map_of (tree d') (segments (temporary p)) = None)"
proof -
  let ?T = "segments (temporary p)" and ?P = "segments p"
  let ?G = "replaced (tree d) p data"
  obtain ro d1 where o: "OpenExcl os (temporary p) d = (ro, d1)" by fastforce
  have "direct (tree d) ?T" using assms(1) by (simp add: direct_temporary)
  with o show ?thesis
  proof (rule OpenExcl_direct [where G = ?G])
    fix e
    assume "ro = Inl e" "tree d1 = tree d" "evolves ?G d d1"
    with assms(2) o show ?thesis by (auto simp: writeAtomic_def)
  next
    assume ro: "ro = Inr ?T" "map_of (tree d) ?T = None"
      and d1: "d1 = put_tree (AList.update ?T (Regular []) (tree d)) (tick d)"
    obtain rf d2 where f: "fill_and_rename os p data ?T d1 = (rf, d2)" by fastforce
    obtain rr d3 where rm: "Remove os (temporary p) d2 = (rr, d3)" by fastforce
    have res: "r = rf" "d' = d3" using assms(2) o ro f rm by (simp_all add: writeAtomic_fill)
    have g1: "?G (tree d1)" using replaced_temp(1) [OF ro(2) replaced_refl] by (simp add: d1)
    then have e1: "evolves ?G d d1" by (simp add: d1 evolves_put_tick)
    have P1: "map_of (tree d1) ?P = map_of (tree d) ?P" "map_of (tree d1) ?T = Some (Regular [])"
      using segments_temporary_neq [of p] by (simp_all add: d1 update_conv')
    note fill = fill_and_rename_replaced [OF assms(1) g1 ro(2) P1(2) f]
    then have g2: "?G (tree d2)" using g1 by (auto simp: evolves_def)
    note rem = Remove_temp [OF assms(1) g2 rm ro(2)]
    have "evolves ?G d d3" using e1 fill rem by (blast intro: evolves_trans)
    with fill rem P1 show ?thesis unfolding res by (auto split: sum.splits)
  qed
qed

text \<open>
  C18. Whatever fails and whenever the process dies, \<open>writeAtomic\<close> never leaves a partial file: in
  every state of the directory during and after the call, the file has its old contents or exactly
  the new ones, and nothing but the file and its temporary neighbour differs, which is not touched
  either if somebody else has left it there; it returns nil only if
  the new contents are in place and the temporary file is gone, and an error only if the file is as
  it was. The path must not lead through a symbolic link.
\<close>

theorem writeAtomic_all_or_nothing:
  assumes "direct (tree d) (segments p)" "writeAtomic os p data d = (r, d')"
  shows "(\<exists>ts. trail d' = trail d @ ts \<and> list_all (replaced (tree d) p data) ts) \<and>
    replaced (tree d) p data (tree d') \<and>
    (case r of
       Inl e \<Rightarrow> map_of (tree d') (segments p) = map_of (tree d) (segments p)
     | Inr _ \<Rightarrow> map_of (tree d') (segments p) = Some (Regular data) \<and> map_of (tree d') (segments (temporary p)) = None)"
  using writeAtomic_replaces [OF assms] by (auto simp: evolves_def split: sum.splits)

text \<open>A disk on which the third call, the close, fails after a short write.\<close>

definition demo_disk :: disk where
  "demo_disk = \<lparr>root_dir = RootDirectory, tree = [([''go.mod''], Regular ''old'')], trail = [], clock = 0\<rparr>"

definition demo_os :: os where
  "demo_os = \<lparr>follow = (\<lambda>t final p. Inl ENOENT), fault = (\<lambda>n. if n = 1 then (None, Some 2) else (None, None))\<rparr>"

theorem writeAtomic_all_or_nothing_witness:
  "map_of (tree (snd (writeAtomic demo_os ''go.mod'' ''new!'' demo_disk))) [''go.mod''] = Some (Regular ''old'')"
proof -
  have seg: "segments ''go.mod'' = [''go.mod'']" by code_simp
  have "fst (writeAtomic demo_os ''go.mod'' ''new!'' demo_disk) = Inl EShortWrite" by code_simp
  moreover have "direct (tree demo_disk) (segments ''go.mod'')" by (simp add: seg direct_def parents_def)
  ultimately show ?thesis
    using writeAtomic_all_or_nothing [of demo_disk, OF _ prod.collapse [symmetric], of "''go.mod''" demo_os "''new!''"]
    by (simp add: seg) (simp add: demo_disk_def)
qed

end
