(* ===== verification/Framework_Requirement.thy ===== *)
theory Framework_Requirement
  imports Go_Text
begin

text \<open>
  The reading and rewriting of \<open>go.mod\<close> in \<open>internal/scaffold/scaffold.go\<close>: \<open>replaceFrameworkRequirement\<close>
  and the module path, and the versions that \<open>Upgrade\<close> accepts.
\<close>

section \<open>Versions\<close>

text \<open>
  The regular expression of a framework version: \<open>v\<close>, three runs of digits, an optional pre-release
  and optional build metadata. \<open>\d\<close> is an ASCII digit. The alternatives start with different
  characters, so matching from left to right needs no backtracking.
\<close>

definition alnum :: "char \<Rightarrow> bool" where
  "alnum c \<longleftrightarrow> is_digit c \<or> \<not> outside (CHR ''A'') (CHR ''Z'') c \<or> \<not> outside (CHR ''a'') (CHR ''z'') c"

definition version_char :: "char \<Rightarrow> bool" where
  "version_char c \<longleftrightarrow> alnum c \<or> c = CHR ''.'' \<or> c = CHR ''-''"

text \<open>One or more digits; what follows them.\<close>

definition eat_digits :: "string \<Rightarrow> string option" where
  "eat_digits s = (case s of [] \<Rightarrow> None | c # r \<Rightarrow> if is_digit c then Some (dropWhile is_digit s) else None)"

definition eat_char :: "char \<Rightarrow> string \<Rightarrow> string option" where
  "eat_char d s = (case s of [] \<Rightarrow> None | c # r \<Rightarrow> if c = d then Some r else None)"

definition eat_prerelease :: "string \<Rightarrow> string option" where
  "eat_prerelease s = (case s of
       c # d # r \<Rightarrow> if c = CHR ''-'' \<and> alnum d then Some (dropWhile version_char r) else Some s
     | _ \<Rightarrow> Some s)"

definition eat_build :: "string \<Rightarrow> string option" where
  "eat_build s = (case s of
       c # d # r \<Rightarrow> if c = CHR ''+'' \<and> version_char d then Some (dropWhile version_char r) else Some s
     | _ \<Rightarrow> Some s)"

definition validFrameworkVersion :: "string \<Rightarrow> bool" where
  "validFrameworkVersion version \<longleftrightarrow>
     Option.bind (eat_char (CHR ''v'') version) (\<lambda>s. Option.bind (eat_digits s) (\<lambda>s.
     Option.bind (eat_char (CHR ''.'') s) (\<lambda>s. Option.bind (eat_digits s) (\<lambda>s.
     Option.bind (eat_char (CHR ''.'') s) (\<lambda>s. Option.bind (eat_digits s) (\<lambda>s.
     Option.bind (eat_prerelease s) eat_build)))))) = Some []"

section \<open>The framework's line\<close>

definition framework :: string where "framework = ''github.com/bjarneo/wahoo''"

datatype gomod_error = ListedTwice | LocateVersion | NotRequired

text \<open>\<open>line[:versionOffset] + replacement + line[versionOffset+len(current):]\<close>; \<open>None\<close> if the version is not found.\<close>

definition replace_version :: "string \<Rightarrow> string \<Rightarrow> string \<Rightarrow> string option" where
  "replace_version line current replacement =
     (let moduleOffset = (case index_of framework line of None \<Rightarrow> length framework - 1 | Some i \<Rightarrow> i + length framework) in
      case index_of current (drop moduleOffset line) of
        None \<Rightarrow> None
      | Some i \<Rightarrow>
          let versionOffset = i + moduleOffset in
          Some (take versionOffset line @ replacement @ drop (versionOffset + length current) line))"

definition require_candidate :: "bool \<Rightarrow> string \<Rightarrow> string" where
  "require_candidate inRequireBlock trimmed_line =
     (if inRequireBlock then trimmed_line
      else if prefix ''require '' trimmed_line then trim_space (trim_prefix ''require '' trimmed_line)
      else [])"

fun requirement_loop ::
  "string \<Rightarrow> string list \<Rightarrow> bool \<Rightarrow> nat \<Rightarrow> string \<Rightarrow> string list \<Rightarrow> gomod_error + nat \<times> string \<times> string list" where
  "requirement_loop replacement [] inRequireBlock found current acc = Inr (found, current, acc)"
| "requirement_loop replacement (line # rest) inRequireBlock found current acc =
     (let trimmed_line = trim_space line in
      if prefix ''require ('' trimmed_line then requirement_loop replacement rest True found current (acc @ [line])
      else if inRequireBlock \<and> trimmed_line = '')''
      then requirement_loop replacement rest False found current (acc @ [line])
      else
        let fs = go_fields (require_candidate inRequireBlock trimmed_line) in
        if length fs < 2 \<or> fs ! 0 \<noteq> framework
        then requirement_loop replacement rest inRequireBlock found current (acc @ [line])
        else
          let found = found + 1 in
          if found > 1 then Inl ListedTwice
          else
            let current = fs ! 1 in
            if replacement = [] \<or> replacement = current
            then requirement_loop replacement rest inRequireBlock found current (acc @ [line])
            else case replace_version line current replacement of
              None \<Rightarrow> Inl LocateVersion
            | Some line \<Rightarrow> requirement_loop replacement rest inRequireBlock found current (acc @ [line]))"

definition replaceFrameworkRequirement :: "string \<Rightarrow> string \<Rightarrow> gomod_error + string \<times> string" where
  "replaceFrameworkRequirement data replacement =
     (case requirement_loop replacement (split_after LF data) False 0 [] [] of
        Inl e \<Rightarrow> Inl e
      | Inr (found, current, ls) \<Rightarrow> if found = 0 then Inl NotRequired else Inr (current, concat ls))"

text \<open>The first line of two fields whose first is \<open>module\<close>.\<close>

fun module_line :: "string list \<Rightarrow> string option" where
  "module_line [] = None"
| "module_line (line # rest) =
     (let fs = go_fields line in if length fs = 2 \<and> fs ! 0 = ''module'' then Some (fs ! 1) else module_line rest)"

definition module_path :: "string \<Rightarrow> string option" where
  "module_path data = module_line (split_byte LF data)"

section \<open>Lines by what the loop makes of them\<close>

datatype line_class = Other bool | Requirement string

definition line_class :: "bool \<Rightarrow> string \<Rightarrow> line_class" where
  "line_class blk line =
     (let t = trim_space line in
      if prefix ''require ('' t then Other True
      else if blk \<and> t = '')'' then Other False
      else let fs = go_fields (require_candidate blk t) in
        if length fs < 2 \<or> fs ! 0 \<noteq> framework then Other blk else Requirement (fs ! 1))"

lemma requirement_loop_class:
  "requirement_loop v (line # rest) blk found cur acc = (case line_class blk line of
      Other blk \<Rightarrow> requirement_loop v rest blk found cur (acc @ [line])
    | Requirement x \<Rightarrow>
        if found > 0 then Inl ListedTwice
        else if v = [] \<or> v = x then requirement_loop v rest blk (Suc 0) x (acc @ [line])
        else case replace_version line x v of
          None \<Rightarrow> Inl LocateVersion | Some l \<Rightarrow> requirement_loop v rest blk (Suc 0) x (acc @ [l]))"
  by (cases found) (simp_all add: line_class_def Let_def split: option.split)

declare requirement_loop.simps(2) [simp del]

text \<open>The block state after lines without the requirement, \<open>None\<close> if one has it.\<close>

fun skip_lines :: "bool \<Rightarrow> string list \<Rightarrow> bool option" where
  "skip_lines blk [] = Some blk"
| "skip_lines blk (line # rest) =
     (case line_class blk line of Other blk \<Rightarrow> skip_lines blk rest | Requirement x \<Rightarrow> None)"

lemma skip_lines_append:
  "skip_lines blk (xs @ ys) = (case skip_lines blk xs of None \<Rightarrow> None | Some blk \<Rightarrow> skip_lines blk ys)"
  by (induction xs arbitrary: blk) (auto split: line_class.splits)

lemma requirement_loop_skip:
  "skip_lines blk ls = Some blk' \<Longrightarrow>
   requirement_loop v (ls @ rest) blk found cur acc = requirement_loop v rest blk' found cur (acc @ ls)"
  by (induction ls arbitrary: blk acc) (auto simp: requirement_loop_class split: line_class.splits)

lemma requirement_loop_found:
  "requirement_loop v ls blk (Suc 0) cur acc = Inr (n, x, out) \<longleftrightarrow>
     skip_lines blk ls \<noteq> None \<and> n = 1 \<and> x = cur \<and> out = acc @ ls"
  by (induction ls arbitrary: blk acc) (auto simp: requirement_loop_class split: line_class.splits)

text \<open>The loop succeeds exactly on the lists of lines with one requirement.\<close>

definition new_line :: "string \<Rightarrow> string \<Rightarrow> string \<Rightarrow> string option" where
  "new_line v x line = (if v = [] \<or> v = x then Some line else replace_version line x v)"

lemma requirement_loop_iff:
  "requirement_loop v ls blk 0 cur acc = Inr (Suc n, x, out) \<longleftrightarrow>
     n = 0 \<and> (\<exists>l1 line l2 blk' line'. ls = l1 @ line # l2 \<and> skip_lines blk l1 = Some blk' \<and>
       line_class blk' line = Requirement x \<and> skip_lines blk' l2 \<noteq> None \<and>
       new_line v x line = Some line' \<and> out = acc @ l1 @ line' # l2)"
  (is "_ \<longleftrightarrow> ?r blk ls acc")
proof (induction ls arbitrary: blk acc)
  case (Cons l ls)
  show ?case
  proof (cases "line_class blk l")
    case (Other b)
    have "?r blk (l # ls) acc \<longleftrightarrow> ?r b ls (acc @ [l])"
    proof
      assume "?r blk (l # ls) acc"
      then obtain l1 line l2 blk' line' where *: "n = 0" "l # ls = l1 @ line # l2" "skip_lines blk l1 = Some blk'"
        "line_class blk' line = Requirement x" "skip_lines blk' l2 \<noteq> None" "new_line v x line = Some line'"
        "out = acc @ l1 @ line' # l2" by blast
      from * Other obtain m1 where "l1 = l # m1" by (cases l1) auto
      with * Other show "?r b ls (acc @ [l])" by (intro conjI exI [of _ m1] exI [of _ line] exI [of _ l2]) auto
    next
      assume "?r b ls (acc @ [l])"
      then obtain l1 line l2 blk' line' where *: "n = 0" "ls = l1 @ line # l2" "skip_lines b l1 = Some blk'"
        "line_class blk' line = Requirement x" "skip_lines blk' l2 \<noteq> None" "new_line v x line = Some line'"
        "out = (acc @ [l]) @ l1 @ line' # l2" by blast
      with Other show "?r blk (l # ls) acc"
        by (intro conjI exI [of _ "l # l1"] exI [of _ line] exI [of _ l2]) auto
    qed
    with Cons Other show ?thesis by (simp add: requirement_loop_class)
  next
    case (Requirement y)
    have "?r blk (l # ls) acc \<longleftrightarrow> n = 0 \<and> x = y \<and> skip_lines blk ls \<noteq> None \<and>
        (\<exists>line'. new_line v y l = Some line' \<and> out = acc @ line' # ls)"
    proof
      assume "?r blk (l # ls) acc"
      then obtain l1 line l2 blk' line' where *: "n = 0" "l # ls = l1 @ line # l2" "skip_lines blk l1 = Some blk'"
        "line_class blk' line = Requirement x" "skip_lines blk' l2 \<noteq> None" "new_line v x line = Some line'"
        "out = acc @ l1 @ line' # l2" by blast
      with Requirement have "l1 = []" by (cases l1) auto
      with * Requirement show "n = 0 \<and> x = y \<and> skip_lines blk ls \<noteq> None \<and>
        (\<exists>line'. new_line v y l = Some line' \<and> out = acc @ line' # ls)" by auto
    next
      assume r: "n = 0 \<and> x = y \<and> skip_lines blk ls \<noteq> None \<and>
        (\<exists>line'. new_line v y l = Some line' \<and> out = acc @ line' # ls)"
      then obtain line' where "new_line v y l = Some line'" "out = acc @ line' # ls" by blast
      with r Requirement show "?r blk (l # ls) acc"
        by (intro conjI exI [of _ "[]"] exI [of _ l] exI [of _ ls] exI [of _ blk] exI [of _ line']) auto
    qed
    with Requirement show ?thesis
      by (auto simp: requirement_loop_class new_line_def requirement_loop_found split: option.splits)
  qed
qed simp

section \<open>The anatomy of the framework's line\<close>

text \<open>What stands in front of the module path: white space, and \<open>require\<close> outside a block.\<close>

definition line_start :: "bool \<Rightarrow> string \<Rightarrow> bool" where
  "line_start blk p \<longleftrightarrow> (if blk then list_all ws p
     else \<exists>w1 w2. p = w1 @ ''require '' @ w2 \<and> list_all ws w1 \<and> list_all ws w2)"

definition req_line :: "bool \<Rightarrow> string \<Rightarrow> string \<Rightarrow> string \<Rightarrow> string \<Rightarrow> bool" where
  "req_line blk p w x q \<longleftrightarrow> line_start blk p \<and> w \<noteq> [] \<and> list_all ws w \<and> word x \<and> ends_word q"

lemma framework_word: "word framework" "list_all ascii framework"
  by (simp_all add: framework_def word_def ws_def ascii_def byte_def)

lemma line_start_no_g: "line_start blk p \<Longrightarrow> CHR ''g'' \<notin> set p"
proof -
  have "\<not> ws (CHR ''g'')" by (simp add: ws_def byte_def)
  then show "line_start blk p \<Longrightarrow> CHR ''g'' \<notin> set p"
    by (auto simp: line_start_def list_all_iff split: if_splits)
qed

lemma replace_version_line:
  assumes "req_line blk p w x q"
  shows "replace_version (p @ framework @ w @ x @ q) x v = Some (p @ framework @ w @ v @ q)"
proof -
  have "hd framework \<notin> set p"
    using assms line_start_no_g [of blk p] by (simp add: req_line_def framework_def)
  then have i: "index_of framework (p @ framework @ w @ x @ q) = Some (length p)"
    by (intro index_of_append) (simp_all add: framework_def)
  have "x \<noteq> []" "\<not> ws (hd x)" using assms by (auto simp: req_line_def word_def neq_Nil_conv)
  then have "hd x \<notin> set w" using assms by (auto simp: req_line_def list_all_iff)
  with \<open>x \<noteq> []\<close> have "index_of x (w @ x @ q) = Some (length w)" by (intro index_of_append)
  with i show ?thesis by (simp add: replace_version_def Let_def)
qed

lemma ws_space: "ws (CHR '' '')" "\<not> ws (CHR ''r'')" "\<not> ws (CHR '')'')" "\<not> ws (CHR ''('')" "\<not> ws (CHR ''g'')"
  by (simp_all add: ws_def byte_def)

lemma ends_word_append: "ends_word a \<Longrightarrow> list_all ws b \<Longrightarrow> ends_word (a @ b)"
  by (cases a; cases b) (auto simp: ends_word_def)

lemma go_fields_two:
  assumes "list_all ascii s" "2 \<le> length (go_fields s)" "go_fields s ! 0 = a" "go_fields s ! 1 = b"
  obtains w1 w2 q where "s = w1 @ a @ w2 @ b @ q" "list_all ws w1" "list_all ws w2" "w2 \<noteq> []" "word a" "word b" "ends_word q"
proof -
  obtain fs where fs: "go_fields s = a # b # fs"
    using assms(2-4) by (cases "go_fields s"; cases "tl (go_fields s)") auto
  from assms(1) fs obtain w1 r where 1: "s = w1 @ a @ r" "list_all ws w1" "word a" "ends_word r" "go_fields r = b # fs"
    by (rule go_fields_Cons)
  from 1(1) assms(1) have "list_all ascii r" by simp
  from this 1(5) obtain w2 q where 2: "r = w2 @ b @ q" "list_all ws w2" "word b" "ends_word q"
    by (rule go_fields_Cons)
  have "w2 \<noteq> []"
  proof
    assume "w2 = []"
    with 2 1(4) show False by (auto simp: ends_word_def word_def neq_Nil_conv)
  qed
  with 1 2 that show thesis by blast
qed

lemma candidate_after_require: "require_candidate False (''require '' @ r) = trim_space r"
  by (simp add: require_candidate_def trim_prefix_def)

lemma line_class_Requirement:
  assumes "list_all ascii line" "line_class blk line = Requirement x"
  obtains p w q where "line = p @ framework @ w @ x @ q" "req_line blk p w x q"
proof -
  let ?t = "trim_space line"
  let ?c = "require_candidate blk ?t"
  have c: "2 \<le> length (go_fields ?c)" "go_fields ?c ! 0 = framework" "go_fields ?c ! 1 = x"
    using assms(2) by (auto simp: line_class_def Let_def split: if_splits)
  obtain w1 w2 where l: "line = w1 @ ?t @ w2" "list_all ws w1" "list_all ws w2"
    using trim_space_split [OF assms(1)] by metis
  then have at: "list_all ascii ?t" using assms(1) by (metis list_all_append)
  show thesis
  proof (cases blk)
    case True
    then have "?c = ?t" by (simp add: require_candidate_def)
    note ct = c [unfolded this]
    obtain u1 u2 q where u: "?t = u1 @ framework @ u2 @ x @ q" "list_all ws u1" "list_all ws u2" "u2 \<noteq> []"
      "word framework" "word x" "ends_word q"
      by (rule go_fields_two [OF at ct])
    have "line = (w1 @ u1) @ framework @ u2 @ x @ (q @ w2)" by (subst l(1), subst u(1)) simp
    moreover have "req_line blk (w1 @ u1) u2 x (q @ w2)"
      using True u l(2,3) by (simp add: req_line_def line_start_def ends_word_append)
    ultimately show thesis by (rule that)
  next
    case False
    have "?c \<noteq> []" using c(1) by (auto simp: go_fields.simps [of "[]"] trim_left.simps)
    with False have "prefix ''require '' ?t" by (simp add: require_candidate_def split: if_splits)
    then obtain r where r: "?t = ''require '' @ r" by (auto simp: prefix_def)
    with at have ar: "list_all ascii r" by simp
    from r False have cr: "?c = trim_space r" by (simp only: candidate_after_require)
    obtain v1 v2 where v: "r = v1 @ trim_space r @ v2" "list_all ws v1" "list_all ws v2"
      using trim_space_split [OF ar] by metis
    have at: "list_all ascii (trim_space r)" using v(1) ar by (metis list_all_append)
    note ct = c [unfolded cr]
    obtain u1 u2 q where u: "trim_space r = u1 @ framework @ u2 @ x @ q" "list_all ws u1" "list_all ws u2"
      "u2 \<noteq> []" "word framework" "word x" "ends_word q"
      by (rule go_fields_two [OF at ct])
    have "line = (w1 @ ''require '' @ v1 @ u1) @ framework @ u2 @ x @ (q @ v2 @ w2)"
      by (subst l(1), subst r, subst v(1), subst u(1)) simp
    moreover have "line_start blk (w1 @ ''require '' @ v1 @ u1)"
      using False l(2) v(2) u(2) unfolding line_start_def
      by simp (intro exI [of _ w1] exI [of _ "v1 @ u1"], simp)
    moreover from this have "req_line blk (w1 @ ''require '' @ v1 @ u1) u2 x (q @ v2 @ w2)"
      using u l(3) v(3) by (simp add: req_line_def ends_word_append)
    ultimately show thesis using that by blast
  qed
qed

lemma split_trailing:
  obtains a b where "q = a @ b" "list_all ws b" "a = [] \<or> \<not> ws (last a)"
proof -
  let ?a = "rev (dropWhile ws (rev q))" and ?b = "rev (takeWhile ws (rev q))"
  have "q = ?a @ ?b" by (metis rev_append rev_rev_ident takeWhile_dropWhile_id)
  moreover have "list_all ws ?b" by (auto simp: list_all_iff dest: set_takeWhileD)
  moreover have "?a = [] \<or> \<not> ws (last ?a)" using hd_dropWhile [of ws "rev q"] by (auto simp: last_rev)
  ultimately show thesis by (rule that)
qed

lemma line_class_of_req_line:
  assumes "list_all ascii (p @ framework @ w @ x @ q)" "req_line blk p w x q"
  shows "line_class blk (p @ framework @ w @ x @ q) = Requirement x"
proof -
  obtain a b where ab: "q = a @ b" "list_all ws b" "a = [] \<or> \<not> ws (last a)" by (rule split_trailing)
  have req: "w \<noteq> []" "list_all ws w" "word x" "ends_word a"
    using assms(2) ab(1) by (cases a; auto simp: req_line_def ends_word_def)+
  let ?c = "framework @ w @ x @ a"
  have asc: "list_all ascii ?c" using assms(1) ab(1) by simp
  have "go_fields ?c = framework # go_fields (w @ x @ a)"
    using go_fields_word [of "[]" framework "w @ x @ a"] asc framework_word(1) req(1,2)
    by (cases w) (auto simp: ends_word_def)
  also have "go_fields (w @ x @ a) = x # go_fields a"
    using asc req by (intro go_fields_word) simp_all
  finally have fs: "go_fields ?c = framework # x # go_fields a" .
  have end_x: "x \<noteq> []" "\<not> ws (last x)" using req(3) by (auto simp: word_def list_all_iff)
  have start: "framework \<noteq> []" "hd framework = CHR ''g''" by (simp_all add: framework_def)
  have tc: "trimmed ?c"
    using end_x ab(3) start ws_space by (cases "a = []") (auto simp: trimmed_def)
  show ?thesis
  proof (cases blk)
    case True
    have "trim_space (p @ ?c @ b) = ?c"
      using assms ab tc True by (intro trim_space_eq) (simp_all add: req_line_def line_start_def)
    then have t: "trim_space (p @ framework @ w @ x @ q) = ?c" by (simp add: ab(1))
    have "\<not> prefix ''require ('' ?c" "?c \<noteq> '')''" by (simp_all add: framework_def)
    with True t fs show ?thesis by (simp add: line_class_def require_candidate_def Let_def)
  next
    case False
    then obtain w1 w2 where p: "p = w1 @ ''require '' @ w2" "list_all ws w1" "list_all ws w2"
      using assms(2) by (auto simp: req_line_def line_start_def)
    have tl: "trimmed (''require '' @ w2 @ ?c)"
      using tc start ws_space by (auto simp: trimmed_def)
    have "trim_space (w1 @ (''require '' @ w2 @ ?c) @ b) = ''require '' @ w2 @ ?c"
      using assms(1) ab p tl by (intro trim_space_eq) simp_all
    then have t: "trim_space (p @ framework @ w @ x @ q) = ''require '' @ w2 @ ?c" by (simp add: ab(1) p(1))
    have "trim_space (w2 @ ?c @ []) = ?c"
      using assms(1) ab(1) p tc by (intro trim_space_eq) simp_all
    then have c: "require_candidate False (''require '' @ w2 @ ?c) = ?c"
      unfolding candidate_after_require by simp
    have "\<not> prefix ''require ('' (''require '' @ w2 @ ?c)"
      using p(3) start ws_space by (cases w2) (auto simp: framework_def)
    then show ?thesis
      using False fs unfolding line_class_def t Let_def by (simp add: c del: append_Cons)
  qed
qed

section \<open>Replacing the version\<close>

lemma replaceFrameworkRequirement_Inr:
  assumes "replaceFrameworkRequirement data v = Inr (cur, data')"
  obtains n out where "requirement_loop v (split_after LF data) False 0 [] [] = Inr (Suc n, cur, out)" "data' = concat out"
proof (cases "requirement_loop v (split_after LF data) False 0 [] []")
  case (Inr z)
  obtain n x out where "z = (n, x, out)" by (cases z)
  with assms Inr that show thesis by (cases n) (auto simp: replaceFrameworkRequirement_def)
qed (use assms in \<open>simp add: replaceFrameworkRequirement_def\<close>)

lemma replaceFrameworkRequirement_same:
  assumes "replaceFrameworkRequirement data v = Inr (cur, data')" "v = [] \<or> v = cur"
  shows "data' = data"
proof -
  obtain n out where run: "requirement_loop v (split_after LF data) False 0 [] [] = Inr (Suc n, cur, out)" "data' = concat out"
    using assms(1) by (rule replaceFrameworkRequirement_Inr)
  from run(1) assms(2) have "out = split_after LF data"
    unfolding requirement_loop_iff by (auto simp: new_line_def split: if_splits)
  with run(2) show ?thesis by simp
qed

lemma is_lines_ascii: "list_all ascii s \<Longrightarrow> l \<in> set (split_after sep s) \<Longrightarrow> list_all ascii l"
  using concat_split_after [of sep s] by (metis UN_I list_all_iff set_concat)

lemma replaceFrameworkRequirement_replaced:
  assumes "list_all ascii data" "word v" "list_all ascii v"
    and "replaceFrameworkRequirement data v = Inr (cur, data')"
  shows "(\<exists>a b. data = a @ cur @ b \<and> data' = a @ v @ b) \<and>
    (\<forall>u. u = [] \<or> u = v \<longrightarrow> replaceFrameworkRequirement data' u = Inr (v, data')) \<and>
    replaceFrameworkRequirement data' cur = Inr (v, data)"
proof -
  let ?ls = "split_after LF data"
  have vne: "v \<noteq> []" using assms(2) by (simp add: word_def)
  obtain n out where run: "requirement_loop v ?ls False 0 [] [] = Inr (Suc n, cur, out)" and d': "data' = concat out"
    using assms(4) by (rule replaceFrameworkRequirement_Inr)
  from run obtain l1 line l2 blk line' where ls: "?ls = l1 @ line # l2" and skip: "skip_lines False l1 = Some blk"
    "skip_lines blk l2 \<noteq> None" and cls: "line_class blk line = Requirement cur"
    and new: "new_line v cur line = Some line'" and out: "out = l1 @ line' # l2"
    unfolding requirement_loop_iff by auto
  have "list_all ascii line" using is_lines_ascii [OF assms(1), of line LF] ls by auto
  from this cls obtain p w q where line: "line = p @ framework @ w @ cur @ q" and req: "req_line blk p w cur q"
    by (rule line_class_Requirement)
  have line': "line' = p @ framework @ w @ v @ q"
    using new replace_version_line [OF req, of v] vne line by (auto simp: new_line_def split: if_splits)
  have req': "req_line blk p w v q" using req assms(2) by (simp add: req_line_def)
  have cls': "line_class blk line' = Requirement v"
    using \<open>list_all ascii line\<close> assms(3) req' unfolding line' line by (intro line_class_of_req_line) simp_all
  have "LF \<notin> set cur" "LF \<notin> set v" "cur \<noteq> []"
    using req assms(2) by (auto simp: req_line_def word_def list_all_iff ws_def)
  then have "is_lines LF (l1 @ line' # l2)"
    using is_lines_replace [of LF l1 "p @ framework @ w" cur q l2 v] is_lines_split_after [of LF data]
    unfolding ls line line' by simp
  then have ls': "split_after LF data' = l1 @ line' # l2" unfolding d' out by (rule split_after_concat)
  have restore: "new_line cur v line' = Some line"
    using replace_version_line [OF req', of cur] \<open>cur \<noteq> []\<close> unfolding line line' by (auto simp: new_line_def)
  have read: "requirement_loop u (split_after LF data') False 0 [] [] = Inr (Suc 0, v, l1 @ l # l2)"
    if "new_line u v line' = Some l" for u l
    unfolding requirement_loop_iff ls' using skip cls' that
    by (intro conjI exI [of _ l1] exI [of _ line'] exI [of _ l2] exI [of _ blk] exI [of _ l]) simp_all
  have data: "data = concat (l1 @ line # l2)" using concat_split_after [of LF data] ls by metis
  have "replaceFrameworkRequirement data' u = Inr (v, data')" if "u = [] \<or> u = v" for u
    using read [of u line'] that by (auto simp: replaceFrameworkRequirement_def new_line_def d' out)
  moreover have "replaceFrameworkRequirement data' cur = Inr (v, data)"
    using read [OF restore] by (simp add: replaceFrameworkRequirement_def data)
  moreover have "\<exists>a b. data = a @ cur @ b \<and> data' = a @ v @ b"
    by (intro exI [of _ "concat l1 @ p @ framework @ w"] exI [of _ "q @ concat l2"]) (simp add: data d' out line line')
  ultimately show ?thesis by blast
qed

text \<open>
  C24. Replacing the framework's version in an ASCII \<open>go.mod\<close> is reversible: the file changes in the
  version text of one place only, reading the new file gives the new version, and putting the old
  version back restores the file byte for byte.
\<close>

theorem replaceFrameworkRequirement_roundtrip:
  assumes "list_all ascii data" "word v" "list_all ascii v"
    and "replaceFrameworkRequirement data v = Inr (cur, data')"
  shows "(\<exists>a b. data = a @ cur @ b \<and> data' = a @ v @ b) \<and>
    replaceFrameworkRequirement data' [] = Inr (v, data') \<and>
    replaceFrameworkRequirement data' cur = Inr (v, data)"
  using replaceFrameworkRequirement_replaced [OF assms] by blast

definition demo_gomod :: "string \<Rightarrow> string" where
  "demo_gomod v = ''module m'' @ [LF] @ ''require ('' @ [LF] @ ''  github.com/bjarneo/wahoo '' @ v @ '' // x'' @ [LF] @ '')'' @ [LF]"

theorem replaceFrameworkRequirement_roundtrip_witness:
  "replaceFrameworkRequirement (demo_gomod ''v0.4.0'') ''v0.3.0'' = Inr (''v0.4.0'', demo_gomod ''v0.3.0'')"
proof -
  have "replaceFrameworkRequirement (demo_gomod ''v0.3.0'') ''v0.4.0'' = Inr (''v0.3.0'', demo_gomod ''v0.4.0'')"
    "list_all ascii (demo_gomod ''v0.3.0'')" "word ''v0.4.0''" "list_all ascii ''v0.4.0''"
    by code_simp+
  then show ?thesis
    using replaceFrameworkRequirement_roundtrip
      [of "demo_gomod ''v0.3.0''" "''v0.4.0''" "''v0.3.0''" "demo_gomod ''v0.4.0''"] by blast
qed

text \<open>Accepted versions are words of ASCII text.\<close>

definition version_text :: "string \<Rightarrow> bool" where
  "version_text a \<longleftrightarrow> list_all (\<lambda>c. version_char c \<or> c = CHR ''+'') a"

definition eaten :: "string \<Rightarrow> string \<Rightarrow> bool" where
  "eaten s r \<longleftrightarrow> (\<exists>a. s = a @ r \<and> version_text a)"

lemma version_text_append [simp]: "version_text (a @ b) \<longleftrightarrow> version_text a \<and> version_text b"
  by (simp add: version_text_def)

lemma eatenI: "s = a @ r \<Longrightarrow> version_text a \<Longrightarrow> eaten s r"
  by (auto simp: eaten_def)

lemma eaten_trans:
  assumes "eaten s r" "eaten r q"
  shows "eaten s q"
proof -
  from assms obtain a b where "s = a @ r" "version_text a" "r = b @ q" "version_text b" by (auto simp: eaten_def)
  then show ?thesis by (intro eatenI [of s "a @ b"]) simp_all
qed

lemma eaten_refl: "eaten s s"
  by (simp add: eaten_def version_text_def)

lemma eaten_Cons: "version_char c \<or> c = CHR ''+'' \<Longrightarrow> eaten r q \<Longrightarrow> eaten (c # r) q"
  using eaten_trans [of "c # r" r q] eatenI [of "c # r" "[c]" r] by (simp add: version_text_def)

lemma eaten_dropWhile:
  assumes "\<And>c. P c \<Longrightarrow> version_char c"
  shows "eaten s (dropWhile P s)"
  using assms by (intro eatenI [of _ "takeWhile P s"]) (auto simp: version_text_def list_all_iff dest: set_takeWhileD)

lemma eat_eaten:
  "eat_digits s = Some r \<Longrightarrow> eaten s r"
  "eat_char d s = Some r \<Longrightarrow> version_char d \<Longrightarrow> eaten s r"
  "eat_prerelease s = Some r \<Longrightarrow> eaten s r"
  "eat_build s = Some r \<Longrightarrow> eaten s r"
  using eaten_dropWhile [of is_digit s] eaten_refl
  by (auto simp: eat_digits_def eat_char_def eat_prerelease_def eat_build_def version_char_def alnum_def
      intro!: eaten_Cons eaten_dropWhile split: list.splits if_splits)

lemma version_char_word: "version_char c \<or> c = CHR ''+'' \<Longrightarrow> \<not> ws c \<and> ascii c"
  by (auto simp: version_char_def alnum_def is_digit_def outside_byte ws_def ascii_def byte_def)

lemma validFrameworkVersion_word:
  assumes "validFrameworkVersion v"
  shows "word v \<and> list_all ascii v"
proof -
  have vv: "version_char (CHR ''v'')" "version_char (CHR ''.'')"
    by (simp_all add: version_char_def alnum_def outside_byte byte_def)
  from assms obtain a b c d e f g where
    "eat_char (CHR ''v'') v = Some a" "eat_digits a = Some b" "eat_char (CHR ''.'') b = Some c" "eat_digits c = Some d"
    "eat_char (CHR ''.'') d = Some e" "eat_digits e = Some f" "eat_prerelease f = Some g" "eat_build g = Some []"
    by (auto simp: validFrameworkVersion_def Option.bind_eq_Some_conv)
  then have "eaten v []" and "v \<noteq> []"
    using vv by (meson eat_eaten eaten_trans, auto simp: eat_char_def)
  then show ?thesis
    using version_char_word by (auto simp: eaten_def version_text_def word_def list_all_iff)
qed

end
