(* ===== verification/Scaffold_Modules.thy ===== *)
theory Scaffold_Modules
  imports Framework_Requirement Go_Json
begin

text \<open>
  The pure part of \<open>internal/scaffold/scaffold.go\<close>: the optional modules and their table, the
  selection of modules, the project's name, the rendering of templates and the project metadata with
  its JSON text. The Unicode tables behind \<open>unicode.IsLetter\<close>, \<open>IsDigit\<close> and \<open>ToLower\<close> are
  parameters outside ASCII.
\<close>

section \<open>Modules\<close>

definition TAB :: char where "TAB = CHR 0x09"

definition FrameworkVersion_new :: string where "FrameworkVersion_new = ''v0.4.0''"

definition moduleMarker :: string where "moduleMarker = TAB # ''// wahoo:modules'' @ [LF]"

definition metadataFormatVersion :: int where "metadataFormatVersion = 1"
definition metadataPath :: string where "metadataPath = ''.wahoo/project.json''"
definition legacyManifestPath :: string where "legacyManifestPath = ''.wahoo/modules.json''"

record module_file =
  template :: string
  target_path :: string

record module_spec =
  files :: "module_file list"
  registration :: string
  description :: string

definition registration_line :: "string \<Rightarrow> string" where
  "registration_line f = TAB # f @ ''(runtime)'' @ [LF]"

definition moduleSpecs :: "(string \<times> module_spec) list" where
  "moduleSpecs = [
   (''auth'', \<lparr>files = [\<lparr>template = ''templates/modules/auth.go.tmpl'', target_path = ''app/auth.go''\<rparr>],
      registration = registration_line ''registerAuth'', description = ''account route stubs''\<rparr>),
   (''sse'', \<lparr>files = [\<lparr>template = ''templates/modules/sse.go.tmpl'', target_path = ''app/sse.go''\<rparr>],
      registration = registration_line ''registerSSE'', description = ''server-sent events''\<rparr>),
   (''websocket'', \<lparr>files = [\<lparr>template = ''templates/modules/websocket.go.tmpl'', target_path = ''app/websocket.go''\<rparr>],
      registration = registration_line ''registerWebSocket'', description = ''WebSocket endpoint''\<rparr>),
   (''openapi'', \<lparr>files = [\<lparr>template = ''templates/modules/openapi.go.tmpl'', target_path = ''app/openapi.go''\<rparr>,
        \<lparr>template = ''templates/modules/openapi.json.tmpl'', target_path = ''app/openapi.json''\<rparr>],
      registration = registration_line ''registerOpenAPI'', description = ''application-owned OpenAPI document''\<rparr>),
   (''jobs'', \<lparr>files = [\<lparr>template = ''templates/modules/jobs.go.tmpl'', target_path = ''app/jobs.go''\<rparr>,
        \<lparr>template = ''templates/modules/worker-main.go.tmpl'', target_path = ''cmd/worker/main.go''\<rparr>],
      registration = [], description = ''worker command and job seams''\<rparr>),
   (''uploads'', \<lparr>files = [\<lparr>template = ''templates/modules/uploads.go.tmpl'', target_path = ''app/uploads.go''\<rparr>],
      registration = registration_line ''registerUploads'', description = ''upload configuration stub''\<rparr>),
   (''mail'', \<lparr>files = [\<lparr>template = ''templates/modules/mail.go.tmpl'', target_path = ''app/mail.go''\<rparr>],
      registration = registration_line ''registerMail'', description = ''mail configuration stub''\<rparr>),
   (''audit'', \<lparr>files = [\<lparr>template = ''templates/modules/audit.go.tmpl'', target_path = ''app/audit.go''\<rparr>],
      registration = registration_line ''registerAudit'', description = ''audit configuration stub''\<rparr>),
   (''webhooks'', \<lparr>files = [\<lparr>template = ''templates/modules/webhooks.go.tmpl'', target_path = ''app/webhooks.go''\<rparr>],
      registration = registration_line ''registerWebhooks'', description = ''webhook configuration stub''\<rparr>),
   (''entitlements'', \<lparr>files = [\<lparr>template = ''templates/modules/entitlements.go.tmpl'', target_path = ''app/entitlements.go''\<rparr>],
      registration = registration_line ''registerEntitlements'', description = ''entitlement configuration stub''\<rparr>),
   (''billing'', \<lparr>files = [\<lparr>template = ''templates/modules/billing.go.tmpl'', target_path = ''app/billing.go''\<rparr>],
      registration = registration_line ''registerBilling'', description = ''billing configuration stub''\<rparr>)]"

definition Modules_all :: "string list" where
  "Modules_all = [''auth'', ''sse'', ''websocket'', ''openapi'', ''jobs'', ''uploads'', ''mail'', ''audit'',
     ''webhooks'', ''entitlements'', ''billing'']"

text \<open>The zero value of the specification for a missing module.\<close>

definition module_spec_of :: "string \<Rightarrow> module_spec" where
  "module_spec_of m = (case map_of moduleSpecs m of
       None \<Rightarrow> \<lparr>files = [], registration = [], description = []\<rparr> | Some spec \<Rightarrow> spec)"

definition known_module :: "string \<Rightarrow> bool" where
  "known_module m \<longleftrightarrow> map_of moduleSpecs m \<noteq> None"

fun contains :: "string list \<Rightarrow> string \<Rightarrow> bool" where
  "contains [] tgt = False"
| "contains (m # ms) tgt = (m = tgt \<or> contains ms tgt)"

fun parse_parts :: "string list \<Rightarrow> string list \<Rightarrow> string + string list" where
  "parse_parts [] modules = Inr modules"
| "parse_parts (part # parts) modules =
     (let m = trim_space part in
      if m = [] then parse_parts parts modules
      else if \<not> known_module m then Inl m
      else parse_parts parts (if \<not> contains modules m then modules @ [m] else modules))"

fun parse_values :: "string list \<Rightarrow> string list \<Rightarrow> string + string list" where
  "parse_values [] modules = Inr modules"
| "parse_values (v # vs) modules =
     (case parse_parts (split_byte (CHR '','') v) modules of
        Inl m \<Rightarrow> Inl m | Inr modules \<Rightarrow> parse_values vs modules)"

text \<open>The error carries the unknown module.\<close>

definition ParseModules :: "string list \<Rightarrow> string + string list" where
  "ParseModules values = parse_values values []"

section \<open>Project names\<close>

text \<open>A rune is given by its UTF-8 bytes.\<close>

record unicode_tables =
  letter_or_digit :: "string \<Rightarrow> bool"
  to_lower :: "string \<Rightarrow> string"

text \<open>The runes of a \<open>range\<close> loop; an invalid byte reads as U+FFFD.\<close>

definition rune_error :: string where "rune_error = [CHR 0xEF, CHR 0xBF, CHR 0xBD]"

function runes :: "string \<Rightarrow> string list" where
  "runes s = (if s = [] then []
     else (case utf8_width s of None \<Rightarrow> rune_error | Some w \<Rightarrow> take w s) # runes (drop (rune_width s) s))"
  by pat_completeness auto
termination by (relation "measure length") auto

declare runes.simps [simp del]

definition lower_rune :: "unicode_tables \<Rightarrow> string \<Rightarrow> string" where
  "lower_rune uni u = (case u of [c] \<Rightarrow> [lower_ascii c] | _ \<Rightarrow> to_lower uni u)"

definition ToLower :: "unicode_tables \<Rightarrow> string \<Rightarrow> string" where
  "ToLower uni s = concat (map (lower_rune uni) (runes s))"

definition is_letter_or_digit :: "unicode_tables \<Rightarrow> string \<Rightarrow> bool" where
  "is_letter_or_digit uni u = (case u of [c] \<Rightarrow> alnum c | _ \<Rightarrow> letter_or_digit uni u)"

fun name_loop :: "unicode_tables \<Rightarrow> string list \<Rightarrow> string \<Rightarrow> bool \<Rightarrow> string" where
  "name_loop uni [] out separator = out"
| "name_loop uni (u # us) out separator =
     (if is_letter_or_digit uni u then name_loop uni us (out @ u) False
      else if out \<noteq> [] \<and> \<not> separator then name_loop uni us (out @ ''-'') True
      else name_loop uni us out separator)"

text \<open>\<open>strings.Trim(s, "-")\<close>.\<close>

definition trim_dashes :: "string \<Rightarrow> string" where
  "trim_dashes s = rev (dropWhile (\<lambda>c. c = CHR ''-'') (rev (dropWhile (\<lambda>c. c = CHR ''-'') s)))"

definition ProjectName :: "unicode_tables \<Rightarrow> string \<Rightarrow> string" where
  "ProjectName uni name =
     (let name = trim_dashes (name_loop uni (runes (ToLower uni name)) [] False) in
      if name = [] then ''app'' else name)"

section \<open>Templates\<close>

definition moduleList :: "string list \<Rightarrow> string" where
  "moduleList modules =
     (if modules = [] then ''- Core only. Add optional modules with `wahoo add ./project <module>`.''
      else join_bytes [LF] (map (\<lambda>m. ''- `'' @ m @ ''`: '' @ description (module_spec_of m) @ ''.'') modules))"

definition renderTemplate :: "string \<Rightarrow> string \<Rightarrow> string \<Rightarrow> string \<Rightarrow> string list \<Rightarrow> string" where
  "renderTemplate data module appName replace modules =
     (let content = replace_all ''__MODULE__'' module data;
          content = replace_all ''__APP_NAME__'' appName content;
          content = replace_all ''__REPLACE_LINE__'' replace content;
          content = replace_all ''__MODULES__'' (moduleList modules) content;
          content = replace_all ''__FRAMEWORK_VERSION__'' FrameworkVersion_new content
      in content)"

section \<open>Project metadata\<close>

record manifest =
  FormatVersion :: int
  FrameworkVersion :: string
  Modules :: "string list"

text \<open>\<open>json.MarshalIndent(project, "", "  ")\<close> by the struct tags.\<close>

definition manifest_json :: "manifest \<Rightarrow> string" where
  "manifest_json p =
     ''{'' @ [LF] @
     ''  '' @ json_string ''format_version'' @ '': '' @ format_int (FormatVersion p) @ '','' @ [LF] @
     ''  '' @ json_string ''framework_version'' @ '': '' @ json_string (FrameworkVersion p) @ '','' @ [LF] @
     ''  '' @ json_string ''modules'' @ '': '' @
       (if Modules p = [] then ''[]''
        else ''['' @ [LF] @ join_bytes ('','' @ [LF]) (map (\<lambda>m. ''    '' @ json_string m) (Modules p)) @ [LF] @ ''  ]'') @ [LF] @
     ''}''"

section \<open>The selection of modules\<close>

lemma contains_iff [simp]: "contains ms m \<longleftrightarrow> m \<in> set ms"
  by (induction ms) auto

text \<open>The names a value lists, and the first occurrences in a list.\<close>

definition listed :: "string list \<Rightarrow> string list" where
  "listed vs = filter (\<lambda>m. m \<noteq> []) (map trim_space (concat (map (split_byte (CHR '','')) vs)))"

definition add_new :: "string list \<Rightarrow> string list \<Rightarrow> string list" where
  "add_new ms ns = ms @ rev (remdups (rev (filter (\<lambda>n. n \<notin> set ms) ns)))"

lemma add_new_Cons: "add_new ms (n # ns) = add_new (if n \<in> set ms then ms else ms @ [n]) ns"
proof (cases "n \<in> set ms")
  case False
  have "remdups (xs @ [n]) = filter (\<lambda>x. x \<noteq> n) (remdups xs) @ [n]" for xs :: "string list"
    by (induction xs) auto
  moreover have "filter (\<lambda>x. x \<noteq> n) (remdups (rev (filter (\<lambda>n. n \<notin> set ms) ns))) =
      remdups (rev (filter (\<lambda>k. k \<notin> set (ms @ [n])) ns))"
    by (simp add: remdups_filter [symmetric] rev_filter [symmetric] filter_filter conj_commute)
  ultimately show ?thesis using False by (simp add: add_new_def rev_filter)
qed (simp add: add_new_def)

lemma add_new_Nil: "add_new ms [] = ms"
  by (simp add: add_new_def)

lemma parse_parts_spec:
  "parse_parts parts ms =
     (case filter (\<lambda>m. m \<noteq> [] \<and> \<not> known_module m) (map trim_space parts) of
        m # _ \<Rightarrow> Inl m
      | [] \<Rightarrow> Inr (add_new ms (filter (\<lambda>m. m \<noteq> []) (map trim_space parts))))"
  by (induction parts arbitrary: ms) (auto simp: Let_def add_new_Cons add_new_Nil split: list.splits)

lemma add_new_append: "add_new ms (xs @ ys) = add_new (add_new ms xs) ys"
proof (induction xs arbitrary: ms)
  case (Cons x xs)
  then show ?case by (simp add: add_new_Cons)
qed (simp add: add_new_def)

lemma parse_values_spec:
  "parse_values vs ms =
     (case filter (\<lambda>m. \<not> known_module m) (listed vs) of
        m # _ \<Rightarrow> Inl m
      | [] \<Rightarrow> Inr (add_new ms (listed vs)))"
proof (induction vs arbitrary: ms)
  case (Cons v vs)
  let ?ps = "split_byte (CHR '','') v"
  have l: "listed (v # vs) = filter (\<lambda>m. m \<noteq> []) (map trim_space ?ps) @ listed vs"
    by (simp add: listed_def)
  show ?case
    unfolding l using Cons
    by (auto simp: parse_parts_spec add_new_append filter_filter conj_commute split: list.splits)
qed (simp add: listed_def add_new_Nil)

definition plain_name :: "string \<Rightarrow> bool" where
  "plain_name m \<longleftrightarrow> list_all graphic m \<and> m \<noteq> [] \<and> CHR '','' \<notin> set m"

lemma known_plain: "known_module m \<Longrightarrow> plain_name m"
proof -
  have "list_all plain_name (map fst moduleSpecs)" by code_simp
  moreover have "known_module m \<longleftrightarrow> m \<in> set (map fst moduleSpecs)"
    by (simp add: known_module_def map_of_eq_None_iff)
  ultimately show "known_module m \<Longrightarrow> plain_name m" unfolding list_all_iff by blast
qed

lemma trim_space_known: "known_module m \<Longrightarrow> trim_space m = m \<and> m \<noteq> [] \<and> CHR '','' \<notin> set m"
  using known_plain [of m] by (simp add: plain_name_def)

lemma listed_known: "list_all known_module ms \<Longrightarrow> listed ms = ms"
  by (induction ms) (auto simp: listed_def trim_space_known)

lemma ParseModules_eq:
  "ParseModules us = (case filter (\<lambda>m. \<not> known_module m) (listed us) of
       m # _ \<Rightarrow> Inl m | [] \<Rightarrow> Inr (rev (remdups (rev (listed us)))))"
proof -
  have "add_new [] ns = rev (remdups (rev ns))" for ns by (simp add: add_new_def)
  then show ?thesis unfolding ParseModules_def parse_values_spec by (simp split: list.split)
qed

lemma ParseModules_Inr: "ParseModules vs = Inr ms \<Longrightarrow> distinct ms \<and> list_all known_module ms"
  unfolding ParseModules_eq by (auto simp: list_all_iff filter_empty_conv split: list.splits)

lemma ParseModules_known: "distinct ms \<Longrightarrow> list_all known_module ms \<Longrightarrow> ParseModules ms = Inr ms"
proof -
  assume ms: "distinct ms" "list_all known_module ms"
  then have "filter (\<lambda>m. \<not> known_module m) ms = []" by (auto simp: filter_empty_conv list_all_iff)
  with ms show ?thesis by (simp add: ParseModules_eq listed_known distinct_remdups_id)
qed

text \<open>
  The selection of modules: \<open>ParseModules\<close> takes the names between commas, without surrounding
  white space and empty ones; it fails with the first name that is no module of the table and
  otherwise gives each name once, in the order of first appearance; giving its result to it again
  changes nothing.
\<close>

theorem ParseModules_spec:
  "ParseModules vs = (case filter (\<lambda>m. \<not> known_module m) (listed vs) of
       m # _ \<Rightarrow> Inl m
     | [] \<Rightarrow> Inr (rev (remdups (rev (listed vs))))) \<and>
   (case ParseModules vs of
       Inl m \<Rightarrow> m \<in> set (listed vs) \<and> \<not> known_module m
     | Inr ms \<Rightarrow> distinct ms \<and> set ms = set (listed vs) \<and> list_all known_module ms \<and> ParseModules ms = Inr ms)"
proof -
  note spec = ParseModules_eq
  show ?thesis
  proof (cases "filter (\<lambda>m. \<not> known_module m) (listed vs)")
    case Nil
    let ?ms = "rev (remdups (rev (listed vs)))"
    have known: "list_all known_module ?ms" using Nil by (auto simp: filter_empty_conv list_all_iff)
    then have "filter (\<lambda>m. \<not> known_module m) (listed ?ms) = []" "listed ?ms = ?ms"
      by (simp_all add: listed_known) (auto simp: filter_empty_conv list_all_iff)
    then have "ParseModules ?ms = Inr ?ms" by (simp add: spec [of ?ms] distinct_remdups_id)
    with Nil known show ?thesis by (simp add: spec [of vs])
  next
    case (Cons m ms)
    have "m \<in> set (listed vs) \<and> \<not> known_module m" using arg_cong [OF Cons, of set] by auto
    with Cons show ?thesis by (simp add: spec [of vs])
  qed
qed

section \<open>Project names\<close>

definition name_char :: "char \<Rightarrow> bool" where
  "name_char c \<longleftrightarrow> is_digit c \<or> \<not> outside (CHR ''a'') (CHR ''z'') c"

lemma runes_ascii: "list_all ascii s \<Longrightarrow> runes s = map (\<lambda>c. [c]) s"
  by (induction s) (simp_all add: runes.simps)

lemma lower_ascii_cases: "ascii c \<Longrightarrow> ascii (lower_ascii c) \<and> (alnum (lower_ascii c) \<longrightarrow> name_char (lower_ascii c))"
  unfolding lower_ascii_def alnum_def name_char_def is_digit_def outside_byte ascii_def
  by (simp add: byte_def)

text \<open>The loop for runes of one byte, a character each.\<close>

fun byte_name :: "string \<Rightarrow> string \<Rightarrow> bool \<Rightarrow> string" where
  "byte_name [] out separator = out"
| "byte_name (c # r) out separator =
     (if alnum c then byte_name r (out @ [c]) False
      else if out \<noteq> [] \<and> \<not> separator then byte_name r (out @ ''-'') True
      else byte_name r out separator)"

lemma name_loop_bytes: "name_loop uni (map (\<lambda>c. [c]) s) out sep = byte_name s out sep"
  by (induction s arbitrary: out sep) (simp_all add: is_letter_or_digit_def)

text \<open>Names made of lower-case letters and digits, with single dashes between them.\<close>

definition dashed :: "string \<Rightarrow> bool \<Rightarrow> bool" where
  "dashed out sep \<longleftrightarrow> list_all (\<lambda>c. name_char c \<or> c = CHR ''-'') out \<and> (\<forall>a b. out \<noteq> a @ ''--'' @ b) \<and>
     (out \<noteq> [] \<longrightarrow> hd out \<noteq> CHR ''-'') \<and> (out \<noteq> [] \<longrightarrow> (last out = CHR ''-'') = sep)"

lemma name_char_not_dash: "name_char c \<Longrightarrow> c \<noteq> CHR ''-''"
  by (auto simp: name_char_def is_digit_def outside_byte byte_def)

lemma dashed_snoc:
  assumes "dashed out sep" "name_char c \<or> c = CHR ''-'' \<and> out \<noteq> [] \<and> \<not> sep"
  shows "dashed (out @ [c]) (c = CHR ''-'')"
proof -
  have "out @ [c] \<noteq> a @ ''--'' @ b" for a b
  proof
    assume eq: "out @ [c] = a @ ''--'' @ b"
    show False
    proof (cases b rule: rev_cases)
      case Nil
      with eq have "c = CHR ''-''" "out = a @ ''-''" by simp_all
      with assms show False by (auto simp: dashed_def dest: name_char_not_dash)
    next
      case (snoc b' d)
      with eq have "out = a @ ''--'' @ b'" by simp
      with assms(1) show False unfolding dashed_def by blast
    qed
  qed
  with assms show ?thesis by (auto simp: dashed_def hd_append dest: name_char_not_dash)
qed

lemma byte_name_dashed:
  assumes "dashed out sep" "list_all (\<lambda>c. alnum c \<longrightarrow> name_char c) s"
  shows "\<exists>sep'. dashed (byte_name s out sep) sep'"
  using assms
proof (induction s out sep rule: byte_name.induct)
  case (2 c r out sep)
  show ?case
  proof (cases "alnum c")
    case True
    with 2 dashed_snoc [of out sep c] name_char_not_dash [of c] show ?thesis by auto
  next
    case False
    with 2 dashed_snoc [of out sep "CHR ''-''"] show ?thesis by auto
  qed
qed auto

lemma dropWhile_hd: "s = [] \<or> \<not> P (hd s) \<Longrightarrow> dropWhile P s = s"
  by (cases s) auto

lemma trim_dashes_dashed:
  assumes "dashed out sep"
  shows "dashed (trim_dashes out) False"
proof (cases out rule: rev_cases)
  case (snoc p c)
  have d: "dropWhile (\<lambda>c. c = CHR ''-'') out = out" using assms by (intro dropWhile_hd) (auto simp: dashed_def)
  show ?thesis
  proof (cases "c = CHR ''-''")
    case True
    have "p \<noteq> []" using assms snoc True by (auto simp: dashed_def)
    then obtain q e where p: "p = q @ [e]" by (metis rev_exhaust)
    have "e \<noteq> CHR ''-''"
    proof
      assume "e = CHR ''-''"
      then have "out = q @ ''--'' @ []" using snoc p True by simp
      with assms show False unfolding dashed_def by blast
    qed
    then have t: "trim_dashes out = p" using d snoc p True by (simp add: trim_dashes_def)
    have "p \<noteq> a @ ''--'' @ b" for a b
    proof
      assume "p = a @ ''--'' @ b"
      then have "out = a @ ''--'' @ (b @ [c])" using snoc by simp
      with assms show False unfolding dashed_def by blast
    qed
    with assms snoc p \<open>e \<noteq> CHR ''-''\<close> show ?thesis unfolding t by (auto simp: dashed_def hd_append)
  next
    case False
    then have "trim_dashes out = out" using d snoc by (simp add: trim_dashes_def)
    with assms snoc False show ?thesis by (auto simp: dashed_def)
  qed
qed (simp add: trim_dashes_def dashed_def)

lemma byte_name_id:
  "dashed (out @ s) b \<Longrightarrow> sep = (out \<noteq> [] \<and> last out = CHR ''-'') \<Longrightarrow> byte_name s out sep = out @ s"
proof (induction s arbitrary: out sep)
  case (Cons c r)
  have d: "dashed ((out @ [c]) @ r) b" using Cons.prems(1) by simp
  consider "name_char c" | "c = CHR ''-''" using Cons.prems(1) by (auto simp: dashed_def)
  then show ?case
  proof cases
    case 1
    then have "alnum c" "c \<noteq> CHR ''-''" using name_char_not_dash [OF 1] by (auto simp: name_char_def alnum_def)
    with Cons.IH [OF d, of False] show ?thesis by simp
  next
    case 2
    have "out \<noteq> []" using Cons.prems(1) 2 by (auto simp: dashed_def)
    moreover have "last out \<noteq> CHR ''-''"
    proof
      assume "last out = CHR ''-''"
      then have "out @ c # r = butlast out @ ''--'' @ r" using \<open>out \<noteq> []\<close> 2 append_butlast_last_id [of out] by simp
      with Cons.prems(1) show False unfolding dashed_def by blast
    qed
    moreover have "\<not> alnum (CHR ''-'')" by (simp add: alnum_def is_digit_def outside_byte byte_def)
    ultimately show ?thesis using Cons.IH [OF d, of True] Cons.prems(2) 2 by simp
  qed
qed simp

lemma name_char_lower: "name_char c \<or> c = CHR ''-'' \<Longrightarrow> ascii c \<and> lower_ascii c = c"
  by (auto simp: name_char_def is_digit_def lower_ascii_def outside_byte ascii_def byte_def)

lemma ToLower_ascii: "list_all ascii s \<Longrightarrow> ToLower uni s = map lower_ascii s"
  by (simp add: ToLower_def runes_ascii lower_rune_def comp_def)

lemma ProjectName_ascii:
  assumes "list_all ascii name"
  shows "ProjectName uni name =
    (let n = trim_dashes (byte_name (map lower_ascii name) [] False) in if n = [] then ''app'' else n)"
proof -
  have "list_all ascii (map lower_ascii name)"
    using assms lower_ascii_cases by (auto simp: list_all_iff)
  with assms show ?thesis by (simp add: ProjectName_def ToLower_ascii runes_ascii name_loop_bytes del: list.map_comp map_map)
qed

text \<open>
  C40. From any ASCII directory name \<open>ProjectName\<close> makes a safe identifier: nonempty, only lower-case
  letters, digits and single dashes, no dash at either end; and it leaves its own results alone.
\<close>

theorem ProjectName_safe:
  assumes "list_all ascii name"
  shows "let n = ProjectName uni name in
    n \<noteq> [] \<and> list_all (\<lambda>c. name_char c \<or> c = CHR ''-'') n \<and> hd n \<noteq> CHR ''-'' \<and> last n \<noteq> CHR ''-'' \<and>
    \<not> contains_sub n ''--'' \<and> ProjectName uni n = n"
proof -
  let ?n = "ProjectName uni name"
  have "list_all (\<lambda>c. alnum c \<longrightarrow> name_char c) (map lower_ascii name)"
    using assms lower_ascii_cases by (auto simp: list_all_iff)
  moreover have "dashed [] False" by (simp add: dashed_def)
  ultimately have "dashed (trim_dashes (byte_name (map lower_ascii name) [] False)) False"
    using byte_name_dashed trim_dashes_dashed by blast
  moreover have "dashed ''app'' False"
    by (simp add: dashed_def name_char_def is_digit_def outside_byte byte_def Cons_eq_append_conv)
  ultimately have d: "dashed ?n False" and ne: "?n \<noteq> []"
    using assms by (simp_all add: ProjectName_ascii Let_def)
  have "\<forall>c \<in> set ?n. name_char c \<or> c = CHR ''-''" using d by (simp add: dashed_def list_all_iff)
  then have "\<forall>c \<in> set ?n. ascii c \<and> lower_ascii c = c" using name_char_lower by blast
  then have low: "list_all ascii ?n" "map lower_ascii ?n = ?n" by (simp_all add: list_all_iff map_idI)
  have "byte_name ?n [] False = ?n" using byte_name_id [of "[]" ?n False False] d by simp
  moreover have "trim_dashes ?n = ?n"
  proof -
    have "dropWhile (\<lambda>c. c = CHR ''-'') ?n = ?n" "dropWhile (\<lambda>c. c = CHR ''-'') (rev ?n) = rev ?n"
      using d ne by (intro dropWhile_hd; simp add: dashed_def hd_rev)+
    then show ?thesis by (simp add: trim_dashes_def)
  qed
  ultimately have "ProjectName uni ?n = ?n" using ProjectName_ascii [OF low(1), of uni] low(2) ne by simp
  with d ne show ?thesis by (auto simp: dashed_def contains_sub_iff Let_def)
qed

theorem ProjectName_safe_witness:
  "ProjectName \<lparr>letter_or_digit = (\<lambda>_. False), to_lower = (\<lambda>u. u)\<rparr> ''my-app-2'' = ''my-app-2''"
proof -
  let ?uni = "\<lparr>letter_or_digit = (\<lambda>_. False), to_lower = (\<lambda>u. u)\<rparr>"
  have a: "list_all ascii ''My App (2)''" by code_simp
  have "byte_name (map lower_ascii ''My App (2)'') [] False = ''my-app-2-''" "trim_dashes ''my-app-2-'' = ''my-app-2''"
    by code_simp+
  then have "ProjectName ?uni ''My App (2)'' = ''my-app-2''"
    unfolding ProjectName_ascii [OF a] by (simp del: list.map)
  then show ?thesis
    using ProjectName_safe [OF a, of ?uni] by (simp add: Let_def)
qed

end
