(* ===== verification/Scaffold.thy ===== *)
theory Scaffold
  imports Project_Files Scaffold_Modules
begin

text \<open>
  \<open>internal/scaffold/scaffold.go\<close>: \<open>Create\<close>, \<open>Add\<close> and \<open>Upgrade\<close> over the project directory of
  \<open>Project_Files\<close>. The embedded templates (path and text, in the order of \<open>fs.WalkDir\<close>) and
  \<open>json.Unmarshal\<close> into the metadata are parameters.
\<close>

section \<open>The generator\<close>

record generator =
  gen_os :: os
  templates :: "(string \<times> string) list"
  unmarshal :: "string \<Rightarrow> string + manifest"
  unicode :: unicode_tables

datatype scaffold_error = UnknownModule string | NoModule | InspectDirectory errno | DirectorySymlink
  | DirectoryNotEmpty | CreateDirectory errno | OpenProject errno
  | InspectManaged string errno | ManagedSymlink string
  | ReadMetadata errno | ReadLegacy errno | NotAProject | DecodeMetadata string | UnsupportedFormat int | InvalidManifest string
  | CreateMetadataDir errno | WriteMetadata errno
  | ReadRoutes errno | NoMarker | ReadGoMod errno | NoModulePath | GoMod gomod_error
  | TargetExists string string | InspectTarget string errno
  | ReadTemplate string | CreateModuleDir string errno | WriteModule string errno | WriteRoutes errno
  | CreateParent string errno | WriteTemplate string errno
  | InvalidVersion string | WriteGoMod errno

type_synonym 'a scaffold = "(scaffold_error, 'a) io"

definition io_lift :: "scaffold_error + 'a \<Rightarrow> 'a scaffold" where
  "io_lift r d = (r, d)"

text \<open>The checks in front of \<open>Add\<close> and \<open>Upgrade\<close>.\<close>

definition open_project :: "generator \<Rightarrow> unit scaffold" where
  "open_project gen =
     io_bind (io_wrap InspectDirectory (LstatRoot (gen_os gen))) (\<lambda>kind.
     if kind = RootSymlink then io_fail DirectorySymlink
     else io_wrap OpenProject (OpenRoot (gen_os gen)))"

fun rejectManagedSymlinks :: "os \<Rightarrow> string list \<Rightarrow> unit scaffold" where
  "rejectManagedSymlinks os [] d = (Inr (), d)"
| "rejectManagedSymlinks os (p # ps) d =
     (case Lstat os p d of
        (Inl e, d) \<Rightarrow> if e = ENOENT then rejectManagedSymlinks os ps d else (Inl (InspectManaged p e), d)
      | (Inr n, d) \<Rightarrow> if is_symlink (Some n) then (Inl (ManagedSymlink p), d) else rejectManagedSymlinks os ps d)"

fun reject_parts :: "os \<Rightarrow> string \<Rightarrow> string list \<Rightarrow> unit scaffold" where
  "reject_parts os p [] d = (Inr (), d)"
| "reject_parts os p (part # parts) d =
     (let p = (if p = [] then part else p @ ''/'' @ part) in
      case Lstat os p d of
        (Inl e, d) \<Rightarrow> if e = ENOENT then reject_parts os p parts d else (Inl (InspectManaged p e), d)
      | (Inr n, d) \<Rightarrow> if is_symlink (Some n) then (Inl (ManagedSymlink p), d) else reject_parts os p parts d)"

definition rejectTargetSymlinks :: "os \<Rightarrow> string \<Rightarrow> unit scaffold" where
  "rejectTargetSymlinks os tgt = reject_parts os [] (segments tgt)"

section \<open>Metadata\<close>

definition decode_manifest :: "generator \<Rightarrow> string \<Rightarrow> scaffold_error + manifest" where
  "decode_manifest gen data =
     (case unmarshal gen data of
        Inl e \<Rightarrow> Inl (DecodeMetadata e)
      | Inr project \<Rightarrow>
          if FormatVersion project \<noteq> 0 \<and> FormatVersion project \<noteq> metadataFormatVersion
          then Inl (UnsupportedFormat (FormatVersion project))
          else case ParseModules (Modules project) of
            Inl m \<Rightarrow> Inl (InvalidManifest m)
          | Inr modules \<Rightarrow> Inr (project\<lparr>Modules := modules\<rparr>))"

definition readManifest :: "generator \<Rightarrow> manifest scaffold" where
  "readManifest gen d =
     (case ReadFile (gen_os gen) metadataPath d of
        (Inr data, d) \<Rightarrow> (decode_manifest gen data, d)
      | (Inl e, d) \<Rightarrow>
          if e \<noteq> ENOENT then (Inl (ReadMetadata e), d)
          else (case ReadFile (gen_os gen) legacyManifestPath d of
              (Inr data, d) \<Rightarrow> (decode_manifest gen data, d)
            | (Inl e, d) \<Rightarrow> if e = ENOENT then (Inl NotAProject, d) else (Inl (ReadLegacy e), d)))"

definition writeManifest :: "generator \<Rightarrow> manifest \<Rightarrow> unit scaffold" where
  "writeManifest gen project =
     (let project = project\<lparr>FormatVersion := metadataFormatVersion\<rparr> in
      io_bind (io_wrap CreateMetadataDir (MkdirAll (gen_os gen) ''.wahoo'')) (\<lambda>_.
      io_wrap WriteMetadata (writeAtomic (gen_os gen) metadataPath (manifest_json project @ [LF]))))"

definition frameworkDependencyVersion :: "generator \<Rightarrow> string scaffold" where
  "frameworkDependencyVersion gen =
     io_bind (io_wrap ReadGoMod (ReadFile (gen_os gen) ''go.mod'')) (\<lambda>data.
     io_lift (case replaceFrameworkRequirement data [] of
        Inl e \<Rightarrow> Inl (GoMod e) | Inr (version, _) \<Rightarrow> Inr version))"

definition projectModulePath :: "generator \<Rightarrow> string scaffold" where
  "projectModulePath gen =
     io_bind (io_wrap ReadGoMod (ReadFile (gen_os gen) ''go.mod'')) (\<lambda>data.
     io_lift (case module_path data of None \<Rightarrow> Inl NoModulePath | Some p \<Rightarrow> Inr p))"

section \<open>Adding modules\<close>

fun check_targets :: "os \<Rightarrow> string \<Rightarrow> module_file list \<Rightarrow> unit scaffold" where
  "check_targets os m [] d = (Inr (), d)"
| "check_targets os m (f # fs) d =
     (case rejectTargetSymlinks os (target_path f) d of
        (Inl e, d) \<Rightarrow> (Inl e, d)
      | (Inr _, d) \<Rightarrow>
          (case Lstat os (target_path f) d of
             (Inr n, d) \<Rightarrow>
               if is_symlink (Some n) then (Inl (ManagedSymlink (target_path f)), d)
               else (Inl (TargetExists m (target_path f)), d)
           | (Inl e, d) \<Rightarrow> if e \<noteq> ENOENT then (Inl (InspectTarget m e), d) else check_targets os m fs d))"

fun plan_additions :: "os \<Rightarrow> string list \<Rightarrow> string list \<Rightarrow> string list \<Rightarrow> string list scaffold" where
  "plan_additions os present [] additions d = (Inr additions, d)"
| "plan_additions os present (m # ms) additions d =
     (if contains present m then plan_additions os present ms additions d
      else case check_targets os m (files (module_spec_of m)) d of
        (Inl e, d) \<Rightarrow> (Inl e, d)
      | (Inr _, d) \<Rightarrow> plan_additions os present ms (additions @ [m]) d)"

text \<open>\<open>filepath.Dir\<close> of a relative path with slashes.\<close>

definition dir_of :: "string \<Rightarrow> string" where
  "dir_of p = (if butlast (segments p) = [] then ''.'' else join_bytes ''/'' (butlast (segments p)))"

fun install_files :: "generator \<Rightarrow> string \<Rightarrow> string \<Rightarrow> string \<Rightarrow> module_file list \<Rightarrow> unit scaffold" where
  "install_files gen modulePath appName m [] = io_return ()"
| "install_files gen modulePath appName m (f # fs) =
     (case map_of (templates gen) (template f) of
        None \<Rightarrow> io_fail (ReadTemplate m)
      | Some data \<Rightarrow>
          io_bind (io_wrap (CreateModuleDir m) (MkdirAll (gen_os gen) (dir_of (target_path f)))) (\<lambda>_.
          io_bind (io_wrap (WriteModule m)
            (writeNewFile (gen_os gen) (target_path f) (renderTemplate data modulePath appName [] []))) (\<lambda>_.
          install_files gen modulePath appName m fs)))"

text \<open>The loop's variables: the routes, whether they have changed, and the metadata.\<close>

definition register_module :: "string \<Rightarrow> string \<times> bool \<times> manifest \<Rightarrow> string \<times> bool \<times> manifest" where
  "register_module m st =
     (case st of (routes, changed, project) \<Rightarrow>
        let reg = registration (module_spec_of m);
            (routes, changed) = (if reg \<noteq> [] then (replace_first moduleMarker (reg @ moduleMarker) routes, True)
                                 else (routes, changed))
        in (routes, changed, project\<lparr>Modules := Modules project @ [m]\<rparr>))"

fun install :: "generator \<Rightarrow> string \<Rightarrow> string \<Rightarrow> string list \<Rightarrow> string \<times> bool \<times> manifest \<Rightarrow>
    (string \<times> bool \<times> manifest) scaffold" where
  "install gen modulePath appName [] st = io_return st"
| "install gen modulePath appName (m # ms) st =
     io_bind (install_files gen modulePath appName m (files (module_spec_of m))) (\<lambda>_.
     install gen modulePath appName ms (register_module m st))"

definition routesPath :: string where "routesPath = ''app/routes.go''"

definition managed_paths :: "string list" where
  "managed_paths = [''app'', ''.wahoo'', routesPath, metadataPath, legacyManifestPath, ''go.mod'']"

text \<open>
  \<open>Add\<close> in two parts: what is read and checked, with the metadata, the routes, the module path and the
  modules to add; and the writing. \<open>base\<close> is the last element of the directory's path.
\<close>

definition add_plan :: "generator \<Rightarrow> string list \<Rightarrow> (manifest \<times> string \<times> string \<times> string list) scaffold" where
  "add_plan gen values =
     io_bind (io_lift (case ParseModules values of Inl m \<Rightarrow> Inl (UnknownModule m) | Inr ms \<Rightarrow> Inr ms)) (\<lambda>modules.
     if modules = [] then io_fail NoModule
     else
       io_bind (open_project gen) (\<lambda>_.
       io_bind (rejectManagedSymlinks (gen_os gen) managed_paths) (\<lambda>_.
       io_bind (readManifest gen) (\<lambda>project.
       io_bind (io_wrap ReadRoutes (ReadFile (gen_os gen) routesPath)) (\<lambda>routes.
       if \<not> contains_sub routes moduleMarker then io_fail NoMarker
       else
         io_bind (projectModulePath gen) (\<lambda>modulePath.
         io_bind (plan_additions (gen_os gen) (Modules project) modules []) (\<lambda>additions.
         io_return (project, routes, modulePath, additions))))))))"

definition add_write :: "generator \<Rightarrow> string \<Rightarrow> manifest \<Rightarrow> string \<Rightarrow> string \<Rightarrow> string list \<Rightarrow> unit scaffold" where
  "add_write gen base project routes modulePath additions =
     (if additions = [] then io_return ()
      else
        io_bind (install gen modulePath (ProjectName (unicode gen) base) additions (routes, False, project))
          (\<lambda>(routes, changed, project).
        io_bind (if changed then io_wrap WriteRoutes (writeAtomic (gen_os gen) routesPath routes) else io_return ()) (\<lambda>_.
        io_bind (frameworkDependencyVersion gen) (\<lambda>frameworkVersion.
        writeManifest gen (project\<lparr>FrameworkVersion := frameworkVersion\<rparr>)))))"

definition Add :: "generator \<Rightarrow> string \<Rightarrow> string list \<Rightarrow> unit scaffold" where
  "Add gen base values =
     io_bind (add_plan gen values) (\<lambda>(project, routes, modulePath, additions).
     add_write gen base project routes modulePath additions)"

section \<open>Creating a project\<close>

fun write_templates :: "generator \<Rightarrow> string \<Rightarrow> string \<Rightarrow> string \<Rightarrow> string list \<Rightarrow> (string \<times> string) list \<Rightarrow> unit scaffold" where
  "write_templates gen module appName replace modules [] = io_return ()"
| "write_templates gen module appName replace modules ((p, data) # rest) =
     (let relative = trim_prefix ''templates/'' p in
      if prefix ''modules/'' relative then write_templates gen module appName replace modules rest
      else
        let relative = (if suffix ''.tmpl'' relative then trim_suffix ''.tmpl'' relative else relative);
            parent = dir_of relative in
        io_bind (if parent \<noteq> ''.'' then io_wrap (CreateParent parent) (MkdirAll (gen_os gen) parent) else io_return ()) (\<lambda>_.
        io_bind (io_wrap (WriteTemplate relative)
          (writeNewFile (gen_os gen) relative (renderTemplate data module appName replace modules))) (\<lambda>_.
        write_templates gen module appName replace modules rest)))"

text \<open>What \<open>Create\<close> requires of the directory: nothing there yet, or an empty directory.\<close>

definition check_new_directory :: "generator \<Rightarrow> unit scaffold" where
  "check_new_directory gen d =
     (case LstatRoot (gen_os gen) d of
        (Inl e, d) \<Rightarrow> if e = ENOENT then (Inr (), d) else (Inl (InspectDirectory e), d)
      | (Inr kind, d) \<Rightarrow>
          if kind = RootSymlink then (Inl DirectorySymlink, d)
          else (case ReadRootDir (gen_os gen) d of
              (Inl e, d) \<Rightarrow> (Inl (InspectDirectory e), d)
            | (Inr entries, d) \<Rightarrow> if entries \<noteq> [] then (Inl DirectoryNotEmpty, d) else (Inr (), d)))"

definition Create :: "generator \<Rightarrow> string \<Rightarrow> string \<Rightarrow> string \<Rightarrow> string list \<Rightarrow> unit scaffold" where
  "Create gen base module frameworkPath values =
     io_bind (io_lift (case ParseModules values of Inl m \<Rightarrow> Inl (UnknownModule m) | Inr ms \<Rightarrow> Inr ms)) (\<lambda>modules.
     io_bind (check_new_directory gen) (\<lambda>_.
     io_bind (io_wrap CreateDirectory (MkdirAllRoot (gen_os gen))) (\<lambda>_.
     io_bind (io_wrap OpenProject (OpenRoot (gen_os gen))) (\<lambda>_.
     let replace = (if frameworkPath \<noteq> [] then ''replace github.com/bjarneo/wahoo => '' @ frameworkPath else []) in
     io_bind (write_templates gen module (ProjectName (unicode gen) base) replace modules (templates gen)) (\<lambda>_.
     io_bind (writeManifest gen \<lparr>FormatVersion = 0, FrameworkVersion = FrameworkVersion_new, Modules = []\<rparr>) (\<lambda>_.
     if modules = [] then io_return () else Add gen base modules))))))"

section \<open>Upgrading a project\<close>

record upgrade_result =
  From :: string
  To :: string
  Changed :: bool

text \<open>
  \<open>Upgrade\<close> in two parts: what is read and checked, with the metadata, the current version and the new
  text of \<open>go.mod\<close>; and what is then reported or written.
\<close>

definition upgrade_plan :: "generator \<Rightarrow> string \<Rightarrow> (manifest \<times> string \<times> string) scaffold" where
  "upgrade_plan gen version =
     (if \<not> validFrameworkVersion version then io_fail (InvalidVersion version)
      else
        io_bind (open_project gen) (\<lambda>_.
        io_bind (rejectManagedSymlinks (gen_os gen) [''.wahoo'', metadataPath, legacyManifestPath, ''go.mod'']) (\<lambda>_.
        io_bind (readManifest gen) (\<lambda>project.
        io_bind (io_wrap ReadGoMod (ReadFile (gen_os gen) ''go.mod'')) (\<lambda>goMod.
        io_lift (case replaceFrameworkRequirement goMod version of
            Inl e \<Rightarrow> Inl (GoMod e) | Inr (current, updatedGoMod) \<Rightarrow> Inr (project, current, updatedGoMod)))))))"

definition upgrade_write :: "generator \<Rightarrow> string \<Rightarrow> bool \<Rightarrow> manifest \<Rightarrow> string \<Rightarrow> string \<Rightarrow> upgrade_result scaffold" where
  "upgrade_write gen version apply_it project current updatedGoMod =
     (let projectChanged = (FormatVersion project \<noteq> metadataFormatVersion \<or> FrameworkVersion project \<noteq> version);
          result = \<lparr>From = current, To = version, Changed = (current \<noteq> version \<or> projectChanged)\<rparr> in
      if \<not> apply_it \<or> \<not> Changed result then io_return result
      else
        io_bind (if current \<noteq> version then io_wrap WriteGoMod (writeAtomic (gen_os gen) ''go.mod'' updatedGoMod)
                 else io_return ()) (\<lambda>_.
        io_bind (if projectChanged then writeManifest gen (project\<lparr>FrameworkVersion := version\<rparr>) else io_return ()) (\<lambda>_.
        io_return result)))"

definition Upgrade :: "generator \<Rightarrow> string \<Rightarrow> bool \<Rightarrow> upgrade_result scaffold" where
  "Upgrade gen version apply_it =
     io_bind (upgrade_plan gen version) (\<lambda>(project, current, updatedGoMod).
     upgrade_write gen version apply_it project current updatedGoMod)"

section \<open>Sequences of steps\<close>

lemma io_bind_Inr:
  "io_bind m f d = (Inr y, d') \<longleftrightarrow> (\<exists>x d1. m d = (Inr x, d1) \<and> f x d1 = (Inr y, d'))"
  by (auto simp: io_bind_def split: prod.splits sum.splits)

lemma io_wrap_Inr [simp]: "io_wrap g m d = (Inr x, d') \<longleftrightarrow> m d = (Inr x, d')"
  by (auto simp: io_wrap_def split: prod.splits sum.splits)

lemma io_lift_Inr [simp]: "io_lift r d = (Inr x, d') \<longleftrightarrow> r = Inr x \<and> d' = d"
  by (auto simp: io_lift_def)

lemma io_return_fail [simp]: "io_return x d = (r, d') \<longleftrightarrow> r = Inr x \<and> d' = d" "io_fail e d = (r, d') \<longleftrightarrow> r = Inl e \<and> d' = d"
  by (auto simp: io_return_def io_fail_def)

text \<open>
  \<open>hoare P m G R\<close>: started where \<open>P\<close> holds, every tree that comes up satisfies \<open>G\<close>, whatever fails, and
  if no error is returned \<open>R\<close> holds of the result and the disk.
\<close>

definition hoare :: "(disk \<Rightarrow> bool) \<Rightarrow> ('e, 'a) io \<Rightarrow> (tree \<Rightarrow> bool) \<Rightarrow> ('a \<Rightarrow> disk \<Rightarrow> bool) \<Rightarrow> bool" where
  "hoare P m G R \<longleftrightarrow> (\<forall>d r d'. P d \<longrightarrow> m d = (r, d') \<longrightarrow> evolves G d d' \<and> (\<forall>x. r = Inr x \<longrightarrow> R x d'))"

lemma hoareI:
  "(\<And>d r d'. P d \<Longrightarrow> m d = (r, d') \<Longrightarrow> evolves G d d' \<and> (\<forall>x. r = Inr x \<longrightarrow> R x d')) \<Longrightarrow> hoare P m G R"
  by (simp add: hoare_def)

lemma hoare_bind:
  assumes "hoare P m G R" "\<And>x. hoare (R x) (f x) G S"
  shows "hoare P (io_bind m f) G S"
proof (rule hoareI)
  fix d r d'
  assume d: "P d" "io_bind m f d = (r, d')"
  obtain r1 d1 where m: "m d = (r1, d1)" by fastforce
  with assms(1) d(1) have e: "evolves G d d1" "\<forall>x. r1 = Inr x \<longrightarrow> R x d1" by (auto simp: hoare_def)
  show "evolves G d d' \<and> (\<forall>x. r = Inr x \<longrightarrow> S x d')"
  proof (cases r1)
    case (Inl a)
    with d(2) m e show ?thesis by (auto simp: io_bind_def)
  next
    case (Inr x)
    then have "f x d1 = (r, d')" using d(2) m by (simp add: io_bind_def)
    moreover have "R x d1" using e(2) Inr by simp
    ultimately have "evolves G d1 d' \<and> (\<forall>x. r = Inr x \<longrightarrow> S x d')" using assms(2) by (auto simp: hoare_def)
    with e(1) show ?thesis by (blast intro: evolves_trans)
  qed
qed

lemma hoare_wrap: "hoare P m G R \<Longrightarrow> hoare P (io_wrap g m) G R"
  by (fastforce simp: hoare_def io_wrap_def split: prod.splits sum.splits)

lemma hoare_return: "(\<And>d. P d \<Longrightarrow> R x d) \<Longrightarrow> hoare P (io_return x) G R"
  by (rule hoareI) auto

lemma hoare_fail: "hoare P (io_fail e) G R"
  by (rule hoareI) auto

lemma hoare_lift: "(\<And>x d. r = Inr x \<Longrightarrow> P d \<Longrightarrow> R x d) \<Longrightarrow> hoare P (io_lift r) G R"
  by (rule hoareI) (auto simp: io_lift_def)

lemma hoare_pre: "hoare P' m G R \<Longrightarrow> (\<And>d. P d \<Longrightarrow> P' d) \<Longrightarrow> hoare P m G R"
  unfolding hoare_def by blast

lemma hoare_post: "hoare P m G R' \<Longrightarrow> (\<And>x d. R' x d \<Longrightarrow> R x d) \<Longrightarrow> hoare P m G R"
  unfolding hoare_def by blast

text \<open>Steps that only look.\<close>

definition same_disk :: "disk \<Rightarrow> disk \<Rightarrow> bool" where
  "same_disk d d' \<longleftrightarrow> tree d' = tree d \<and> trail d' = trail d \<and> root_dir d' = root_dir d"

definition readonly :: "('e, 'a) io \<Rightarrow> bool" where
  "readonly m \<longleftrightarrow> (\<forall>d r d'. m d = (r, d') \<longrightarrow> same_disk d d')"

named_theorems readonly_rules \<open>steps that leave the disk alone\<close>

lemma same_disk_trans: "same_disk d d1 \<Longrightarrow> same_disk d1 d2 \<Longrightarrow> same_disk d d2"
  by (simp add: same_disk_def)

lemma same_disk_refl [simp]: "same_disk d d" "same_disk d (tick d)"
  by (simp_all add: same_disk_def)

lemma readonlyD: "readonly m \<Longrightarrow> m d = (r, d') \<Longrightarrow> same_disk d d'"
  unfolding readonly_def by blast

lemma readonly_bind [readonly_rules]: "readonly m \<Longrightarrow> (\<And>x. readonly (f x)) \<Longrightarrow> readonly (io_bind m f)"
  unfolding readonly_def io_bind_def by (fastforce split: prod.splits sum.splits intro: same_disk_trans)

lemma readonly_wrap [readonly_rules]: "readonly m \<Longrightarrow> readonly (io_wrap g m)"
  by (fastforce simp: readonly_def io_wrap_def split: prod.splits sum.splits)

lemma readonly_basic [readonly_rules]:
  "readonly (io_return x)" "readonly (io_fail e)" "readonly (io_lift r)"
  by (auto simp: readonly_def io_lift_def)

lemma readonly_attempt: "(\<And>d r d'. act d = (r, d') \<Longrightarrow> same_disk d d') \<Longrightarrow> readonly (attempt os act)"
  by (auto simp: readonly_def elim!: attempt_cases) (meson same_disk_refl(2) same_disk_trans)

lemma readonly_calls [readonly_rules]:
  "readonly (LstatRoot os)" "readonly (OpenRoot os)" "readonly (Lstat os p)" "readonly (ReadFile os p)"
  unfolding LstatRoot_def OpenRoot_def Lstat_def ReadFile_def by (auto intro!: readonly_attempt)

lemma hoare_readonly: "readonly m \<Longrightarrow> hoare P m G (\<lambda>x d'. \<exists>d. P d \<and> m d = (Inr x, d') \<and> same_disk d d')"
  by (rule hoareI) (auto simp: evolves_def same_disk_def dest!: readonlyD)

lemma readonly_open [readonly_rules]: "readonly (open_project gen)"
  unfolding open_project_def by (auto intro!: readonly_rules)

lemma readonly_reject [readonly_rules]: "readonly (rejectManagedSymlinks os ps)"
proof (induction ps)
  case (Cons p ps)
  show ?case
    unfolding readonly_def
  proof (intro allI impI)
    fix d r d'
    assume run: "rejectManagedSymlinks os (p # ps) d = (r, d')"
    obtain r1 d1 where l: "Lstat os p d = (r1, d1)" by fastforce
    then have "same_disk d d1" using readonly_calls(3) readonlyD by blast
    moreover from run l have "d' = d1 \<or> rejectManagedSymlinks os ps d1 = (r, d')"
      by (auto split: sum.splits if_splits)
    ultimately show "same_disk d d'" using readonlyD [OF Cons.IH] same_disk_trans by blast
  qed
qed (simp add: readonly_def)

lemma readonly_parts [readonly_rules]: "readonly (reject_parts os p parts)"
proof (induction parts arbitrary: p)
  case (Cons part parts)
  show ?case
    unfolding readonly_def
  proof (intro allI impI)
    fix d r d'
    assume run: "reject_parts os p (part # parts) d = (r, d')"
    let ?p = "if p = [] then part else p @ ''/'' @ part"
    obtain r1 d1 where l: "Lstat os ?p d = (r1, d1)" by fastforce
    then have "same_disk d d1" using readonly_calls(3) readonlyD by blast
    moreover from run l have "d' = d1 \<or> reject_parts os ?p parts d1 = (r, d')"
      by (auto simp: Let_def split: sum.splits if_splits)
    ultimately show "same_disk d d'" using readonlyD [OF Cons.IH] same_disk_trans by blast
  qed
qed (simp add: readonly_def)

lemma readonly_target [readonly_rules]: "readonly (rejectTargetSymlinks os p)"
  unfolding rejectTargetSymlinks_def by (rule readonly_parts)

lemma readonly_manifest [readonly_rules]: "readonly (readManifest gen)"
  unfolding readonly_def
proof (intro allI impI)
  fix d r d'
  assume run: "readManifest gen d = (r, d')"
  obtain r1 d1 where l: "ReadFile (gen_os gen) metadataPath d = (r1, d1)" by fastforce
  then have s: "same_disk d d1" using readonly_calls(4) readonlyD by blast
  obtain r2 d2 where l2: "ReadFile (gen_os gen) legacyManifestPath d1 = (r2, d2)" by fastforce
  then have s2: "same_disk d1 d2" using readonly_calls(4) readonlyD by blast
  from run l l2 have "d' = d1 \<or> d' = d2" by (auto simp: readManifest_def split: sum.splits if_splits)
  with s s2 show "same_disk d d'" using same_disk_trans by blast
qed

lemma readonly_gomod [readonly_rules]: "readonly (frameworkDependencyVersion gen)" "readonly (projectModulePath gen)"
  unfolding frameworkDependencyVersion_def projectModulePath_def by (auto intro!: readonly_rules)

lemma readonly_check [readonly_rules]: "readonly (check_targets os m fs)"
proof (induction fs)
  case (Cons f fs)
  show ?case
    unfolding readonly_def
  proof (intro allI impI)
    fix d r d'
    assume run: "check_targets os m (f # fs) d = (r, d')"
    obtain r1 d1 where t: "rejectTargetSymlinks os (target_path f) d = (r1, d1)" by fastforce
    then have s1: "same_disk d d1" using readonly_target readonlyD by blast
    obtain r2 d2 where l: "Lstat os (target_path f) d1 = (r2, d2)" by fastforce
    then have s2: "same_disk d1 d2" using readonly_calls(3) readonlyD by blast
    from run t l have "d' = d1 \<or> d' = d2 \<or> check_targets os m fs d2 = (r, d')"
      by (auto split: sum.splits if_splits)
    with s1 s2 show "same_disk d d'" using readonlyD [OF Cons.IH] same_disk_trans by blast
  qed
qed (simp add: readonly_def)

lemma readonly_plan [readonly_rules]: "readonly (plan_additions os present ms additions)"
proof (induction ms arbitrary: additions)
  case (Cons m ms)
  show ?case
    unfolding readonly_def
  proof (intro allI impI)
    fix d r d'
    assume run: "plan_additions os present (m # ms) additions d = (r, d')"
    obtain r1 d1 where c: "check_targets os m (files (module_spec_of m)) d = (r1, d1)" by fastforce
    then have s1: "same_disk d d1" using readonly_check readonlyD by blast
    from run c have "d' = d1 \<or> plan_additions os present ms (additions @ [m]) d1 = (r, d') \<or>
        plan_additions os present ms additions d = (r, d')"
      by (auto split: sum.splits if_splits)
    with s1 show "same_disk d d'" using readonlyD [OF Cons.IH] same_disk_trans by blast
  qed
qed (simp add: readonly_def)

section \<open>What the checks establish\<close>

text \<open>A path that neither goes through a symbolic link nor is one.\<close>

definition plain :: "tree \<Rightarrow> path \<Rightarrow> bool" where
  "plain t p \<longleftrightarrow> walk_parents t (parents p) \<noteq> Via \<and> \<not> is_symlink (map_of t p)"

lemma attempt_Inr: "attempt os act d = (Inr x, d') \<longleftrightarrow> fst (fault os (clock d)) = None \<and> act (tick d) = (Inr x, d')"
  by (auto simp: attempt_def split: option.splits)

lemma attempt_errno: "attempt os act d = (Inl e, d') \<Longrightarrow> (\<nexists>s. e = EOther s) \<Longrightarrow> act (tick d) = (Inl e, d')"
  by (auto simp: attempt_def split: option.splits)

lemma locate_plain:
  assumes "walk_parents t (parents p) \<noteq> Via" "\<not> direct t p"
  shows "\<exists>e. locate os t final p = Inl e"
  using assms walk_direct [of t "parents p"]
  by (auto simp: locate_def direct_def split: walked.splits)

lemma plain_direct: "direct t p \<Longrightarrow> plain t p \<longleftrightarrow> \<not> is_symlink (map_of t p)"
  using walk_direct [of t "parents p"] by (auto simp: plain_def direct_def)

text \<open>Trees in which what is below something that is no directory cannot be.\<close>

definition well_formed :: "tree \<Rightarrow> bool" where
  "well_formed t \<longleftrightarrow> list_all (\<lambda>(p, _). direct t p) t"

lemma well_formed_direct: "well_formed t \<Longrightarrow> map_of t p \<noteq> None \<Longrightarrow> direct t p"
  by (auto simp: well_formed_def list_all_iff dest!: map_of_SomeD)

lemma Lstat_link:
  assumes "Lstat os p d = (r, d')" "well_formed (tree d)"
    and "r = Inl ENOENT \<or> (\<exists>n. r = Inr n \<and> \<not> is_symlink (Some n))"
  shows "\<not> is_symlink (map_of (tree d) (segments p))"
proof (cases "map_of (tree d) (segments p)")
  case (Some n)
  then have "locate os (tree d) False (segments p) = Inr (segments p)"
    using well_formed_direct [OF assms(2)] by (intro locate_direct) simp
  then have "r = Inr n \<or> r \<noteq> Inl ENOENT \<and> (\<nexists>n. r = Inr n)"
    using assms(1) Some by (auto simp: Lstat_def attempt_def split: option.splits)
  with assms(3) Some show ?thesis by auto
qed (simp add: is_symlink_def)

lemma ReadFile_plain:
  assumes "ReadFile os p d = (Inr s, d')" "plain (tree d) (segments p)"
  shows "map_of (tree d) (segments p) = Some (Regular s)"
proof (cases "direct (tree d) (segments p)")
  case True
  then have "locate os (tree d) True (segments p) = Inr (segments p)"
    using assms(2) by (intro locate_direct_final) (simp_all add: plain_def)
  with assms(1) show ?thesis
    by (auto simp: ReadFile_def attempt_Inr split: option.splits node.splits)
next
  case False
  then obtain e where "locate os (tree d) True (segments p) = Inl e"
    using assms(2) locate_plain by (metis plain_def)
  with assms(1) show ?thesis by (auto simp: ReadFile_def attempt_Inr)
qed

lemma ReadFile_missing:
  assumes "ReadFile os p d = (Inl ENOENT, d')" "well_formed (tree d)" "plain (tree d) (segments p)"
  shows "map_of (tree d) (segments p) = None"
proof (rule ccontr)
  assume n: "map_of (tree d) (segments p) \<noteq> None"
  then have "locate os (tree d) True (segments p) = Inr (segments p)"
    using assms(3) well_formed_direct [OF assms(2) n] by (intro locate_direct_final) (simp_all add: plain_def)
  with assms(1) n show False
    by (auto simp: ReadFile_def attempt_def split: option.splits node.splits)
qed

text \<open>After \<open>rejectManagedSymlinks\<close> none of the paths is a symbolic link.\<close>

lemma reject_no_links:
  "rejectManagedSymlinks os ps d = (Inr (), d') \<Longrightarrow> well_formed (tree d) \<Longrightarrow>
   p \<in> set ps \<Longrightarrow> \<not> is_symlink (map_of (tree d) (segments p))"
proof (induction ps arbitrary: d)
  case (Cons q qs)
  obtain r d1 where l: "Lstat os q d = (r, d1)" by fastforce
  have t: "tree d1 = tree d" using readonlyD [OF readonly_calls(3) l] by (simp add: same_disk_def)
  have *: "r = Inl ENOENT \<or> (\<exists>n. r = Inr n \<and> \<not> is_symlink (Some n))" "rejectManagedSymlinks os qs d1 = (Inr (), d')"
    using Cons.prems(1) l by (auto split: sum.splits if_splits)
  from Lstat_link [OF l Cons.prems(2) *(1)] Cons.IH [OF *(2)] Cons.prems t show ?case by auto
qed simp

text \<open>A path of two elements whose first is no link.\<close>

lemma plain_two:
  assumes "segments p = [a, b]" "\<not> is_symlink (map_of t [a])" "\<not> is_symlink (map_of t [a, b])"
  shows "plain t (segments p)"
  using assms by (auto simp: plain_def parents_def is_symlink_def split: option.splits node.splits)

lemma plain_one: "segments p = [a] \<Longrightarrow> \<not> is_symlink (map_of t [a]) \<Longrightarrow> plain t (segments p)"
  by (simp add: plain_def parents_def)

lemma managed_segments:
  "segments ''.wahoo'' = [''.wahoo'']" "segments metadataPath = [''.wahoo'', ''project.json'']"
  "segments legacyManifestPath = [''.wahoo'', ''modules.json'']" "segments ''go.mod'' = [''go.mod'']"
  "segments ''app'' = [''app'']" "segments routesPath = [''app'', ''routes.go'']"
  by (simp_all add: segments_def metadataPath_def legacyManifestPath_def routesPath_def)

text \<open>The metadata a project has, in the new or the old place.\<close>

definition stored_manifest :: "generator \<Rightarrow> tree \<Rightarrow> scaffold_error + manifest" where
  "stored_manifest gen t = (case map_of t (segments metadataPath) of
       Some (Regular s) \<Rightarrow> decode_manifest gen s
     | _ \<Rightarrow> (case map_of t (segments legacyManifestPath) of
         Some (Regular s) \<Rightarrow> decode_manifest gen s | _ \<Rightarrow> Inl NotAProject))"

lemma readManifest_stored:
  assumes "readManifest gen d = (Inr project, d')" "well_formed (tree d)"
    and "plain (tree d) (segments metadataPath)" "plain (tree d) (segments legacyManifestPath)"
  shows "stored_manifest gen (tree d) = Inr project \<and> map_of (tree d) [''.wahoo''] = Some Directory \<and>
    (map_of (tree d) (segments metadataPath) = None \<or> (\<exists>s. map_of (tree d) (segments metadataPath) = Some (Regular s)))"
proof -
  have dir: "map_of (tree d) [''.wahoo''] = Some Directory"
    if "map_of (tree d) (segments p) = Some n" "segments p = [''.wahoo'', x]" for p n x
    using well_formed_direct [OF assms(2), of "segments p"] that by (simp add: direct_def parents_def)
  obtain r1 d1 where l: "ReadFile (gen_os gen) metadataPath d = (r1, d1)" by fastforce
  have t1: "tree d1 = tree d" using readonlyD [OF readonly_calls(4) l] by (simp add: same_disk_def)
  obtain r2 d2 where l2: "ReadFile (gen_os gen) legacyManifestPath d1 = (r2, d2)" by fastforce
  consider s where "r1 = Inr s" "decode_manifest gen s = Inr project"
    | s where "r1 = Inl ENOENT" "r2 = Inr s" "decode_manifest gen s = Inr project"
    using assms(1) l l2 by (auto simp: readManifest_def split: sum.splits if_splits)
  then show ?thesis
  proof cases
    case (1 s)
    with l ReadFile_plain [of _ metadataPath] assms(3) dir [of metadataPath] show ?thesis
      by (auto simp: stored_manifest_def managed_segments)
  next
    case (2 s)
    have "map_of (tree d) (segments metadataPath) = None"
      using ReadFile_missing [of _ metadataPath] l 2 assms(2,3) by simp
    moreover have "map_of (tree d) (segments legacyManifestPath) = Some (Regular s)"
      using ReadFile_plain [of _ legacyManifestPath d1] l2 2 assms(4) t1 by simp
    ultimately show ?thesis
      using 2 dir [of legacyManifestPath] by (auto simp: stored_manifest_def managed_segments)
  qed
qed

section \<open>Writing the metadata\<close>

lemma MkdirAll_existing:
  assumes "map_of (tree d) [''.wahoo''] = Some Directory"
  shows "MkdirAll os ''.wahoo'' d = (Inr (), d)"
  using assms by (simp add: MkdirAll_def managed_segments)

definition metadata_text :: "manifest \<Rightarrow> string" where
  "metadata_text project = manifest_json (project\<lparr>FormatVersion := metadataFormatVersion\<rparr>) @ [LF]"

lemma writeManifest_existing:
  assumes "map_of (tree d) [''.wahoo''] = Some Directory" "writeManifest gen project d = (r, d')"
  shows "\<exists>r'. writeAtomic (gen_os gen) metadataPath (metadata_text project) d = (r', d') \<and> (r = Inr () \<longleftrightarrow> r' = Inr ())"
  using assms MkdirAll_existing [OF assms(1)]
  by (auto simp: writeManifest_def metadata_text_def io_bind_def io_wrap_def Let_def split: prod.splits sum.splits)

lemma case_pair_Inr [simp]:
  "(case x of Inl e \<Rightarrow> Inl (g e) | Inr (a, b) \<Rightarrow> Inr (h a b)) = Inr y \<longleftrightarrow> (\<exists>a b. x = Inr (a, b) \<and> y = h a b)"
  by (auto split: sum.splits prod.splits)

lemma readonly_upgrade_plan [readonly_rules]: "readonly (upgrade_plan gen v)"
  unfolding upgrade_plan_def by (auto intro!: readonly_rules)

lemma readonly_add_plan [readonly_rules]: "readonly (add_plan gen values)"
  unfolding add_plan_def by (auto intro!: readonly_rules)

lemma io_bind_cases:
  assumes "io_bind m f d = (r, d')"
  obtains e where "m d = (Inl e, d')" "r = Inl e" | x d1 where "m d = (Inr x, d1)" "f x d1 = (r, d')"
  using assms by (auto simp: io_bind_def split: prod.splits sum.splits)

end
