(* ===== verification/Scaffold_Upgrade.thy ===== *)
theory Scaffold_Upgrade
  imports Scaffold
begin

text \<open>
  What \<open>Upgrade\<close> does to a project: which states of the directory it can pass through or leave, whatever
  fails, and that a completed upgrade has nothing left to do.
\<close>

section \<open>What an upgrade reads\<close>

text \<open>A project with its metadata and no links, ready to be upgraded.\<close>

definition upgradable :: "generator \<Rightarrow> disk \<Rightarrow> bool" where
  "upgradable gen d \<longleftrightarrow> root_dir d = RootDirectory \<and> map_of (tree d) [''.wahoo''] = Some Directory \<and>
     (\<exists>s. map_of (tree d) [''go.mod''] = Some (Regular s)) \<and>
     (\<exists>project. stored_manifest gen (tree d) = Inr project) \<and>
     (map_of (tree d) (segments metadataPath) = None \<or> (\<exists>s. map_of (tree d) (segments metadataPath) = Some (Regular s))) \<and>
     \<not> is_symlink (map_of (tree d) (segments legacyManifestPath))"

lemma open_project_root: "open_project gen d = (Inr (), d') \<Longrightarrow> root_dir d = RootDirectory"
  by (cases "root_dir d")
    (auto simp: open_project_def io_bind_Inr LstatRoot_def OpenRoot_def attempt_Inr split: if_splits root_node.splits)

lemma upgrade_plan_reads:
  assumes "upgrade_plan gen v d = (Inr (project, current, updated), d')" "well_formed (tree d)"
  obtains s where "validFrameworkVersion v" "same_disk d d'" "upgradable gen d"
    "stored_manifest gen (tree d) = Inr project" "map_of (tree d) [''.wahoo''] = Some Directory"
    "map_of (tree d) [''go.mod''] = Some (Regular s)" "replaceFrameworkRequirement s v = Inr (current, updated)"
proof -
  have same: "same_disk d d'" using assms(1) readonly_upgrade_plan readonlyD by blast
  obtain d1 d2 d3 d4 s where valid: "validFrameworkVersion v"
    and o: "open_project gen d = (Inr (), d1)"
    and j: "rejectManagedSymlinks (gen_os gen) [''.wahoo'', metadataPath, legacyManifestPath, ''go.mod''] d1 = (Inr (), d2)"
    and m: "readManifest gen d2 = (Inr project, d3)"
    and g: "ReadFile (gen_os gen) ''go.mod'' d3 = (Inr s, d4)"
    and u: "replaceFrameworkRequirement s v = Inr (current, updated)"
    using assms(1)
    by (auto simp: upgrade_plan_def io_bind_Inr simp del: rejectManagedSymlinks.simps
        split: if_splits)
  have t: "tree d1 = tree d" "tree d2 = tree d" "tree d3 = tree d"
    using readonlyD [OF readonly_open o] readonlyD [OF readonly_reject j] readonlyD [OF readonly_manifest m]
    by (simp_all add: same_disk_def)
  note links = reject_no_links [OF j]
  have wf: "well_formed (tree d1)" using assms(2) t by simp
  have nl: "\<not> is_symlink (map_of (tree d) [''.wahoo''])" "\<not> is_symlink (map_of (tree d) (segments metadataPath))"
    "\<not> is_symlink (map_of (tree d) (segments legacyManifestPath))" "\<not> is_symlink (map_of (tree d) [''go.mod''])"
    using links [OF wf, of "''.wahoo''"] links [OF wf, of metadataPath] links [OF wf, of legacyManifestPath]
      links [OF wf, of "''go.mod''"] t by (simp_all add: managed_segments)
  have "plain (tree d) (segments metadataPath)" "plain (tree d) (segments legacyManifestPath)"
    using nl plain_two [OF managed_segments(2)] plain_two [OF managed_segments(3)] by (simp_all add: managed_segments)
  with readManifest_stored [OF m] assms(2) t
  have st: "stored_manifest gen (tree d) = Inr project" "map_of (tree d) [''.wahoo''] = Some Directory"
    "map_of (tree d) (segments metadataPath) = None \<or> (\<exists>s. map_of (tree d) (segments metadataPath) = Some (Regular s))"
    by simp_all
  have "plain (tree d) (segments ''go.mod'')" using nl plain_one [OF managed_segments(4)] by simp
  with ReadFile_plain [OF g] t have gm: "map_of (tree d) [''go.mod''] = Some (Regular s)" by (simp add: managed_segments)
  have "upgradable gen d"
    using st gm nl(3) open_project_root [OF o] by (simp add: upgradable_def)
  with st gm show thesis using that valid same u by blast
qed

section \<open>The states an upgrade passes through\<close>

definition new_gomod :: "string \<Rightarrow> tree \<Rightarrow> node option" where
  "new_gomod v t = (case map_of t [''go.mod''] of
       Some (Regular s) \<Rightarrow> (case replaceFrameworkRequirement s v of
           Inr (_, s') \<Rightarrow> Some (Regular s') | Inl _ \<Rightarrow> Some (Regular s))
     | n \<Rightarrow> n)"

definition new_metadata :: "generator \<Rightarrow> string \<Rightarrow> tree \<Rightarrow> node option" where
  "new_metadata gen v t = (case stored_manifest gen t of
       Inr project \<Rightarrow> Some (Regular (metadata_text (project\<lparr>FrameworkVersion := v\<rparr>)))
     | Inl _ \<Rightarrow> map_of t (segments metadataPath))"

definition upgrade_paths :: "path list" where
  "upgrade_paths = map segments [''go.mod'', temporary ''go.mod'', metadataPath, temporary metadataPath]"

definition upgrading :: "generator \<Rightarrow> string \<Rightarrow> tree \<Rightarrow> tree \<Rightarrow> bool" where
  "upgrading gen v t0 t \<longleftrightarrow>
     (\<forall>q. q \<notin> set upgrade_paths \<longrightarrow> map_of t q = map_of t0 q) \<and>
     map_of t [''go.mod''] \<in> {map_of t0 [''go.mod''], new_gomod v t0} \<and>
     map_of t (segments metadataPath) \<in> {map_of t0 (segments metadataPath), new_metadata gen v t0} \<and>
     (map_of t (segments metadataPath) \<noteq> map_of t0 (segments metadataPath) \<longrightarrow> map_of t [''go.mod''] = new_gomod v t0)"

lemma upgrade_segments:
  "upgrade_paths = [[''go.mod''], [''go.mod.wahoo.tmp''], [''.wahoo'', ''project.json''], [''.wahoo'', ''project.json.wahoo.tmp'']]"
  by code_simp

lemma upgrading_refl: "upgrading gen v t t"
  by (simp add: upgrading_def)

text \<open>Replacing \<open>go.mod\<close>, and then the metadata, stays within these states.\<close>

lemma replaced_gomod:
  assumes "replaced t0 ''go.mod'' updated t" "map_of t0 [''go.mod''] = Some (Regular s)"
    and "replaceFrameworkRequirement s v = Inr (current, updated)"
  shows "upgrading gen v t0 t"
proof -
  have "map_of t (segments metadataPath) = map_of t0 (segments metadataPath)"
    using assms(1) upgrade_segments by (simp add: replaced_def managed_segments upgrade_paths_def)
  then show ?thesis
    using assms upgrade_segments
    by (auto simp: upgrading_def replaced_def new_gomod_def managed_segments upgrade_paths_def)
qed

lemma replaced_metadata:
  assumes "replaced t1 metadataPath (metadata_text (project\<lparr>FrameworkVersion := v\<rparr>)) t" "upgrading gen v t0 t1"
    and "map_of t1 [''go.mod''] = new_gomod v t0" "stored_manifest gen t0 = Inr project"
  shows "upgrading gen v t0 t"
proof -
  have new: "new_metadata gen v t0 = Some (Regular (metadata_text (project\<lparr>FrameworkVersion := v\<rparr>)))"
    using assms(4) by (simp add: new_metadata_def)
  have "map_of t (segments metadataPath) \<in> {map_of t1 (segments metadataPath), new_metadata gen v t0}"
    using assms(1) by (simp add: replaced_def new)
  then have m: "map_of t (segments metadataPath) \<in> {map_of t0 (segments metadataPath), new_metadata gen v t0}"
    using assms(2) by (auto simp: upgrading_def)
  have off: "map_of t q = map_of t1 q" if "q \<notin> set [segments metadataPath, segments (temporary metadataPath)]" for q
    using assms(1) that by (simp add: replaced_def)
  have "[''go.mod''] \<notin> set [segments metadataPath, segments (temporary metadataPath)]" by code_simp
  from off [OF this] have g: "map_of t [''go.mod''] = new_gomod v t0" using assms(3) by simp
  have "map_of t q = map_of t0 q" if "q \<notin> set upgrade_paths" for q
    using that off [of q] assms(2) by (simp add: upgrading_def upgrade_paths_def)
  with m g show ?thesis by (simp add: upgrading_def)
qed

lemma upgrade_write_states:
  assumes s: "map_of (tree d) [''go.mod''] = Some (Regular s)" "replaceFrameworkRequirement s v = Inr (current, updated)"
    and p: "stored_manifest gen (tree d) = Inr project" "map_of (tree d) [''.wahoo''] = Some Directory"
    and same: "current = v \<longrightarrow> updated = s"
    and run: "upgrade_write gen v True project current updated d = (r, d')"
  shows "evolves (upgrading gen v (tree d)) d d' \<and>
    (\<forall>res. r = Inr res \<longrightarrow>
       res = \<lparr>From = current, To = v, Changed = (current \<noteq> v \<or> FormatVersion project \<noteq> metadataFormatVersion \<or> FrameworkVersion project \<noteq> v)\<rparr> \<and>
       map_of (tree d') [''go.mod''] = new_gomod v (tree d) \<and>
       (if FormatVersion project = metadataFormatVersion \<and> FrameworkVersion project = v
        then map_of (tree d') (segments metadataPath) = map_of (tree d) (segments metadataPath)
        else map_of (tree d') (segments metadataPath) = new_metadata gen v (tree d)))"
proof -
  let ?t0 = "tree d" and ?G = "upgrading gen v (tree d)"
  let ?pc = "FormatVersion project \<noteq> metadataFormatVersion \<or> FrameworkVersion project \<noteq> v"
  let ?res = "\<lparr>From = current, To = v, Changed = (current \<noteq> v \<or> ?pc)\<rparr>"
  let ?m1 = "if current \<noteq> v then io_wrap WriteGoMod (writeAtomic (gen_os gen) ''go.mod'' updated) else io_return ()"
  let ?m2 = "if ?pc then writeManifest gen (project\<lparr>FrameworkVersion := v\<rparr>) else io_return ()"
  have new: "new_gomod v ?t0 = Some (Regular updated)" using s by (simp add: new_gomod_def)
  have keep: "current = v \<Longrightarrow> map_of ?t0 [''go.mod''] = new_gomod v ?t0" using s same new by simp
  show ?thesis
  proof (cases "Changed ?res")
    case False
    with run have "r = Inr ?res" "d' = d" by (auto simp: upgrade_write_def Let_def)
    with False keep show ?thesis by simp
  next
    case True
    then have "\<not> (\<not> True \<or> \<not> Changed ?res)" by simp
    from run [unfolded upgrade_write_def Let_def if_not_P [OF this]]
    have run: "io_bind ?m1 (\<lambda>_. io_bind ?m2 (\<lambda>_. io_return ?res)) d = (r, d')" .
    obtain r1 d1 where m1: "?m1 d = (r1, d1)" by fastforce
    have e1: "evolves ?G d d1 \<and> (r1 = Inr () \<longrightarrow> map_of (tree d1) [''go.mod''] = new_gomod v ?t0 \<and>
        map_of (tree d1) (segments metadataPath) = map_of ?t0 (segments metadataPath) \<and>
        map_of (tree d1) [''.wahoo''] = Some Directory)"
    proof (cases "current = v")
      case True
      with m1 have "r1 = Inr ()" "d1 = d" by auto
      with keep True p(2) show ?thesis by simp
    next
      case False
      then obtain r1' where w: "writeAtomic (gen_os gen) ''go.mod'' updated d = (r1', d1)" "r1 = Inr () \<longleftrightarrow> r1' = Inr ()"
        using m1 by (auto simp: io_wrap_def split: prod.splits sum.splits)
      have "direct ?t0 (segments ''go.mod'')" by (simp add: direct_def parents_def managed_segments)
      note rep = writeAtomic_replaces [OF this w(1)]
      have "evolves ?G d d1"
        using rep replaced_gomod [OF _ s] by (blast intro: evolves_mono)
      moreover have "map_of (tree d1) [''go.mod''] = new_gomod v ?t0" if "r1 = Inr ()"
        using rep w(2) that by (simp add: new managed_segments)
      moreover have "replaced ?t0 ''go.mod'' updated (tree d1)"
        using rep by (auto simp: evolves_def)
      then have "map_of (tree d1) (segments metadataPath) = map_of ?t0 (segments metadataPath)"
        "map_of (tree d1) [''.wahoo''] = map_of ?t0 [''.wahoo'']"
        using upgrade_segments by (simp_all add: replaced_def managed_segments upgrade_paths_def)
      ultimately show ?thesis using p(2) by simp
    qed
    show ?thesis
    proof (cases r1)
      case (Inl e)
      with run m1 have "r = Inl e" "d' = d1" by (auto simp: io_bind_def)
      with e1 show ?thesis by simp
    next
      case (Inr u)
      obtain r2 d2 where m2: "?m2 d1 = (r2, d2)" by fastforce
      have rd: "d' = d2" "r = (case r2 of Inl e \<Rightarrow> Inl e | Inr _ \<Rightarrow> Inr ?res)"
        using run m1 m2 Inr by (auto simp: io_bind_def io_return_def split: sum.splits)
      have g1: "?G (tree d1)" using e1 upgrading_refl by (auto simp: evolves_def)
      have e2: "evolves ?G d1 d2 \<and> (r2 = Inr () \<longrightarrow> map_of (tree d2) [''go.mod''] = new_gomod v ?t0 \<and>
          (if ?pc then map_of (tree d2) (segments metadataPath) = new_metadata gen v ?t0
           else map_of (tree d2) (segments metadataPath) = map_of ?t0 (segments metadataPath)))"
      proof (cases ?pc)
        case False
        with m2 have "r2 = Inr ()" "d2 = d1" by auto
        with e1 Inr False show ?thesis by simp
      next
        case True
        let ?text = "metadata_text (project\<lparr>FrameworkVersion := v\<rparr>)"
        have dir: "map_of (tree d1) [''.wahoo''] = Some Directory" using e1 Inr by simp
        from True m2 have "writeManifest gen (project\<lparr>FrameworkVersion := v\<rparr>) d1 = (r2, d2)" by simp
        from writeManifest_existing [OF dir this] obtain r2' where
          w: "writeAtomic (gen_os gen) metadataPath ?text d1 = (r2', d2)" "r2 = Inr () \<longleftrightarrow> r2' = Inr ()" by blast
        have "direct (tree d1) (segments metadataPath)" using dir by (simp add: direct_def parents_def managed_segments)
        note rep = writeAtomic_replaces [OF this w(1)]
        have up: "upgrading gen v ?t0 t" if "replaced (tree d1) metadataPath ?text t" for t
          using replaced_metadata [OF that g1 _ p(1)] e1 Inr by simp
        then have "evolves ?G d1 d2" using rep by (blast intro: evolves_mono)
        moreover have "replaced (tree d1) metadataPath ?text (tree d2)" using rep by (auto simp: evolves_def)
        then have "map_of (tree d2) [''go.mod''] = map_of (tree d1) [''go.mod'']"
          using upgrade_segments by (simp add: replaced_def managed_segments upgrade_paths_def)
        moreover have "map_of (tree d2) (segments metadataPath) = new_metadata gen v ?t0" if "r2 = Inr ()"
          using rep w(2) that p(1) by (simp add: new_metadata_def)
        ultimately show ?thesis using e1 Inr True by simp
      qed
      show ?thesis
        using e1 e2 rd Inr by (auto intro: evolves_trans split: sum.splits)
    qed
  qed
qed

section \<open>Properties of an upgrade\<close>

text \<open>
  C5. Whatever fails during \<open>Upgrade\<close> and whenever the process dies, the project is in one of three
  states: as it was, with the framework's version replaced in \<open>go.mod\<close>, or with that and the new metadata;
  so the metadata never claims a version that \<open>go.mod\<close> does not have, neither file is ever partial, and
  nothing else but the two temporary files is touched. Without \<open>apply\<close> nothing is written at all. When
  \<open>Upgrade\<close> returns a result, \<open>go.mod\<close> and the metadata have the new version if it was to be applied.
\<close>

theorem Upgrade_safe_states:
  assumes "well_formed (tree d)" "Upgrade gen v apply_it d = (r, d')"
  shows "(\<exists>ts. trail d' = trail d @ ts \<and> list_all (upgrading gen v (tree d)) ts \<and> (apply_it \<or> ts = [])) \<and>
    upgrading gen v (tree d) (tree d') \<and> (apply_it \<or> tree d' = tree d) \<and>
    (case r of
       Inl e \<Rightarrow> True
     | Inr res \<Rightarrow> To res = v \<and> validFrameworkVersion v \<and>
        (\<exists>s updated project. map_of (tree d) [''go.mod''] = Some (Regular s) \<and>
           replaceFrameworkRequirement s v = Inr (From res, updated) \<and> stored_manifest gen (tree d) = Inr project \<and>
           (Changed res \<longleftrightarrow> From res \<noteq> v \<or> FormatVersion project \<noteq> metadataFormatVersion \<or> FrameworkVersion project \<noteq> v) \<and>
           (\<not> apply_it \<or> map_of (tree d') [''go.mod''] = Some (Regular updated) \<and>
              map_of (tree d') (segments metadataPath) =
                (if FormatVersion project = metadataFormatVersion \<and> FrameworkVersion project = v
                 then map_of (tree d) (segments metadataPath) else new_metadata gen v (tree d)))))"
  using assms(2) unfolding Upgrade_def
proof (cases rule: io_bind_cases)
  case (1 e)
  with readonlyD [OF readonly_upgrade_plan] have "same_disk d d'" by blast
  with 1 show ?thesis by (simp add: same_disk_def upgrading_refl)
next
  case (2 x d1)
  obtain project current updated where x: "x = (project, current, updated)" by (cases x)
  with 2 have plan: "upgrade_plan gen v d = (Inr (project, current, updated), d1)"
    and run: "upgrade_write gen v apply_it project current updated d1 = (r, d')" by simp_all
  from plan assms(1) obtain s where s: "validFrameworkVersion v" "same_disk d d1" "stored_manifest gen (tree d) = Inr project"
    "map_of (tree d) [''.wahoo''] = Some Directory" "map_of (tree d) [''go.mod''] = Some (Regular s)"
    "replaceFrameworkRequirement s v = Inr (current, updated)" by (rule upgrade_plan_reads) (simp add: upgradable_def)
  have t: "tree d1 = tree d" "trail d1 = trail d" using s(2) by (simp_all add: same_disk_def)
  have same: "current = v \<longrightarrow> updated = s" using replaceFrameworkRequirement_same [OF s(6)] by auto
  show ?thesis
  proof (cases apply_it)
    case False
    with run have "d' = d1" "r = Inr \<lparr>From = current, To = v,
        Changed = (current \<noteq> v \<or> FormatVersion project \<noteq> metadataFormatVersion \<or> FrameworkVersion project \<noteq> v)\<rparr>"
      by (auto simp: upgrade_write_def Let_def)
    with False s t show ?thesis by (simp add: upgrading_refl)
  next
    case True
    have n: "new_gomod v (tree d) = Some (Regular updated)" using s by (simp add: new_gomod_def)
    note st = upgrade_write_states [OF s(5)[folded t] s(6) s(3)[folded t] s(4)[folded t] same, OF run [unfolded True [THEN eqTrueI]], unfolded t]
    then have "\<exists>ts. trail d' = trail d @ ts \<and> list_all (upgrading gen v (tree d)) ts"
      "upgrading gen v (tree d) (tree d')"
      using upgrading_refl by (auto simp: evolves_def t)
    moreover from st have "case r of Inl e \<Rightarrow> True | Inr res \<Rightarrow> To res = v \<and> From res = current \<and>
        (Changed res \<longleftrightarrow> current \<noteq> v \<or> FormatVersion project \<noteq> metadataFormatVersion \<or> FrameworkVersion project \<noteq> v) \<and>
        map_of (tree d') [''go.mod''] = Some (Regular updated) \<and>
        map_of (tree d') (segments metadataPath) =
                (if FormatVersion project = metadataFormatVersion \<and> FrameworkVersion project = v
                 then map_of (tree d) (segments metadataPath) else new_metadata gen v (tree d))"
      by (cases r) (auto simp: n)
    ultimately show ?thesis using True s by (auto split: sum.splits)
  qed
qed

section \<open>When nothing fails\<close>

definition calm :: "os \<Rightarrow> bool" where
  "calm os \<longleftrightarrow> fault os = (\<lambda>_. (None, None))"

lemma attempt_calm: "calm os \<Longrightarrow> attempt os act d = act (tick d)"
  by (simp add: attempt_def calm_def)

lemma open_project_calm:
  assumes "calm (gen_os gen)" "root_dir d = RootDirectory"
  shows "\<exists>d'. open_project gen d = (Inr (), d')"
  using assms by (simp add: open_project_def io_bind_def io_wrap_def LstatRoot_def OpenRoot_def attempt_calm)

lemma Lstat_calm:
  assumes "calm os" "direct (tree d) (segments p)"
  shows "Lstat os p d = ((case map_of (tree d) (segments p) of None \<Rightarrow> Inl ENOENT | Some n \<Rightarrow> Inr n), tick d)"
  using assms by (simp add: Lstat_def attempt_calm locate_direct)

lemma reject_calm:
  assumes "calm os" "\<forall>p \<in> set ps. direct (tree d) (segments p) \<and> \<not> is_symlink (map_of (tree d) (segments p))"
  shows "\<exists>d'. rejectManagedSymlinks os ps d = (Inr (), d')"
  using assms(2)
proof (induction ps arbitrary: d)
  case (Cons p ps)
  then have "\<exists>d'. rejectManagedSymlinks os ps (tick d) = (Inr (), d')" by simp
  with Cons.prems Lstat_calm [OF assms(1), of d p] show ?case by (auto split: option.splits)
qed simp

lemma ReadFile_calm:
  assumes "calm os" "direct (tree d) (segments p)" "map_of (tree d) (segments p) = Some (Regular s)"
  shows "ReadFile os p d = (Inr s, tick d)"
  using assms locate_direct_final [OF assms(2), of os True]
  by (simp add: ReadFile_def attempt_calm is_symlink_def)

lemma ReadFile_calm_missing:
  assumes "calm os" "direct (tree d) (segments p)" "map_of (tree d) (segments p) = None"
  shows "ReadFile os p d = (Inl ENOENT, tick d)"
  using assms locate_direct_final [OF assms(2), of os True]
  by (simp add: ReadFile_def attempt_calm is_symlink_def)

lemma readManifest_calm:
  assumes "calm (gen_os gen)" "upgradable gen d" "stored_manifest gen (tree d) = Inr project"
  shows "\<exists>d'. readManifest gen d = (Inr project, d')"
proof -
  have dir: "direct (tree d) (segments metadataPath)" "direct (tree d) (segments legacyManifestPath)"
    using assms(2) by (simp_all add: upgradable_def direct_def parents_def managed_segments)
  from assms(2) consider "map_of (tree d) (segments metadataPath) = None"
    | s where "map_of (tree d) (segments metadataPath) = Some (Regular s)" by (auto simp: upgradable_def)
  then show ?thesis
  proof cases
    case 1
    then obtain s where s: "map_of (tree d) (segments legacyManifestPath) = Some (Regular s)" "decode_manifest gen s = Inr project"
      using assms(2,3) by (auto simp: stored_manifest_def upgradable_def split: option.splits node.splits)
    have "ReadFile (gen_os gen) metadataPath d = (Inl ENOENT, tick d)"
      using ReadFile_calm_missing [OF assms(1) dir(1) 1] .
    moreover have "ReadFile (gen_os gen) legacyManifestPath (tick d) = (Inr s, tick (tick d))"
      using dir s by (intro ReadFile_calm [OF assms(1)]) simp_all
    ultimately show ?thesis using s by (simp add: readManifest_def)
  next
    case (2 s)
    with ReadFile_calm [OF assms(1) dir(1) 2] assms(3) show ?thesis
      by (simp add: readManifest_def stored_manifest_def)
  qed
qed

lemma upgrade_plan_calm:
  assumes "calm (gen_os gen)" "upgradable gen d" "stored_manifest gen (tree d) = Inr project" "validFrameworkVersion v"
    and "map_of (tree d) [''go.mod''] = Some (Regular s)" "replaceFrameworkRequirement s v = Inr (current, updated)"
  shows "\<exists>d'. upgrade_plan gen v d = (Inr (project, current, updated), d')"
proof -
  have root: "root_dir d = RootDirectory" and dir: "map_of (tree d) [''.wahoo''] = Some Directory"
    using assms(2) by (simp_all add: upgradable_def)
  obtain d1 where o: "open_project gen d = (Inr (), d1)" using open_project_calm [OF assms(1) root] by blast
  have t1: "tree d1 = tree d" "root_dir d1 = root_dir d"
    using readonlyD [OF readonly_open o] by (simp_all add: same_disk_def)
  have "\<forall>p \<in> set [''.wahoo'', metadataPath, legacyManifestPath, ''go.mod'']. direct (tree d1) (segments p) \<and>
      \<not> is_symlink (map_of (tree d1) (segments p))"
    using assms(2,5) dir t1
    by (auto simp: upgradable_def direct_def parents_def managed_segments is_symlink_def)
  from reject_calm [OF assms(1) this] obtain d2 where
    j: "rejectManagedSymlinks (gen_os gen) [''.wahoo'', metadataPath, legacyManifestPath, ''go.mod''] d1 = (Inr (), d2)" by blast
  have t2: "tree d2 = tree d1" "root_dir d2 = root_dir d1"
    using readonlyD [OF readonly_reject j] by (simp_all add: same_disk_def)
  have "upgradable gen d2" "stored_manifest gen (tree d2) = Inr project"
    using assms(2,3) t1 t2 by (simp_all add: upgradable_def)
  from readManifest_calm [OF assms(1) this] obtain d3 where m: "readManifest gen d2 = (Inr project, d3)" by blast
  have t3: "tree d3 = tree d" using readonlyD [OF readonly_manifest m] t1 t2 by (simp add: same_disk_def)
  have g: "ReadFile (gen_os gen) ''go.mod'' d3 = (Inr s, tick d3)"
    using assms(5) t3 by (intro ReadFile_calm [OF assms(1)]) (simp_all add: direct_def parents_def managed_segments)
  show ?thesis
    using o j m g assms(4,6) by (simp add: upgrade_plan_def io_bind_def io_wrap_def io_lift_def)
qed

section \<open>A completed upgrade is complete\<close>

lemma decode_manifest_Inr:
  assumes "decode_manifest gen s = Inr project"
  shows "distinct (Modules project) \<and> list_all known_module (Modules project)"
  using assms ParseModules_Inr by (auto simp: decode_manifest_def split: sum.splits if_splits)

lemma stored_manifest_modules:
  "stored_manifest gen t = Inr project \<Longrightarrow> ParseModules (Modules project) = Inr (Modules project)"
  by (auto simp: stored_manifest_def split: option.splits node.splits
      dest!: decode_manifest_Inr intro!: ParseModules_known)

lemma stored_manifest_new:
  assumes "map_of t (segments metadataPath) = Some (Regular (metadata_text p))" "FrameworkVersion p = v"
    and "unmarshal gen (metadata_text p) = Inr (p\<lparr>FormatVersion := metadataFormatVersion\<rparr>)"
    and "ParseModules (Modules p) = Inr (Modules p)"
  shows "stored_manifest gen t = Inr (p\<lparr>FormatVersion := metadataFormatVersion\<rparr>)"
  using assms by (simp add: stored_manifest_def decode_manifest_def)

text \<open>
  C35. An upgrade that has been applied is complete: when \<open>Upgrade\<close> with \<open>apply\<close> has returned a result
  for an ASCII \<open>go.mod\<close>, running it again for the same version, with or without \<open>apply\<close> and with nothing
  failing, reports that there is nothing to change and leaves the directory as it is. (Decoding the
  JSON that was encoded is assumed to give the metadata back.)
\<close>

theorem Upgrade_idempotent:
  assumes "well_formed (tree d)" "Upgrade gen v True d = (Inr res, d1)"
    and "map_of (tree d) [''go.mod''] = Some (Regular s)" "list_all ascii s"
    and "stored_manifest gen (tree d) = Inr project"
    and "unmarshal gen (metadata_text (project\<lparr>FrameworkVersion := v\<rparr>)) =
      Inr (project\<lparr>FormatVersion := metadataFormatVersion, FrameworkVersion := v\<rparr>)"
    and "calm os"
  shows "\<exists>d2. Upgrade (gen\<lparr>gen_os := os\<rparr>) v again d1 = (Inr \<lparr>From = v, To = v, Changed = False\<rparr>, d2) \<and>
    tree d2 = tree d1"
proof -
  let ?gen = "gen\<lparr>gen_os := os\<rparr>" and ?p = "project\<lparr>FrameworkVersion := v\<rparr>"
  obtain project' current updated d0 where plan: "upgrade_plan gen v d = (Inr (project', current, updated), d0)"
    and run: "upgrade_write gen v True project' current updated d0 = (Inr res, d1)"
    using assms(2) by (auto simp: Upgrade_def io_bind_Inr)
  from plan assms(1) obtain s' where s': "validFrameworkVersion v" "same_disk d d0" "upgradable gen d"
    "stored_manifest gen (tree d) = Inr project'" "map_of (tree d) [''.wahoo''] = Some Directory"
    "map_of (tree d) [''go.mod''] = Some (Regular s')" "replaceFrameworkRequirement s' v = Inr (current, updated)"
    by (rule upgrade_plan_reads)
  then have eqs: "s' = s" "project' = project" using assms(3,5) by simp_all
  note s' = s' [unfolded eqs] and run = run [unfolded eqs]
  have t: "tree d0 = tree d" "root_dir d0 = root_dir d" using s'(2) by (simp_all add: same_disk_def)
  have same: "current = v \<longrightarrow> updated = s" using replaceFrameworkRequirement_same [OF s'(7)] by auto
  note st = upgrade_write_states [OF s'(6)[folded t] s'(7) s'(4)[folded t] s'(5)[folded t] same run, unfolded t]
  have up: "upgrading gen v (tree d) (tree d1)" using st upgrading_refl by (auto simp: evolves_def t)
  have gm: "map_of (tree d1) [''go.mod''] = Some (Regular updated)"
    using st s'(6,7) by (simp add: new_gomod_def)
  have off: "map_of (tree d1) q = map_of (tree d) q" if "q \<notin> set upgrade_paths" for q
    using up that by (simp add: upgrading_def)
  have "[''.wahoo''] \<notin> set upgrade_paths" "segments legacyManifestPath \<notin> set upgrade_paths" by code_simp+
  with off have dir: "map_of (tree d1) [''.wahoo''] = Some Directory"
    and leg: "map_of (tree d1) (segments legacyManifestPath) = map_of (tree d) (segments legacyManifestPath)"
    using s'(5) by simp_all
  have root: "root_dir d1 = RootDirectory" using st s'(3) t by (simp add: evolves_def upgradable_def)
  have word: "word v" "list_all ascii v" using validFrameworkVersion_word [OF s'(1)] by simp_all
  have rep: "replaceFrameworkRequirement updated v = Inr (v, updated)"
    using replaceFrameworkRequirement_replaced [OF assms(4) word s'(7)] by simp
  have "\<exists>project2. stored_manifest ?gen (tree d1) = Inr project2 \<and> FormatVersion project2 = metadataFormatVersion \<and>
      FrameworkVersion project2 = v \<and> (map_of (tree d1) (segments metadataPath) = None \<or>
      (\<exists>s. map_of (tree d1) (segments metadataPath) = Some (Regular s)))"
  proof (cases "FormatVersion project = metadataFormatVersion \<and> FrameworkVersion project = v")
    case True
    with st have m: "map_of (tree d1) (segments metadataPath) = map_of (tree d) (segments metadataPath)" by simp
    have dec: "decode_manifest ?gen = decode_manifest gen" by (rule ext) (simp add: decode_manifest_def)
    have "stored_manifest ?gen (tree d1) = stored_manifest gen (tree d)"
      unfolding stored_manifest_def m leg dec by (rule refl)
    with True s'(3,4) m show ?thesis by (simp add: upgradable_def)
  next
    case False
    with st s'(4) have m: "map_of (tree d1) (segments metadataPath) = Some (Regular (metadata_text ?p))"
      by (simp add: new_metadata_def)
    have "ParseModules (Modules ?p) = Inr (Modules ?p)" using stored_manifest_modules [OF s'(4)] by simp
    with m assms(6) have "stored_manifest ?gen (tree d1) = Inr (?p\<lparr>FormatVersion := metadataFormatVersion\<rparr>)"
      by (intro stored_manifest_new [where v = v]) simp_all
    with m show ?thesis by simp
  qed
  then obtain project2 where p2: "stored_manifest ?gen (tree d1) = Inr project2" "FormatVersion project2 = metadataFormatVersion"
    "FrameworkVersion project2 = v" "map_of (tree d1) (segments metadataPath) = None \<or>
      (\<exists>s. map_of (tree d1) (segments metadataPath) = Some (Regular s))" by blast
  have "upgradable ?gen d1"
    using root dir gm p2 leg s'(3) by (simp add: upgradable_def)
  with upgrade_plan_calm [of ?gen d1 project2 v updated v updated] assms(7) p2(1) s'(1) gm rep
  obtain d2 where plan2: "upgrade_plan ?gen v d1 = (Inr (project2, v, updated), d2)" by auto
  then have "tree d2 = tree d1" using readonlyD [OF readonly_upgrade_plan] by (auto simp: same_disk_def)
  moreover have "Upgrade ?gen v again d1 = (Inr \<lparr>From = v, To = v, Changed = False\<rparr>, d2)"
    using plan2 p2 by (simp add: Upgrade_def io_bind_def upgrade_write_def io_return_def)
  ultimately show ?thesis by blast
qed

text \<open>A project at version 0.3.0 for the witnesses.\<close>

definition demo_manifest :: "string \<Rightarrow> manifest" where
  "demo_manifest v = \<lparr>FormatVersion = 1, FrameworkVersion = v, Modules = [''auth'']\<rparr>"

definition demo_generator :: generator where
  "demo_generator = \<lparr>gen_os = \<lparr>follow = (\<lambda>t final p. Inl ENOENT), fault = (\<lambda>_. (None, None))\<rparr>,
     templates = [(''templates/modules/sse.go.tmpl'', ''package app // __MODULE__'')],
     unmarshal = (\<lambda>s. if s = metadata_text (demo_manifest ''v0.3.0'') then Inr (demo_manifest ''v0.3.0'')
       else if s = metadata_text (demo_manifest ''v0.4.0'') then Inr (demo_manifest ''v0.4.0'') else Inl ''bad JSON''),
     unicode = \<lparr>letter_or_digit = (\<lambda>_. False), to_lower = (\<lambda>u. u)\<rparr>\<rparr>"

definition demo_project :: disk where
  "demo_project = \<lparr>root_dir = RootDirectory,
     tree = [([''go.mod''], Regular (demo_gomod ''v0.3.0'')), ([''.wahoo''], Directory),
       ([''.wahoo'', ''project.json''], Regular (metadata_text (demo_manifest ''v0.3.0''))), ([''app''], Directory),
       ([''app'', ''routes.go''], Regular (''func routes() {'' @ [LF] @ moduleMarker @ ''}''))],
     trail = [], clock = 0\<rparr>"

lemma demo_well_formed: "well_formed (tree demo_project)"
  by code_simp

lemma demo_upgrade:
  "fst (Upgrade demo_generator ''v0.4.0'' True demo_project) = Inr \<lparr>From = ''v0.3.0'', To = ''v0.4.0'', Changed = True\<rparr>"
  by code_simp

theorem Upgrade_safe_states_witness:
  "map_of (tree (snd (Upgrade demo_generator ''v0.4.0'' True demo_project))) [''go.mod''] = Some (Regular (demo_gomod ''v0.4.0''))"
proof -
  have "replaceFrameworkRequirement (demo_gomod ''v0.3.0'') ''v0.4.0'' = Inr (''v0.3.0'', demo_gomod ''v0.4.0'')"
    by code_simp
  moreover have "map_of (tree demo_project) [''go.mod''] = Some (Regular (demo_gomod ''v0.3.0''))"
    by (simp add: demo_project_def)
  ultimately show ?thesis
    using Upgrade_safe_states [OF demo_well_formed prod.collapse [symmetric], of demo_generator "''v0.4.0''" True]
    unfolding demo_upgrade by simp blast
qed

theorem Upgrade_idempotent_witness:
  "\<exists>d. Upgrade demo_generator ''v0.4.0'' False (snd (Upgrade demo_generator ''v0.4.0'' True demo_project)) =
     (Inr \<lparr>From = ''v0.4.0'', To = ''v0.4.0'', Changed = False\<rparr>, d)"
proof -
  have run: "Upgrade demo_generator ''v0.4.0'' True demo_project =
      (Inr \<lparr>From = ''v0.3.0'', To = ''v0.4.0'', Changed = True\<rparr>, snd (Upgrade demo_generator ''v0.4.0'' True demo_project))"
    using demo_upgrade by (metis prod.collapse)
  have "map_of (tree demo_project) [''go.mod''] = Some (Regular (demo_gomod ''v0.3.0''))"
    by (simp add: demo_project_def)
  moreover have "list_all ascii (demo_gomod ''v0.3.0'')" by code_simp
  moreover have "stored_manifest demo_generator (tree demo_project) = Inr (demo_manifest ''v0.3.0'')" by code_simp
  moreover have "unmarshal demo_generator (metadata_text ((demo_manifest ''v0.3.0'')\<lparr>FrameworkVersion := ''v0.4.0''\<rparr>)) =
      Inr ((demo_manifest ''v0.3.0'')\<lparr>FormatVersion := metadataFormatVersion, FrameworkVersion := ''v0.4.0''\<rparr>)" by code_simp
  moreover have "calm (gen_os demo_generator)" by (simp add: calm_def demo_generator_def)
  ultimately have "\<exists>d2. Upgrade (demo_generator\<lparr>gen_os := gen_os demo_generator\<rparr>) ''v0.4.0'' False
      (snd (Upgrade demo_generator ''v0.4.0'' True demo_project)) = (Inr \<lparr>From = ''v0.4.0'', To = ''v0.4.0'', Changed = False\<rparr>, d2) \<and>
      tree d2 = tree (snd (Upgrade demo_generator ''v0.4.0'' True demo_project))"
    by (intro Upgrade_idempotent [OF demo_well_formed run])
  then show ?thesis by auto
qed

end
