(* ===== verification/Project_Growth.thy ===== *)
theory Project_Growth
  imports Project_Files
begin

text \<open>
  Adding to the project directory: \<open>MkdirAll\<close> and \<open>writeNewFile\<close> on paths without links create
  directories and the new file and touch nothing that is there, whatever fails.
\<close>

section \<open>Trees that have grown\<close>

text \<open>Only paths of \<open>N\<close> that were not there may differ, and none has become a link.\<close>

definition grown :: "path set \<Rightarrow> tree \<Rightarrow> tree \<Rightarrow> bool" where
  "grown N t0 t \<longleftrightarrow> (\<forall>q. map_of t q = map_of t0 q \<or> map_of t0 q = None \<and> q \<in> N \<and> \<not> is_symlink (map_of t q))"

named_theorems growth \<open>what grown trees keep\<close>

lemma grown_refl [simp]: "grown N t t"
  by (simp add: grown_def)

lemma grown_trans: "grown N t0 t1 \<Longrightarrow> grown N t1 t2 \<Longrightarrow> grown N t0 t2"
  unfolding grown_def by metis

lemma grown_mono: "grown N t0 t \<Longrightarrow> N \<subseteq> M \<Longrightarrow> grown M t0 t"
  unfolding grown_def by blast

lemma grown_Some [growth]: "grown N t0 t \<Longrightarrow> map_of t0 q = Some n \<Longrightarrow> map_of t q = Some n"
  unfolding grown_def by (metis option.distinct(1))

lemma grown_outside: "grown N t0 t \<Longrightarrow> q \<notin> N \<Longrightarrow> map_of t q = map_of t0 q"
  unfolding grown_def by blast

lemma grown_no_link [growth]: "grown N t0 t \<Longrightarrow> \<not> is_symlink (map_of t0 q) \<Longrightarrow> \<not> is_symlink (map_of t q)"
  unfolding grown_def by metis

lemma grown_update:
  "map_of t q = None \<Longrightarrow> q \<in> N \<Longrightarrow> \<not> is_symlink (Some n) \<Longrightarrow> grown N t (AList.update q n t)"
  by (simp add: grown_def update_conv')

lemma grown_evolves: "evolves (grown N t1) d d' \<Longrightarrow> grown N t0 t1 \<Longrightarrow> evolves (grown N t0) d d'"
  by (blast intro: evolves_mono grown_trans)

lemma evolves_tree: "evolves G d d' \<Longrightarrow> G (tree d) \<Longrightarrow> G (tree d')"
  by (auto simp: evolves_def)

lemma evolves_grown: "evolves (grown N (tree d)) d d' \<Longrightarrow> grown N (tree d) (tree d')"
  using evolves_tree [of "grown N (tree d)" d d'] by simp

lemma evolves_grown_trans:
  "evolves (grown N (tree d)) d d1 \<Longrightarrow> evolves (grown N (tree d1)) d1 d2 \<Longrightarrow> evolves (grown N (tree d)) d d2"
  by (rule evolves_trans, assumption, rule grown_evolves, assumption, rule evolves_grown)

section \<open>Creating directories\<close>

lemma mkdir_from_grown:
  assumes "mkdir_from os base ss d = (r, d')"
    and "\<And>i. i < length ss \<Longrightarrow> \<not> is_symlink (map_of (tree d) (base @ take (Suc i) ss))"
    and "\<And>i. i < length ss \<Longrightarrow> base @ take (Suc i) ss \<in> N"
  shows "evolves (grown N (tree d)) d d' \<and>
    (r = Inr () \<longrightarrow> (\<forall>i < length ss. map_of (tree d') (base @ take (Suc i) ss) = Some Directory))"
  using assms
proof (induction ss arbitrary: base d)
  case Nil
  then show ?case by simp
next
  case (Cons s ss)
  let ?q = "base @ [s]"
  have nl: "\<not> is_symlink (map_of (tree d) ?q)" "?q \<in> N" using Cons.prems(2,3) [of 0] by simp_all
  have rest: "evolves (grown N (tree d)) d d' \<and>
      (r = Inr () \<longrightarrow> (\<forall>i < length (s # ss). map_of (tree d') (base @ take (Suc i) (s # ss)) = Some Directory))"
    if d1: "mkdir_from os ?q ss d1 = (r, d')" "map_of (tree d1) ?q = Some Directory"
      "grown N (tree d) (tree d1)" "evolves (grown N (tree d)) d d1" for d1
  proof -
    have "\<not> is_symlink (map_of (tree d1) (?q @ take (Suc i) ss)) \<and> ?q @ take (Suc i) ss \<in> N" if "i < length ss" for i
      using Cons.prems(2,3) [of "Suc i"] that grown_no_link [OF d1(3)] by auto
    then have ih: "evolves (grown N (tree d1)) d1 d' \<and>
        (r = Inr () \<longrightarrow> (\<forall>i < length ss. map_of (tree d') (?q @ take (Suc i) ss) = Some Directory))"
      by (intro Cons.IH [OF d1(1)]) blast+
    have g: "grown N (tree d1) (tree d')" using ih evolves_tree [of "grown N (tree d1)" d1 d'] by simp
    have "map_of (tree d') (base @ take (Suc i) (s # ss)) = Some Directory" if "r = Inr ()" "i < length (s # ss)" for i
      using ih that grown_Some [OF g d1(2)] by (cases i) simp_all
    moreover have "evolves (grown N (tree d)) d d'"
      using d1(3,4) ih grown_evolves evolves_trans by blast
    ultimately show ?thesis by blast
  qed
  show ?case
  proof (cases "map_of (tree d) ?q")
    case None
    let ?mk = "attempt os (\<lambda>d. (Inr (), put_tree (AList.update ?q Directory (tree d)) d)) :: (errno, unit) io"
    obtain r1 d1 where m: "?mk d = (r1, d1)" by fastforce
    then show ?thesis
    proof (rule attempt_cases)
      fix e
      assume "r1 = Inl (EOther e)" "d1 = tick d"
      with Cons.prems(1) None m show ?thesis by (auto simp: Let_def)
    next
      assume mk: "(Inr (), put_tree (AList.update ?q Directory (tree (tick d))) (tick d)) = (r1, d1)"
      then have d1: "d1 = put_tree (AList.update ?q Directory (tree d)) (tick d)" "r1 = Inr ()" by auto
      have g: "grown N (tree d) (AList.update ?q Directory (tree d))"
        using None nl(2) by (intro grown_update) (simp_all add: is_symlink_def)
      have "mkdir_from os ?q ss d1 = (r, d')" using Cons.prems(1) None m d1(2) by (simp add: Let_def)
      moreover have "map_of (tree d1) ?q = Some Directory" by (simp add: d1(1) update_conv')
      moreover have "grown N (tree d) (tree d1)" using g by (simp add: d1(1))
      moreover have "evolves (grown N (tree d)) d d1" using g by (simp add: d1(1) evolves_put_tick)
      ultimately show ?thesis by (rule rest)
    qed
  next
    case (Some n)
    show ?thesis
    proof (cases n)
      case Directory
      then have "mkdir_from os ?q ss d = (r, d')" using Cons.prems(1) Some by (simp add: Let_def)
      then show ?thesis by (rule rest) (simp_all add: Some Directory)
    qed (use nl Cons.prems(1) Some in \<open>auto simp: Let_def is_symlink_def\<close>)
  qed
qed

lemma MkdirAll_grown:
  assumes "MkdirAll os p d = (r, d')" "segments p = butlast q"
    and "\<And>x. x \<in> set (parents q) \<Longrightarrow> \<not> is_symlink (map_of (tree d) x)" "set (parents q) \<subseteq> N"
  shows "evolves (grown N (tree d)) d d' \<and> (r = Inr () \<longrightarrow> direct (tree d') q)"
proof -
  have i: "take (Suc i) (butlast q) \<in> set (parents q)" if "i < length (butlast q)" for i
    using that by (auto simp: parents_def take_butlast)
  have *: "\<exists>i < length (butlast q). x = take (Suc i) (butlast q)" if "x \<in> set (parents q)" for x
  proof -
    from that obtain k where k: "1 \<le> k" "k < length q" "x = take k q" by (auto simp: parents_def)
    then show ?thesis by (intro exI [of _ "k - 1"]) (simp add: take_butlast)
  qed
  have "mkdir_from os [] (butlast q) d = (r, d')" using assms(1,2) by (simp add: MkdirAll_def)
  then have "evolves (grown N (tree d)) d d' \<and>
      (r = Inr () \<longrightarrow> (\<forall>i < length (butlast q). map_of (tree d') ([] @ take (Suc i) (butlast q)) = Some Directory))"
    by (rule mkdir_from_grown) (use i assms(3,4) in auto)
  then show ?thesis using * by (force simp: direct_def list_all_iff)
qed

section \<open>Writing a new file\<close>

lemma grown_new_file:
  assumes "map_of t q = None" "q \<in> N" "\<forall>x. x \<noteq> q \<longrightarrow> map_of t' x = map_of t x" "\<not> is_symlink (map_of t' q)"
  shows "grown N t t'"
  using assms unfolding grown_def by metis

lemma writeNewFile_grown:
  assumes "direct (tree d) (segments p)" "segments p \<in> N" "writeNewFile os p data d = (r, d')"
  shows "evolves (grown N (tree d)) d d' \<and> (r = Inr () \<longrightarrow> map_of (tree d') (segments p) = Some (Regular data))"
proof -
  let ?P = "segments p" and ?G = "grown N (tree d)"
  obtain ro d1 where o: "OpenExcl os p d = (ro, d1)" by fastforce
  from this assms(1) show ?thesis
  proof (rule OpenExcl_direct [where G = ?G])
    fix e
    assume "ro = Inl e" "tree d1 = tree d" "evolves ?G d d1"
    with assms(3) o show ?thesis by (auto simp: writeNewFile_def)
  next
    assume ro: "ro = Inr ?P" "map_of (tree d) ?P = None"
      and d1: "d1 = put_tree (AList.update ?P (Regular []) (tree d)) (tick d)"
    have new: "grown N (tree d) t" if "\<forall>x. x \<noteq> ?P \<longrightarrow> map_of t x = map_of (tree d) x" "\<not> is_symlink (map_of t ?P)" for t
      using grown_new_file [OF ro(2) assms(2) that] .
    have e1: "evolves ?G d d1"
      unfolding d1 by (intro evolves_put_tick new) (simp_all add: update_conv' is_symlink_def)
    obtain n err d2 where w: "FileWrite os ?P data d1 = ((n, err), d2)" by (metis surj_pair)
    have "map_of (tree d1) ?P = Some (Regular [])" by (simp add: d1 update_conv')
    from FileWrite_tree [OF w this] obtain s where
      d2: "d2 = put_tree (AList.update ?P (Regular s) (tree d1)) (tick d1)" and full: "n = length data \<longrightarrow> s = data" by blast
    have g2: "grown N (tree d) (tree d2)"
      unfolding d2 by (intro new) (simp_all add: d1 update_conv' is_symlink_def)
    have off: "\<forall>x. x \<noteq> ?P \<longrightarrow> map_of (tree d2) x = map_of (tree d) x" by (simp add: d1 d2 update_conv')
    have e2: "evolves ?G d1 d2" using g2 unfolding d2 by (simp add: evolves_put_tick)
    obtain rc d3 where c: "CloseFile os d2 = (rc, d3)" by (metis surj_pair)
    have t3: "tree d3 = tree d2" and e3: "evolves ?G d2 d3" using CloseFile_tree [OF c] by blast+
    obtain rr d4 where rm: "Remove os p d3 = (rr, d4)" by (metis surj_pair)
    have "direct (tree d3) ?P"
    proof -
      have "direct (tree d3) ?P = direct (tree d) ?P"
        using off by (intro direct_cong) (metis t3 parents_strict less_irrefl)
      with assms(1) show ?thesis by simp
    qed
    with rm have e4: "evolves ?G d3 d4"
    proof (rule Remove_direct [where G = ?G])
      assume "d4 = put_tree (AList.delete ?P (tree d3)) (tick d3)"
      moreover have "?G (AList.delete ?P (tree d3))"
        using off by (intro new) (simp_all add: t3 delete_conv' is_symlink_def)
      ultimately show ?thesis by (simp add: evolves_put_tick)
    qed
    have e13: "evolves ?G d d3" using e1 e2 e3 evolves_trans by blast
    have "writeNewFile os p data d = (case err of
        Some e \<Rightarrow> (Inl e, d4)
      | None \<Rightarrow> if n \<noteq> length data then (Inl EShortWrite, d4)
          else case rc of Inl e \<Rightarrow> (Inl e, d4) | Inr _ \<Rightarrow> (Inr (), d3))"
      by (simp add: writeNewFile_def o ro(1) w c rm split: option.split sum.split)
    then have "r \<in> range Inl \<and> d' = d4 \<or> r = Inr () \<and> d' = d3 \<and> n = length data"
      using assms(3) by (simp split: option.splits if_splits sum.splits)
    then show ?thesis
    proof
      assume "r \<in> range Inl \<and> d' = d4"
      with e13 e4 show ?thesis by (auto intro: evolves_trans)
    next
      assume "r = Inr () \<and> d' = d3 \<and> n = length data"
      with e13 full show ?thesis by (simp add: t3 d2 update_conv')
    qed
  qed
qed

end
