(* ===== verification/Scaffold_Add.thy ===== *)
theory Scaffold_Add
  imports Scaffold_Upgrade Project_Growth
begin

text \<open>
  What \<open>Add\<close> does to a project: it never overwrites anything but the routes and the metadata, whatever
  fails, the metadata lists a module only when the module is installed, and what a completed \<open>Add\<close> has put
  where.
\<close>

section \<open>The module table\<close>

text \<open>\<open>filepath.Dir\<close> of a target is the path without its last element.\<close>

definition good_target :: "module_file \<Rightarrow> bool" where
  "good_target f \<longleftrightarrow> segments (dir_of (target_path f)) = butlast (segments (target_path f)) \<and>
     [] \<notin> set (segments (target_path f)) \<and>
     list_all (\<lambda>q. q \<notin> {segments routesPath, segments metadataPath})
       (segments (target_path f) # parents (segments (target_path f)))"

lemma module_files_good:
  assumes "f \<in> set (files (module_spec_of m))"
  shows "good_target f"
proof -
  have "list_all (\<lambda>(_, spec). list_all good_target (files spec)) moduleSpecs" by code_simp
  moreover obtain spec where "map_of moduleSpecs m = Some spec" "f \<in> set (files spec)"
    using assms by (auto simp: module_spec_of_def split: option.splits)
  ultimately show ?thesis by (auto simp: list_all_iff dest!: map_of_SomeD)
qed

text \<open>A registration is no part of a marker: after its first byte it has none of the marker's first.\<close>

lemma registration_shape:
  "registration (module_spec_of m) = [] \<or>
   (\<exists>r. registration (module_spec_of m) = TAB # CHR ''r'' # r \<and> TAB \<notin> set r)"
proof -
  have "list_all (\<lambda>(_, spec). registration spec = [] \<or>
      take 2 (registration spec) = [TAB, CHR ''r''] \<and> TAB \<notin> set (drop 2 (registration spec))) moduleSpecs" by code_simp
  then have "registration (module_spec_of m) = [] \<or>
      take 2 (registration (module_spec_of m)) = [TAB, CHR ''r''] \<and> TAB \<notin> set (drop 2 (registration (module_spec_of m)))"
    by (auto simp: module_spec_of_def list_all_iff split: option.splits dest!: map_of_SomeD)
  moreover have "x = TAB # CHR ''r'' # drop 2 x" if "take 2 x = [TAB, CHR ''r'']" for x :: string
    using append_take_drop_id [of 2 x] that by simp
  ultimately show ?thesis by blast
qed

section \<open>Registrations in the routes\<close>

text \<open>The routes with the registrations of the modules, in order, in front of the marker.\<close>

definition registered_routes :: "string list \<Rightarrow> string \<Rightarrow> string" where
  "registered_routes ms s = (case index_of moduleMarker s of
       None \<Rightarrow> s
     | Some i \<Rightarrow> take i s @ concat (map (\<lambda>m. registration (module_spec_of m)) ms) @ drop i s)"

lemma marker_shape: "moduleMarker = TAB # CHR ''/'' # tl (tl moduleMarker)" "TAB \<notin> set (tl moduleMarker)"
  by (code_simp, code_simp)

lemma index_of_least: "index_of sub s = Some i \<Longrightarrow> k < i \<Longrightarrow> \<not> prefix sub (drop k s)"
proof (induction s arbitrary: i k)
  case (Cons c r)
  then show ?case by (cases k) (auto split: if_splits)
qed (simp split: if_splits)

lemma index_of_Least: "prefix sub (drop i s) \<Longrightarrow> i \<le> length s \<Longrightarrow> (\<And>k. k < i \<Longrightarrow> \<not> prefix sub (drop k s)) \<Longrightarrow> index_of sub s = Some i"
proof (induction s arbitrary: i)
  case (Cons c r)
  show ?case
  proof (cases i)
    case (Suc j)
    have "\<not> prefix sub (drop k r)" if "k < j" for k using Cons.prems(3) [of "Suc k"] that Suc by simp
    then have "index_of sub r = Some j" using Cons Suc by simp
    moreover have "\<not> prefix sub (c # r)" using Cons.prems(3) [of 0] Suc by simp
    ultimately show ?thesis using Suc by simp
  qed (use Cons in simp)
qed simp

text \<open>A further registration leaves the marker the first one.\<close>

lemma marker_after_registration:
  assumes "index_of moduleMarker s = Some i" "TAB \<notin> set r"
  shows "index_of moduleMarker (take i s @ TAB # CHR ''r'' # r @ drop i s) = Some (i + length r + 2)"
proof (rule index_of_Least)
  let ?s' = "take i s @ TAB # CHR ''r'' # r @ drop i s"
  have i: "i \<le> length s" using index_of_le [OF assms(1)] by simp
  have "drop i s = moduleMarker @ drop (i + length moduleMarker) s"
    using index_of_Some [OF assms(1)] i by (metis add_diff_cancel_left' append_eq_conv_conj append_take_drop_id drop_drop length_take min.absorb2)
  then show "prefix moduleMarker (drop (i + length r + 2) ?s')" using i by simp
  show "i + length r + 2 \<le> length ?s'" using i by simp
  fix k assume k: "k < i + length r + 2"
  show "\<not> prefix moduleMarker (drop k ?s')"
  proof
    assume p: "prefix moduleMarker (drop k ?s')"
    consider "k < i" | "k = i" | "k = Suc i" | "i + 2 \<le> k" by linarith
    then show False
    proof cases
      case 1
      show False
      proof (cases "k + length moduleMarker \<le> i")
        case True
        then have "take (length moduleMarker) (drop k ?s') = take (length moduleMarker) (drop k s)"
          using i by (simp add: drop_take)
        with p have "prefix moduleMarker (drop k s)" by (metis prefix_def take_is_prefix append_eq_conv_conj)
        with index_of_least [OF assms(1) 1] show False by simp
      next
        case False
        obtain zs where "drop k ?s' = moduleMarker @ zs" using p by (auto simp only: prefix_def)
        moreover have "i - k < length moduleMarker" using False 1 by linarith
        ultimately have "drop k ?s' ! (i - k) = moduleMarker ! (i - k)" by (simp only: nth_append if_True)
        moreover have "drop k ?s' ! (i - k) = TAB" using 1 i by (simp add: nth_append)
        moreover have "moduleMarker ! (i - k) \<in> set (tl moduleMarker)"
          using False 1 by (auto simp: in_set_conv_nth nth_tl Suc_diff_Suc intro!: exI [of _ "i - k - 1"])
        ultimately show False using marker_shape(2) by simp
      qed
    next
      case 2
      then have "prefix moduleMarker (TAB # CHR ''r'' # r @ drop i s)" using p i by simp
      then show False by (subst (asm) marker_shape(1)) simp
    next
      case 3
      then have "prefix moduleMarker (CHR ''r'' # r @ drop i s)" using p i by simp
      then show False by (subst (asm) marker_shape(1)) (simp add: TAB_def)
    next
      case 4
      then obtain j where "k = i + 2 + j" using le_Suc_ex by blast
      with k have j: "k = i + 2 + j" "j < length r" by simp_all
      have "drop k ?s' = drop j r @ drop i s" using i j(2) by (simp add: j(1))
      with p have "prefix moduleMarker (drop j r @ drop i s)" by simp
      moreover have ne: "drop j r \<noteq> []" using j(2) by simp
      ultimately have "hd (drop j r) = TAB" by (subst (asm) marker_shape(1)) (cases "drop j r"; simp)
      then show False using assms(2) ne by (metis in_set_dropD list.set_sel(1))
    qed
  qed
qed

lemma registered_routes_Nil [simp]: "registered_routes [] s = s"
  by (simp add: registered_routes_def split: option.split)

lemma registered_routes_Cons:
  fixes m :: string
  assumes "index_of moduleMarker s = Some i"
  defines "s' \<equiv> replace_first moduleMarker (registration (module_spec_of m) @ moduleMarker) s"
  shows "registered_routes (m # ms) s = registered_routes ms (if registration (module_spec_of m) \<noteq> [] then s' else s) \<and>
    index_of moduleMarker (if registration (module_spec_of m) \<noteq> [] then s' else s) \<noteq> None"
proof (cases "registration (module_spec_of m) = []")
  case False
  then obtain r where r: "registration (module_spec_of m) = TAB # CHR ''r'' # r" "TAB \<notin> set r"
    using registration_shape by blast
  have i: "i \<le> length s" using index_of_le [OF assms(1)] by simp
  have "drop i s = moduleMarker @ drop (i + length moduleMarker) s"
    using index_of_Some [OF assms(1)] i
    by (metis add_diff_cancel_left' append_eq_conv_conj append_take_drop_id drop_drop length_take min.absorb2)
  then have s': "s' = take i s @ TAB # CHR ''r'' # r @ drop i s"
    using assms(1) r(1) by (simp add: s'_def replace_first_def)
  have idx: "index_of moduleMarker s' = Some (i + length r + 2)"
    unfolding s' by (rule marker_after_registration [OF assms(1) r(2)])
  have "take (i + length r + 2) s' = take i s @ TAB # CHR ''r'' # r" "drop (i + length r + 2) s' = drop i s"
    using i by (simp_all add: s')
  with idx False assms(1) r(1) show ?thesis by (simp add: registered_routes_def)
qed (use assms(1) in \<open>simp add: registered_routes_def\<close>)

lemma fold_register_module:
  assumes "contains_sub s moduleMarker"
  shows "fold register_module ms (s, changed, project) =
    (registered_routes ms s, changed \<or> (\<exists>m \<in> set ms. registration (module_spec_of m) \<noteq> []),
     project\<lparr>Modules := Modules project @ ms\<rparr>)"
  using assms
proof (induction ms arbitrary: s changed project)
  case (Cons m ms)
  then obtain i where "index_of moduleMarker s = Some i" by (auto simp: contains_sub_def)
  from registered_routes_Cons [OF this, of m ms] Cons show ?case
    by (auto simp: register_module_def contains_sub_def)
qed simp

section \<open>What is to be added\<close>

record addition =
  new_modules :: "string list"
  new_files :: "(string \<times> string) list"
  new_routes :: string
  new_metadata :: string

text \<open>The targets of the modules with the rendered templates.\<close>

definition module_contents :: "generator \<Rightarrow> string \<Rightarrow> string \<Rightarrow> string list \<Rightarrow> (string \<times> string) list" where
  "module_contents gen modulePath appName ms = concat (map (\<lambda>m. map (\<lambda>f. (target_path f,
     renderTemplate (case map_of (templates gen) (template f) of Some s \<Rightarrow> s | None \<Rightarrow> []) modulePath appName [] []))
       (files (module_spec_of m))) ms)"

text \<open>What \<open>Add\<close> is to make of a project, as far as its files can be read.\<close>

definition addition_of :: "generator \<Rightarrow> string \<Rightarrow> string list \<Rightarrow> tree \<Rightarrow> addition option" where
  "addition_of gen base values t =
     (case (ParseModules values, stored_manifest gen t, map_of t (segments routesPath), map_of t [''go.mod'']) of
        (Inr ms, Inr project, Some (Regular routes), Some (Regular gomod)) \<Rightarrow>
          (case module_path gomod of
             None \<Rightarrow> None
           | Some modulePath \<Rightarrow>
               (let new = filter (\<lambda>m. m \<notin> set (Modules project)) ms;
                    version = (case replaceFrameworkRequirement gomod [] of Inr (v, _) \<Rightarrow> v | Inl _ \<Rightarrow> []) in
                Some \<lparr>new_modules = new,
                  new_files = module_contents gen modulePath (ProjectName (unicode gen) base) new,
                  new_routes = registered_routes new routes,
                  new_metadata = metadata_text (project\<lparr>Modules := Modules project @ new, FrameworkVersion := version\<rparr>)\<rparr>))
      | _ \<Rightarrow> None)"

definition installed :: "(string \<times> string) list \<Rightarrow> tree \<Rightarrow> bool" where
  "installed fs t \<longleftrightarrow> list_all (\<lambda>(p, s). map_of t (segments p) = Some (Regular s)) fs"

definition new_paths :: "addition \<Rightarrow> path list" where
  "new_paths a = concat (map (\<lambda>(p, _). segments p # parents (segments p)) (new_files a)) @
     [segments (temporary routesPath), segments (temporary metadataPath)]"

text \<open>Only new paths differ from the start, besides the routes and the metadata.\<close>

definition added :: "addition \<Rightarrow> tree \<Rightarrow> tree \<Rightarrow> bool" where
  "added a t0 t \<longleftrightarrow> (\<forall>q. q \<noteq> segments routesPath \<longrightarrow> q \<noteq> segments metadataPath \<longrightarrow>
     map_of t q = map_of t0 q \<or> map_of t0 q = None \<and> q \<in> set (new_paths a) \<and> \<not> is_symlink (map_of t q))"

text \<open>
  The states on the way: the routes and the metadata are old or new as a whole; the new routes are there only with the modules' files, the new metadata only
  with these and the new routes.
\<close>

definition adding :: "addition \<Rightarrow> tree \<Rightarrow> tree \<Rightarrow> bool" where
  "adding a t0 t \<longleftrightarrow> added a t0 t \<and>
     map_of t (segments routesPath) \<in> {map_of t0 (segments routesPath), Some (Regular (new_routes a))} \<and>
     map_of t (segments metadataPath) \<in> {map_of t0 (segments metadataPath), Some (Regular (new_metadata a))} \<and>
     (map_of t (segments routesPath) \<noteq> map_of t0 (segments routesPath) \<longrightarrow> installed (new_files a) t) \<and>
     (map_of t (segments metadataPath) \<noteq> map_of t0 (segments metadataPath) \<longrightarrow>
        installed (new_files a) t \<and> map_of t (segments routesPath) = Some (Regular (new_routes a)))"

section \<open>Checking the targets\<close>

lemma split_byte_sep: "split_byte sep (a @ sep # b) = split_byte sep a @ split_byte sep b"
proof (induction a)
  case (Cons c r)
  obtain q qs where "split_byte sep r = q # qs" by (cases "split_byte sep r") auto
  with Cons show ?case by simp
qed simp

lemma reject_parts_links:
  assumes "reject_parts os p parts d = (Inr (), d')" "well_formed (tree d)"
    and "\<forall>x \<in> set parts. x \<noteq> [] \<and> CHR ''/'' \<notin> set x"
    and "if p = [] then pre = [] else segments p = pre" "i < length parts"
  shows "\<not> is_symlink (map_of (tree d) (pre @ take (Suc i) parts))"
  using assms
proof (induction parts arbitrary: p pre d i)
  case (Cons part parts)
  let ?p = "if p = [] then part else p @ ''/'' @ part"
  have part: "part \<noteq> []" "CHR ''/'' \<notin> set part" using Cons.prems(3) by simp_all
  have seg: "segments ?p = pre @ [part]" "?p \<noteq> []"
    using Cons.prems(4) part by (auto simp: segments_def split_byte_sep split: if_splits)
  obtain r1 d1 where l: "Lstat os ?p d = (r1, d1)" by (metis surj_pair)
  have t: "tree d1 = tree d" using readonlyD [OF readonly_calls(3) l] by (simp add: same_disk_def)
  have *: "r1 = Inl ENOENT \<or> (\<exists>n. r1 = Inr n \<and> \<not> is_symlink (Some n))" "reject_parts os ?p parts d1 = (Inr (), d')"
    using Cons.prems(1) l by (auto simp: Let_def split: sum.splits if_splits)
  show ?case
  proof (cases i)
    case 0
    with Lstat_link [OF l Cons.prems(2) *(1)] seg show ?thesis by simp
  next
    case (Suc j)
    have "\<not> is_symlink (map_of (tree d1) ((pre @ [part]) @ take (Suc j) parts))"
      by (rule Cons.IH [OF *(2)]) (use Cons.prems seg t Suc in auto)
    then show ?thesis by (simp add: Suc t)
  qed
qed simp

text \<open>No part of the target's path is a link.\<close>

definition target_free :: "tree \<Rightarrow> module_file \<Rightarrow> bool" where
  "target_free t f \<longleftrightarrow> (\<forall>q \<in> set (parents (segments (target_path f))). \<not> is_symlink (map_of t q))"

lemma rejectTargetSymlinks_free:
  assumes "rejectTargetSymlinks os (target_path f) d = (Inr (), d')" "well_formed (tree d)" "good_target f"
  shows "target_free (tree d) f"
  unfolding target_free_def
proof
  let ?s = "segments (target_path f)"
  fix q assume "q \<in> set (parents ?s)"
  then obtain k where k: "1 \<le> k" "k < length ?s" "q = take k ?s" by (auto simp: parents_def)
  have "\<forall>x \<in> set ?s. x \<noteq> [] \<and> CHR ''/'' \<notin> set x"
    using assms(3) split_byte_no_sep by (auto simp: good_target_def segments_def)
  then have "\<not> is_symlink (map_of (tree d) ([] @ take (Suc (k - 1)) ?s))"
    by (rule reject_parts_links [OF assms(1) [unfolded rejectTargetSymlinks_def] assms(2)]) (use k in auto)
  then show "\<not> is_symlink (map_of (tree d) q)" using k by simp
qed

lemma Lstat_missing:
  assumes "Lstat os p d = (Inl ENOENT, d')" "well_formed (tree d)"
  shows "map_of (tree d) (segments p) = None"
proof (rule ccontr)
  assume n: "map_of (tree d) (segments p) \<noteq> None"
  then have "locate os (tree d) False (segments p) = Inr (segments p)"
    using well_formed_direct [OF assms(2)] by (intro locate_direct) simp
  with assms(1) n show False by (auto simp: Lstat_def attempt_def split: option.splits)
qed

text \<open>Nor is there anything at the target.\<close>

definition target_ok :: "tree \<Rightarrow> module_file \<Rightarrow> bool" where
  "target_ok t f \<longleftrightarrow> target_free t f \<and> map_of t (segments (target_path f)) = None"

lemma check_targets_ok:
  assumes "check_targets os m fs d = (Inr (), d')" "well_formed (tree d)" "\<forall>f \<in> set fs. good_target f"
  shows "list_all (target_ok (tree d)) fs"
  using assms
proof (induction fs arbitrary: d)
  case (Cons f fs)
  obtain r1 d1 where j: "rejectTargetSymlinks os (target_path f) d = (r1, d1)" by (metis surj_pair)
  obtain r2 d2 where l: "Lstat os (target_path f) d1 = (r2, d2)" by (metis surj_pair)
  have t: "tree d1 = tree d" "tree d2 = tree d"
    using readonlyD [OF readonly_target j] readonlyD [OF readonly_calls(3) l] by (simp_all add: same_disk_def)
  have *: "r1 = Inr ()" "r2 = Inl ENOENT" "check_targets os m fs d2 = (Inr (), d')"
    using Cons.prems(1) j l by (auto split: sum.splits if_splits)
  have "target_ok (tree d) f"
    using rejectTargetSymlinks_free [OF j [unfolded *(1)] Cons.prems(2)] Lstat_missing [OF l [unfolded *(2)]]
      Cons.prems(2,3) t by (simp add: target_ok_def)
  moreover have "list_all (target_ok (tree d2)) fs"
    by (rule Cons.IH [OF *(3)]) (use Cons.prems t in auto)
  ultimately show ?case by (simp add: t)
qed simp

lemma plan_additions_ok:
  assumes "plan_additions os present ms acc d = (Inr new, d')" "well_formed (tree d)"
  shows "new = acc @ filter (\<lambda>m. m \<notin> set present) ms \<and>
    (\<forall>m \<in> set ms - set present. list_all (target_ok (tree d)) (files (module_spec_of m)))"
  using assms
proof (induction ms arbitrary: acc d)
  case (Cons m ms)
  show ?case
  proof (cases "m \<in> set present")
    case True
    with Cons show ?thesis by auto
  next
    case False
    obtain r1 d1 where c: "check_targets os m (files (module_spec_of m)) d = (r1, d1)" by (metis surj_pair)
    have t: "tree d1 = tree d" using readonlyD [OF readonly_check c] by (simp add: same_disk_def)
    have *: "r1 = Inr ()" "plan_additions os present ms (acc @ [m]) d1 = (Inr new, d')"
      using Cons.prems(1) c False by (auto split: sum.splits)
    have "list_all (target_ok (tree d)) (files (module_spec_of m))"
      by (rule check_targets_ok [OF c [unfolded *(1)] Cons.prems(2)]) (use module_files_good in blast)
    with Cons.IH [OF *(2)] Cons.prems(2) False t show ?thesis by auto
  qed
qed simp

section \<open>What an addition reads\<close>

lemma add_plan_reads:
  assumes "add_plan gen values d = (Inr (project, routes, modulePath, new), d')" "well_formed (tree d)"
  obtains ms gomod where "same_disk d d'" "ParseModules values = Inr ms" "stored_manifest gen (tree d) = Inr project"
    "map_of (tree d) [''.wahoo''] = Some Directory" "map_of (tree d) [''app''] = Some Directory"
    "map_of (tree d) (segments routesPath) = Some (Regular routes)" "contains_sub routes moduleMarker"
    "map_of (tree d) [''go.mod''] = Some (Regular gomod)" "module_path gomod = Some modulePath"
    "new = filter (\<lambda>m. m \<notin> set (Modules project)) ms"
    "\<forall>m \<in> set new. list_all (target_ok (tree d)) (files (module_spec_of m))"
proof -
  have same: "same_disk d d'" using assms(1) readonly_add_plan readonlyD by blast
  obtain ms d1 d2 d3 d4 d5 where parse: "ParseModules values = Inr ms"
    and o: "open_project gen d = (Inr (), d1)"
    and j: "rejectManagedSymlinks (gen_os gen) managed_paths d1 = (Inr (), d2)"
    and m: "readManifest gen d2 = (Inr project, d3)"
    and rt: "ReadFile (gen_os gen) routesPath d3 = (Inr routes, d4)" "contains_sub routes moduleMarker"
    and g: "projectModulePath gen d4 = (Inr modulePath, d5)"
    and a: "plan_additions (gen_os gen) (Modules project) ms [] d5 = (Inr new, d')"
    using assms(1)
    by (auto simp: add_plan_def io_bind_Inr simp del: rejectManagedSymlinks.simps plan_additions.simps
        split: if_splits sum.splits)
  have t: "tree d1 = tree d" "tree d2 = tree d" "tree d3 = tree d" "tree d4 = tree d" "tree d5 = tree d"
    using readonlyD [OF readonly_open o] readonlyD [OF readonly_reject j] readonlyD [OF readonly_manifest m]
      readonlyD [OF readonly_calls(4) rt(1)] readonlyD [OF readonly_gomod(2) g]
    by (simp_all add: same_disk_def)
  have wf: "well_formed (tree d1)" using assms(2) t by simp
  note links = reject_no_links [OF j wf, unfolded t managed_paths_def]
  have nl: "\<not> is_symlink (map_of (tree d) [''.wahoo''])" "\<not> is_symlink (map_of (tree d) [''app''])"
    "\<not> is_symlink (map_of (tree d) (segments metadataPath))" "\<not> is_symlink (map_of (tree d) (segments routesPath))"
    "\<not> is_symlink (map_of (tree d) (segments legacyManifestPath))" "\<not> is_symlink (map_of (tree d) [''go.mod''])"
    using links [of "''.wahoo''"] links [of "''app''"] links [of metadataPath] links [of routesPath]
      links [of legacyManifestPath] links [of "''go.mod''"] by (simp_all add: managed_segments)
  have "plain (tree d) (segments metadataPath)" "plain (tree d) (segments legacyManifestPath)"
    and pr: "plain (tree d) (segments routesPath)"
    using nl plain_two [OF managed_segments(2)] plain_two [OF managed_segments(3)] plain_two [OF managed_segments(6)]
    by (simp_all add: managed_segments)
  with readManifest_stored [OF m] assms(2) t
  have st: "stored_manifest gen (tree d) = Inr project" "map_of (tree d) [''.wahoo''] = Some Directory" by simp_all
  have rts: "map_of (tree d) (segments routesPath) = Some (Regular routes)"
    using ReadFile_plain [OF rt(1)] pr t by simp
  then have app: "map_of (tree d) [''app''] = Some Directory"
    using well_formed_direct [OF assms(2), of "segments routesPath"]
    by (simp add: direct_def parents_def managed_segments)
  obtain gomod d6 where gm: "ReadFile (gen_os gen) ''go.mod'' d4 = (Inr gomod, d6)" "module_path gomod = Some modulePath"
    using g by (auto simp: projectModulePath_def io_bind_Inr split: option.splits)
  have "plain (tree d) (segments ''go.mod'')" using nl plain_one [OF managed_segments(4)] by simp
  with ReadFile_plain [OF gm(1)] t have go: "map_of (tree d) [''go.mod''] = Some (Regular gomod)"
    by (simp add: managed_segments)
  have "new = filter (\<lambda>m. m \<notin> set (Modules project)) ms \<and>
      (\<forall>m \<in> set ms - set (Modules project). list_all (target_ok (tree d)) (files (module_spec_of m)))"
    using plan_additions_ok [OF a] assms(2) t by simp
  then show thesis
    using that [OF same parse st app rts rt(2) go gm(2)] by auto
qed

section \<open>Installing the files\<close>

definition contents_ok :: "generator \<Rightarrow> string \<Rightarrow> string \<Rightarrow> module_file list \<Rightarrow> tree \<Rightarrow> bool" where
  "contents_ok gen mp app fs t \<longleftrightarrow> list_all (\<lambda>f. map_of t (segments (target_path f)) = Some (Regular
     (renderTemplate (case map_of (templates gen) (template f) of Some s \<Rightarrow> s | None \<Rightarrow> []) mp app [] []))) fs"

lemma contents_ok_grown: "grown N t t' \<Longrightarrow> contents_ok gen mp app fs t \<Longrightarrow> contents_ok gen mp app fs t'"
  by (auto simp: contents_ok_def list_all_iff intro: grown_Some)

definition file_paths :: "module_file list \<Rightarrow> path set" where
  "file_paths fs = (\<Union>f \<in> set fs. insert (segments (target_path f)) (set (parents (segments (target_path f)))))"

lemma target_free_grown: "grown N t t' \<Longrightarrow> target_free t f \<Longrightarrow> target_free t' f"
  by (auto simp: target_free_def dest: grown_no_link)

lemma io_wrap_run:
  assumes "io_wrap g m d = (r, d')"
  obtains r' where "m d = (r', d')" "\<forall>x. r = Inr x \<longleftrightarrow> r' = Inr x"
  using assms by (cases "m d") (auto simp: io_wrap_def split: sum.splits)

lemma install_files_grown:
  assumes "install_files gen mp app m fs d = (r, d')" "\<forall>f \<in> set fs. good_target f"
    and "list_all (target_free (tree d)) fs" "file_paths fs \<subseteq> N"
  shows "evolves (grown N (tree d)) d d' \<and> (r = Inr () \<longrightarrow> contents_ok gen mp app fs (tree d'))"
  using assms
proof (induction fs arbitrary: d)
  case Nil
  then show ?case by (simp add: contents_ok_def)
next
  case (Cons f fs)
  let ?q = "segments (target_path f)"
  have f: "segments (dir_of (target_path f)) = butlast ?q" "target_free (tree d) f" "set (parents ?q) \<subseteq> N" "?q \<in> N"
    using Cons.prems by (auto simp: good_target_def file_paths_def)
  show ?case
  proof (cases "map_of (templates gen) (template f)")
    case None
    with Cons.prems(1) show ?thesis by auto
  next
    case (Some data)
    let ?c = "renderTemplate data mp app [] []"
    from Cons.prems(1) Some have run: "io_bind (io_wrap (CreateModuleDir m) (MkdirAll (gen_os gen) (dir_of (target_path f)))) (\<lambda>_.
          io_bind (io_wrap (WriteModule m) (writeNewFile (gen_os gen) (target_path f) ?c)) (\<lambda>_.
          install_files gen mp app m fs)) d = (r, d')" by simp
    obtain r1 d1 where w1: "io_wrap (CreateModuleDir m) (MkdirAll (gen_os gen) (dir_of (target_path f))) d = (r1, d1)"
      by (metis surj_pair)
    then obtain r1' where m1: "MkdirAll (gen_os gen) (dir_of (target_path f)) d = (r1', d1)"
      "\<forall>x. r1 = Inr x \<longleftrightarrow> r1' = Inr x" by (rule io_wrap_run)
    have g1: "evolves (grown N (tree d)) d d1 \<and> (r1' = Inr () \<longrightarrow> direct (tree d1) ?q)"
      by (rule MkdirAll_grown [OF m1(1) f(1) _ f(3)]) (use f(2) in \<open>simp add: target_free_def\<close>)
    then have t1: "grown N (tree d) (tree d1)" by (simp add: evolves_grown)
    show ?thesis
    proof (cases "r1 = Inr ()")
      case False
      then obtain e where "r1 = Inl e" by (cases r1) auto
      with run w1 g1 show ?thesis by (auto simp: io_bind_def)
    next
      case True
      obtain r2 d2 where w2: "io_wrap (WriteModule m) (writeNewFile (gen_os gen) (target_path f) ?c) d1 = (r2, d2)"
        by (metis surj_pair)
      then obtain r2' where m2: "writeNewFile (gen_os gen) (target_path f) ?c d1 = (r2', d2)"
        "\<forall>x. r2 = Inr x \<longleftrightarrow> r2' = Inr x" by (rule io_wrap_run)
      have g2: "evolves (grown N (tree d1)) d1 d2 \<and> (r2' = Inr () \<longrightarrow> map_of (tree d2) ?q = Some (Regular ?c))"
        by (rule writeNewFile_grown [OF _ f(4) m2(1)]) (use g1 m1(2) True in simp)
      then have t2: "grown N (tree d1) (tree d2)" by (simp add: evolves_grown)
      have e2: "evolves (grown N (tree d)) d d2"
        by (rule evolves_grown_trans [OF conjunct1 [OF g1] conjunct1 [OF g2]])
      show ?thesis
      proof (cases "r2 = Inr ()")
        case False
        then obtain e where "r2 = Inl e" by (cases r2) auto
        with run w1 w2 True e2 show ?thesis by (auto simp: io_bind_def)
      next
        case ok: True
        have rest: "install_files gen mp app m fs d2 = (r, d')" using run w1 w2 True ok by (simp add: io_bind_def)
        have "list_all (target_free (tree d2)) fs"
          using Cons.prems(3) t1 t2 by (auto simp: list_all_iff intro: target_free_grown)
        then have ih: "evolves (grown N (tree d2)) d2 d' \<and> (r = Inr () \<longrightarrow> contents_ok gen mp app fs (tree d'))"
          by (intro Cons.IH [OF rest]) (use Cons.prems in \<open>auto simp: file_paths_def\<close>)
        have "map_of (tree d2) ?q = Some (Regular ?c)" using g2 m2(2) ok by simp
        then have "map_of (tree d') ?q = Some (Regular ?c)"
          by (rule grown_Some [OF evolves_grown [OF conjunct1 [OF ih]]])
        moreover have "evolves (grown N (tree d)) d d'"
          by (rule evolves_grown_trans [OF e2 conjunct1 [OF ih]])
        ultimately show ?thesis using conjunct2 [OF ih] Some by (simp add: contents_ok_def)
      qed
    qed
  qed
qed

definition all_files :: "string list \<Rightarrow> module_file list" where
  "all_files ms = concat (map (\<lambda>m. files (module_spec_of m)) ms)"

lemma install_grown:
  assumes "install gen mp app ms st d = (r, d')"
    and "list_all (target_free (tree d)) (all_files ms)" "file_paths (all_files ms) \<subseteq> N"
  shows "evolves (grown N (tree d)) d d' \<and>
    (\<forall>st'. r = Inr st' \<longrightarrow> st' = fold register_module ms st \<and> contents_ok gen mp app (all_files ms) (tree d'))"
  using assms
proof (induction ms arbitrary: st d)
  case Nil
  then show ?case by (auto simp: contents_ok_def all_files_def)
next
  case (Cons m ms)
  let ?fs = "files (module_spec_of m)"
  have all: "all_files (m # ms) = ?fs @ all_files ms" by (simp add: all_files_def)
  obtain r1 d1 where i: "install_files gen mp app m ?fs d = (r1, d1)" by (metis surj_pair)
  have g1: "evolves (grown N (tree d)) d d1 \<and> (r1 = Inr () \<longrightarrow> contents_ok gen mp app ?fs (tree d1))"
    by (rule install_files_grown [OF i]) (use Cons.prems module_files_good in \<open>auto simp: all file_paths_def\<close>)
  then have t1: "grown N (tree d) (tree d1)" by (simp add: evolves_grown)
  show ?case
  proof (cases r1)
    case (Inl e)
    with i Cons.prems(1) g1 show ?thesis by (auto simp: io_bind_def)
  next
    case (Inr u)
    then have rest: "install gen mp app ms (register_module m st) d1 = (r, d')"
      using i Cons.prems(1) by (simp add: io_bind_def)
    have "list_all (target_free (tree d1)) (all_files ms)"
      using Cons.prems(2) t1 by (auto simp: all list_all_iff intro: target_free_grown)
    then have ih: "evolves (grown N (tree d1)) d1 d' \<and>
        (\<forall>st'. r = Inr st' \<longrightarrow> st' = fold register_module ms (register_module m st) \<and>
           contents_ok gen mp app (all_files ms) (tree d'))"
      by (intro Cons.IH [OF rest]) (use Cons.prems in \<open>auto simp: all file_paths_def\<close>)
    have "contents_ok gen mp app ?fs (tree d1)" using conjunct2 [OF g1] Inr by simp
    then have "contents_ok gen mp app ?fs (tree d')"
      by (rule contents_ok_grown [OF evolves_grown [OF conjunct1 [OF ih]]])
    moreover have "evolves (grown N (tree d)) d d'"
      by (rule evolves_grown_trans [OF conjunct1 [OF g1] conjunct1 [OF ih]])
    ultimately show ?thesis using conjunct2 [OF ih] by (simp add: all contents_ok_def)
  qed
qed

section \<open>The states of an addition\<close>

lemma addingI:
  assumes "added a t0 t" "installed (new_files a) t"
    and "map_of t (segments routesPath) \<in> {map_of t0 (segments routesPath), Some (Regular (new_routes a))}"
    and "map_of t (segments metadataPath) = map_of t0 (segments metadataPath) \<or>
      map_of t (segments metadataPath) = Some (Regular (new_metadata a)) \<and>
      map_of t (segments routesPath) = Some (Regular (new_routes a))"
  shows "adding a t0 t"
  using assms by (auto simp: adding_def)

lemma replaced_other:
  "replaced t1 p data t \<Longrightarrow> q \<noteq> segments p \<Longrightarrow>
   map_of t q = map_of t1 q \<or> map_of t1 q = None \<and> q = segments (temporary p) \<and> \<not> is_symlink (map_of t q)"
  unfolding replaced_def by (cases "q = segments (temporary p)") (auto split: option.splits)

lemma added_replaced:
  assumes "added a t0 t1" "replaced t1 p data t" "p \<in> {routesPath, metadataPath}"
  shows "added a t0 t"
  unfolding added_def
proof (intro allI impI)
  fix q assume q: "q \<noteq> segments routesPath" "q \<noteq> segments metadataPath"
  then have 1: "map_of t1 q = map_of t0 q \<or> map_of t0 q = None \<and> q \<in> set (new_paths a) \<and> \<not> is_symlink (map_of t1 q)"
    using assms(1) by (simp add: added_def)
  have "q \<noteq> segments p" using q assms(3) by auto
  from replaced_other [OF assms(2) this] show
    "map_of t q = map_of t0 q \<or> map_of t0 q = None \<and> q \<in> set (new_paths a) \<and> \<not> is_symlink (map_of t q)"
  proof
    assume "map_of t q = map_of t1 q"
    with 1 show ?thesis by simp
  next
    assume n: "map_of t1 q = None \<and> q = segments (temporary p) \<and> \<not> is_symlink (map_of t q)"
    moreover have "q \<in> set (new_paths a)" using n assms(3) by (auto simp: new_paths_def)
    moreover have "map_of t0 q = None" using 1 n by auto
    ultimately show ?thesis by blast
  qed
qed

lemma installed_replaced:
  assumes "installed fs t1" "replaced t1 p data t" "segments p \<notin> (\<lambda>(q, _). segments q) ` set fs"
  shows "installed fs t"
  unfolding installed_def list_all_iff
proof
  fix x assume x: "x \<in> set fs"
  obtain q s where [simp]: "x = (q, s)" by (cases x)
  have "map_of t1 (segments q) = Some (Regular s)" using assms(1) x by (auto simp: installed_def list_all_iff)
  moreover have "segments q \<noteq> segments p" using assms(3) x by force
  ultimately show "case x of (p, s) \<Rightarrow> map_of t (segments p) = Some (Regular s)"
    using replaced_other [OF assms(2), of "segments q"] by auto
qed

lemma project_paths_apart:
  "segments metadataPath \<noteq> segments routesPath" "segments metadataPath \<noteq> segments (temporary routesPath)"
  "segments routesPath \<noteq> segments (temporary metadataPath)"
  by (code_simp, code_simp, code_simp)

lemma replaced_meta: "replaced t1 routesPath data t \<Longrightarrow> map_of t (segments metadataPath) = map_of t1 (segments metadataPath)"
  and replaced_routes: "replaced t1 metadataPath data t \<Longrightarrow> map_of t (segments routesPath) = map_of t1 (segments routesPath)"
  using project_paths_apart by (auto simp: replaced_def)

text \<open>Writing the routes, and then the metadata.\<close>

lemma write_routes_states:
  assumes "writeAtomic os routesPath (new_routes a) d = (r, d')" "map_of (tree d) [''app''] = Some Directory"
    and "added a t0 (tree d)" "installed (new_files a) (tree d)"
    and "segments routesPath \<notin> (\<lambda>(q, _). segments q) ` set (new_files a)"
    and "map_of (tree d) (segments routesPath) = map_of t0 (segments routesPath)"
    and "map_of (tree d) (segments metadataPath) = map_of t0 (segments metadataPath)"
  shows "evolves (adding a t0) d d' \<and> (r = Inr () \<longrightarrow> added a t0 (tree d') \<and> installed (new_files a) (tree d') \<and>
    map_of (tree d') (segments routesPath) = Some (Regular (new_routes a)) \<and>
    map_of (tree d') (segments metadataPath) = map_of t0 (segments metadataPath))"
proof -
  have "direct (tree d) (segments routesPath)" using assms(2) by (simp add: direct_def parents_def managed_segments)
  note rep = writeAtomic_replaces [OF this assms(1)]
  have *: "added a t0 t \<and> installed (new_files a) t \<and> map_of t (segments metadataPath) = map_of t0 (segments metadataPath) \<and>
      map_of t (segments routesPath) \<in> {map_of t0 (segments routesPath), Some (Regular (new_routes a))}"
    if "replaced (tree d) routesPath (new_routes a) t" for t
    using added_replaced [OF assms(3) that] installed_replaced [OF assms(4) that assms(5)] replaced_meta [OF that] assms(6,7) that
    by (simp add: replaced_def)
  have "evolves (adding a t0) d d'"
    by (rule evolves_mono [OF conjunct1 [OF rep]], rule addingI) (use * in blast)+
  moreover have "replaced (tree d) routesPath (new_routes a) (tree d')"
    by (rule evolves_tree [OF conjunct1 [OF rep]]) simp
  ultimately show ?thesis using * rep by auto
qed

lemma write_metadata_states:
  assumes "writeManifest gen project d = (r, d')" "metadata_text project = new_metadata a"
    and "map_of (tree d) [''.wahoo''] = Some Directory" "added a t0 (tree d)" "installed (new_files a) (tree d)"
    and "segments metadataPath \<notin> (\<lambda>(q, _). segments q) ` set (new_files a)"
    and "map_of (tree d) (segments routesPath) = Some (Regular (new_routes a))"
    and "map_of (tree d) (segments metadataPath) = map_of t0 (segments metadataPath)"
  shows "evolves (adding a t0) d d' \<and> (r = Inr () \<longrightarrow> installed (new_files a) (tree d') \<and>
    map_of (tree d') (segments routesPath) = Some (Regular (new_routes a)) \<and>
    map_of (tree d') (segments metadataPath) = Some (Regular (new_metadata a)))"
proof -
  from writeManifest_existing [OF assms(3,1)] obtain r' where
    w: "writeAtomic (gen_os gen) metadataPath (new_metadata a) d = (r', d')" "r = Inr () \<longleftrightarrow> r' = Inr ()"
    unfolding assms(2) by blast
  have "direct (tree d) (segments metadataPath)" using assms(3) by (simp add: direct_def parents_def managed_segments)
  note rep = writeAtomic_replaces [OF this w(1)]
  have *: "added a t0 t \<and> installed (new_files a) t \<and> map_of t (segments routesPath) = Some (Regular (new_routes a)) \<and>
      map_of t (segments metadataPath) \<in> {map_of t0 (segments metadataPath), Some (Regular (new_metadata a))}"
    if "replaced (tree d) metadataPath (new_metadata a) t" for t
    using added_replaced [OF assms(4) that] installed_replaced [OF assms(5) that assms(6)] replaced_routes [OF that] assms(7,8) that
    by (simp add: replaced_def)
  have "evolves (adding a t0) d d'"
    by (rule evolves_mono [OF conjunct1 [OF rep]], rule addingI) (use * in blast)+
  moreover have "replaced (tree d) metadataPath (new_metadata a) (tree d')"
    by (rule evolves_tree [OF conjunct1 [OF rep]]) simp
  ultimately show ?thesis using * rep w(2) by auto
qed

lemma frameworkDependencyVersion_reads:
  assumes "frameworkDependencyVersion gen d = (Inr v, d')" "map_of (tree d) [''go.mod''] = Some (Regular s)"
  shows "\<exists>s'. replaceFrameworkRequirement s [] = Inr (v, s')"
proof -
  obtain s1 d1 where r: "ReadFile (gen_os gen) ''go.mod'' d = (Inr s1, d1)" "\<exists>s'. replaceFrameworkRequirement s1 [] = Inr (v, s')"
    using assms(1) by (auto simp: frameworkDependencyVersion_def io_bind_Inr split: sum.splits)
  have "plain (tree d) (segments ''go.mod'')"
    using plain_one [OF managed_segments(4)] assms(2) by (simp add: is_symlink_def)
  from ReadFile_plain [OF r(1) this] assms(2) have "s1 = s" by (simp add: managed_segments)
  with r(2) show ?thesis by simp
qed

lemma module_contents_all:
  "module_contents gen mp app ms = map (\<lambda>f. (target_path f, renderTemplate
     (case map_of (templates gen) (template f) of Some s \<Rightarrow> s | None \<Rightarrow> []) mp app [] [])) (all_files ms)"
  by (simp add: module_contents_def all_files_def map_concat comp_def)

lemma file_paths_new: "new_files a = map (\<lambda>f. (target_path f, g f)) fs \<Longrightarrow> file_paths fs \<subseteq> set (new_paths a)"
  by (auto simp: new_paths_def file_paths_def)

lemma file_paths_apart: "segments routesPath \<notin> file_paths (all_files ms)" "segments metadataPath \<notin> file_paths (all_files ms)"
  using module_files_good by (fastforce simp: file_paths_def all_files_def good_target_def list_all_iff)+

text \<open>What a completed addition leaves.\<close>

definition completed :: "addition \<Rightarrow> tree \<Rightarrow> tree \<Rightarrow> bool" where
  "completed a t0 t \<longleftrightarrow> installed (new_files a) t \<and>
     map_of t (segments routesPath) = Some (Regular (new_routes a)) \<and>
     map_of t (segments metadataPath) =
       (if new_modules a = [] then map_of t0 (segments metadataPath) else Some (Regular (new_metadata a)))"

lemma add_write_states:
  assumes t0: "map_of (tree d) [''.wahoo''] = Some Directory" "map_of (tree d) [''app''] = Some Directory"
    "map_of (tree d) (segments routesPath) = Some (Regular routes)" "contains_sub routes moduleMarker"
    "map_of (tree d) [''go.mod''] = Some (Regular gomod)"
    and new: "\<forall>m \<in> set new. list_all (target_ok (tree d)) (files (module_spec_of m))"
    and a: "new_modules a = new" "new_routes a = registered_routes new routes"
    "new_files a = module_contents gen mp (ProjectName (unicode gen) base) new"
    "\<And>v s. replaceFrameworkRequirement gomod [] = Inr (v, s) \<Longrightarrow> new_metadata a =
       metadata_text (project\<lparr>Modules := Modules project @ new, FrameworkVersion := v\<rparr>)"
    and run: "add_write gen base project routes mp new d = (r, d')"
  shows "evolves (adding a (tree d)) d d' \<and> (r = Inr () \<longrightarrow> completed a (tree d) (tree d'))"
proof (cases "new = []")
  case True
  with run have "r = Inr ()" "d' = d" by (auto simp: add_write_def)
  then show ?thesis using True a t0(3) by (simp add: completed_def installed_def module_contents_def)
next
  case False
  let ?t0 = "tree d" and ?app = "ProjectName (unicode gen) base" and ?N = "file_paths (all_files new)"
  let ?ch = "\<exists>m \<in> set new. registration (module_spec_of m) \<noteq> []"
  let ?proj = "project\<lparr>Modules := Modules project @ new\<rparr>"
  define put_routes where "put_routes = (if ?ch then io_wrap WriteRoutes (writeAtomic (gen_os gen) routesPath (new_routes a)) else io_return ())"
  obtain ri d1 where i: "install gen mp ?app new (routes, False, project) d = (ri, d1)" by (metis surj_pair)
  have "list_all (target_free ?t0) (all_files new)" using new by (auto simp: all_files_def list_all_iff target_ok_def)
  from install_grown [OF i this order_refl]
  have g: "evolves (grown ?N ?t0) d d1" and finish: "\<And>st'. ri = Inr st' \<Longrightarrow>
      st' = (new_routes a, ?ch, ?proj) \<and> contents_ok gen mp ?app (all_files new) (tree d1)"
    by (simp_all add: fold_register_module [OF t0(4)] a(2))
  have sub: "?N \<subseteq> set (new_paths a)" by (rule file_paths_new [OF a(3) [unfolded module_contents_all]])
  have grown_added: "added a ?t0 t \<and> map_of t (segments routesPath) = map_of ?t0 (segments routesPath) \<and>
      map_of t (segments metadataPath) = map_of ?t0 (segments metadataPath)" if "grown ?N ?t0 t" for t
  proof (intro conjI)
    show "added a ?t0 t" using grown_mono [OF that sub] by (simp add: added_def grown_def)
  qed (rule grown_outside [OF that file_paths_apart(1)], rule grown_outside [OF that file_paths_apart(2)])
  have e1: "evolves (adding a ?t0) d d1"
  proof (rule evolves_mono [OF g])
    fix t assume "grown ?N ?t0 t"
    from grown_added [OF this] show "adding a ?t0 t" unfolding adding_def by blast
  qed
  have t1: "added a ?t0 (tree d1)" "map_of (tree d1) (segments routesPath) = map_of ?t0 (segments routesPath)"
    "map_of (tree d1) (segments metadataPath) = map_of ?t0 (segments metadataPath)"
    using grown_added [OF evolves_grown [OF g]] by blast+
  have apart: "segments routesPath \<notin> (\<lambda>(q, _). segments q) ` set (new_files a)"
    "segments metadataPath \<notin> (\<lambda>(q, _). segments q) ` set (new_files a)"
    using file_paths_apart [of new] by (auto simp: a(3) module_contents_all file_paths_def)
  show ?thesis
  proof (cases ri)
    case (Inl e)
    with run False i e1 show ?thesis by (auto simp: add_write_def io_bind_def)
  next
    case (Inr st)
    have inst: "installed (new_files a) (tree d1)"
      using finish [OF Inr] by (simp add: a(3) module_contents_all installed_def contents_ok_def list_all_iff)
    have run1: "io_bind put_routes (\<lambda>_. io_bind (frameworkDependencyVersion gen) (\<lambda>v.
        writeManifest gen (?proj\<lparr>FrameworkVersion := v\<rparr>))) d1 = (r, d')"
      using run False i finish [OF Inr] Inr by (simp add: add_write_def io_bind_def put_routes_def)
    obtain rw d2 where w: "put_routes d1 = (rw, d2)" by (metis surj_pair)
    have w2: "evolves (adding a ?t0) d1 d2 \<and> (rw = Inr () \<longrightarrow> added a ?t0 (tree d2) \<and> installed (new_files a) (tree d2) \<and>
        map_of (tree d2) (segments routesPath) = Some (Regular (new_routes a)) \<and>
        map_of (tree d2) (segments metadataPath) = map_of ?t0 (segments metadataPath))"
    proof (cases ?ch)
      case True
      with w have "io_wrap WriteRoutes (writeAtomic (gen_os gen) routesPath (new_routes a)) d1 = (rw, d2)"
        by (simp add: put_routes_def)
      then obtain rw' where wr: "writeAtomic (gen_os gen) routesPath (new_routes a) d1 = (rw', d2)"
        "\<forall>x. rw = Inr x \<longleftrightarrow> rw' = Inr x" by (rule io_wrap_run)
      have "map_of (tree d1) [''app''] = Some Directory" by (rule grown_Some [OF evolves_grown [OF g] t0(2)])
      from write_routes_states [OF wr(1) this t1(1) inst apart(1) t1(2,3)] wr(2) show ?thesis by simp
    next
      case False
      then have "concat (map (\<lambda>m. registration (module_spec_of m)) new) = []" by simp
      then have "registered_routes new routes = routes"
        by (simp only: registered_routes_def) (simp split: option.split)
      with w False t1 inst t0(3) a(2) show ?thesis by (simp add: put_routes_def)
    qed
    show ?thesis
    proof (cases "rw = Inr ()")
      case False
      then obtain e where "rw = Inl e" by (cases rw) auto
      with run1 w w2 e1 show ?thesis by (auto simp: io_bind_def intro: evolves_trans)
    next
      case True
      with run1 w have run2: "io_bind (frameworkDependencyVersion gen) (\<lambda>v.
          writeManifest gen (?proj\<lparr>FrameworkVersion := v\<rparr>)) d2 = (r, d')" by (simp add: io_bind_def)
      have e2: "evolves (adding a ?t0) d d2" by (rule evolves_trans [OF e1 conjunct1 [OF w2]])
      have t2: "added a ?t0 (tree d2)" "installed (new_files a) (tree d2)"
        "map_of (tree d2) (segments routesPath) = Some (Regular (new_routes a))"
        "map_of (tree d2) (segments metadataPath) = map_of ?t0 (segments metadataPath)"
        using w2 True by simp_all
      have keep: "map_of (tree d2) [x] = map_of ?t0 [x]" if "map_of ?t0 [x] \<noteq> None" for x
        using t2(1) that by (auto simp: added_def managed_segments)
      from run2 show ?thesis
      proof (cases rule: io_bind_cases)
        case (1 e)
        then have "same_disk d2 d'" using readonlyD [OF readonly_gomod(1)] by blast
        with 1 e2 show ?thesis by (auto simp: same_disk_def evolves_def)
      next
        case (2 v d3)
        have s3: "same_disk d2 d3" using readonlyD [OF readonly_gomod(1) 2(1)] .
        have "map_of (tree d2) [''go.mod''] = Some (Regular gomod)" using keep [of "''go.mod''"] t0(5) by simp
        with frameworkDependencyVersion_reads [OF 2(1)] a(4) have meta:
          "metadata_text (?proj\<lparr>FrameworkVersion := v\<rparr>) = new_metadata a" by auto
        have "map_of (tree d3) [''.wahoo''] = Some Directory"
          using keep [of "''.wahoo''"] t0(1) s3 by (simp add: same_disk_def)
        from write_metadata_states [OF 2(2) meta this, of ?t0] t2 apart(2) s3
        have "evolves (adding a ?t0) d3 d' \<and> (r = Inr () \<longrightarrow> completed a ?t0 (tree d'))"
          using False a(1) \<open>new \<noteq> []\<close> by (simp add: same_disk_def completed_def)
        moreover have "evolves (adding a ?t0) d d3" using e2 s3 by (auto simp: same_disk_def evolves_def)
        ultimately show ?thesis by (blast intro: evolves_trans)
      qed
    qed
  qed
qed

section \<open>The property\<close>

text \<open>
  C6. \<open>Add\<close> never overwrites and never lies: whatever fails and whenever the process dies, everything
  that was in the project is still there and unchanged, besides the routes and the metadata, which are
  old or new as a whole; nothing but the files and directories of the modules to add and two temporary
  files is new; the new routes, with the modules' registrations in order in front of the marker, are in
  place only when all files of these modules hold their rendered templates, and the new metadata, which
  lists the modules, only when the files and the routes do. When \<open>Add\<close> returns nil all of it is in place,
  or there was nothing to add.
\<close>

theorem Add_safe_states:
  assumes "well_formed (tree d)" "Add gen base values d = (r, d')"
  shows "case addition_of gen base values (tree d) of
      None \<Rightarrow> same_disk d d' \<and> r \<noteq> Inr ()
    | Some a \<Rightarrow> (\<exists>ts. trail d' = trail d @ ts \<and> list_all (adding a (tree d)) ts) \<and> adding a (tree d) (tree d') \<and>
        (r = Inr () \<longrightarrow> completed a (tree d) (tree d'))"
  using assms(2) unfolding Add_def
proof (cases rule: io_bind_cases)
  case (1 e)
  with readonlyD [OF readonly_add_plan] have "same_disk d d'" by blast
  moreover have "adding a (tree d) (tree d)" for a by (simp add: adding_def added_def)
  ultimately show ?thesis using 1 by (auto simp: same_disk_def split: option.split)
next
  case (2 x d1)
  obtain project routes mp new where x: "x = (project, routes, mp, new)" by (cases x)
  with 2 have plan: "add_plan gen values d = (Inr (project, routes, mp, new), d1)"
    and run: "add_write gen base project routes mp new d1 = (r, d')" by simp_all
  from plan assms(1) show ?thesis
  proof (rule add_plan_reads)
    fix ms gomod
    assume same: "same_disk d d1" and p: "ParseModules values = Inr ms" "stored_manifest gen (tree d) = Inr project"
      and t: "map_of (tree d) [''.wahoo''] = Some Directory" "map_of (tree d) [''app''] = Some Directory"
        "map_of (tree d) (segments routesPath) = Some (Regular routes)" "contains_sub routes moduleMarker"
        "map_of (tree d) [''go.mod''] = Some (Regular gomod)"
      and m: "module_path gomod = Some mp" "new = filter (\<lambda>m. m \<notin> set (Modules project)) ms"
        "\<forall>m \<in> set new. list_all (target_ok (tree d)) (files (module_spec_of m))"
    obtain a where a: "addition_of gen base values (tree d) = Some a" "new_modules a = new"
      "new_routes a = registered_routes new routes" "new_files a = module_contents gen mp (ProjectName (unicode gen) base) new"
      "\<And>v s. replaceFrameworkRequirement gomod [] = Inr (v, s) \<Longrightarrow> new_metadata a =
         metadata_text (project\<lparr>Modules := Modules project @ new, FrameworkVersion := v\<rparr>)"
      using p t m by (simp add: addition_of_def Let_def)
    have tr: "tree d1 = tree d" "trail d1 = trail d" "root_dir d1 = root_dir d" using same by (simp_all add: same_disk_def)
    have "evolves (adding a (tree d1)) d1 d' \<and> (r = Inr () \<longrightarrow> completed a (tree d1) (tree d'))"
      by (rule add_write_states [OF _ _ _ _ _ _ a(2-4) _ run]) (use t m a(5) tr in simp_all)
    moreover have "adding a (tree d) (tree d)" by (simp add: adding_def added_def)
    ultimately show ?thesis using a(1) tr by (auto simp: evolves_def)
  qed
qed

theorem Add_safe_states_witness:
  "map_of (tree (snd (Add demo_generator ''shop'' [''sse''] demo_project))) [''app'', ''sse.go''] =
     Some (Regular ''package app // m'')"
proof -
  let ?t = "tree demo_project" and ?a = "addition_of demo_generator ''shop'' [''sse''] (tree demo_project)"
  have "fst (Add demo_generator ''shop'' [''sse''] demo_project) = Inr ()" by code_simp
  then have run: "Add demo_generator ''shop'' [''sse''] demo_project =
      (Inr (), snd (Add demo_generator ''shop'' [''sse''] demo_project))" by (metis prod.collapse)
  have "map_option new_files ?a = Some [(''app/sse.go'', ''package app // m'')]" by code_simp
  then obtain a where a: "?a = Some a" "new_files a = [(''app/sse.go'', ''package app // m'')]" by auto
  have "segments ''app/sse.go'' = [''app'', ''sse.go'']" by code_simp
  with Add_safe_states [OF demo_well_formed run] a show ?thesis by (simp add: completed_def installed_def)
qed

end
