(* ===== verification/Scaffold_Recovery.thy ===== *)
theory Scaffold_Recovery
  imports Scaffold_Add
begin

text \<open>
  What \<open>Add\<close> and \<open>Upgrade\<close> make of a project in which an earlier run was interrupted: they refuse it and
  leave it as it is.
\<close>

section \<open>What an interrupted run leaves behind\<close>

lemma writeAtomic_leftover:
  assumes "direct (tree d) (segments p)" "map_of (tree d) (segments (temporary p)) \<noteq> None"
  shows "\<exists>e d'. writeAtomic os p data d = (Inl e, d') \<and> same_disk d d'"
proof -
  have "direct (tree d) (segments (temporary p))" using assms(1) by (simp add: direct_temporary)
  then have "locate os (tree (tick d)) False (segments (temporary p)) = Inr (segments (temporary p))"
    by (simp add: locate_direct)
  with assms(2) have "\<exists>e. OpenExcl os (temporary p) d = (Inl e, tick d)"
    by (auto simp: OpenExcl_def attempt_def split: option.split)
  then show ?thesis by (auto simp: writeAtomic_def)
qed

lemma leftover_segments:
  "segments (temporary ''go.mod'') = [''go.mod.wahoo.tmp'']" "segments ''go.mod'' = [''go.mod'']"
  "segments (temporary metadataPath) = [''.wahoo'', ''project.json.wahoo.tmp'']"
  "parents (segments metadataPath) = [[''.wahoo'']]" "direct t (segments ''go.mod'')"
proof -
  show gomod: "segments ''go.mod'' = [''go.mod'']" by code_simp
  then show "direct t (segments ''go.mod'')" by (simp add: direct_def parents_def)
qed code_simp+

lemma upgrade_write_gomod_leftover:
  assumes "map_of (tree d) [''go.mod.wahoo.tmp''] \<noteq> None" "current \<noteq> v"
  shows "\<exists>e d'. upgrade_write gen v True project current updated d = (Inl e, d') \<and> same_disk d d'"
  using writeAtomic_leftover [of d "''go.mod''" "gen_os gen" updated] assms leftover_segments
  by (auto simp: upgrade_write_def io_bind_def io_wrap_def)

text \<open>With only the metadata's temporary file left, \<open>go.mod\<close> may still be written before the failure.\<close>

definition only_gomod :: "string \<Rightarrow> disk \<Rightarrow> disk \<Rightarrow> bool" where
  "only_gomod updated d d' \<longleftrightarrow>
     (\<forall>q. q \<noteq> [''go.mod''] \<longrightarrow> q \<noteq> [''go.mod.wahoo.tmp''] \<longrightarrow> map_of (tree d') q = map_of (tree d) q) \<and>
     map_of (tree d') [''go.mod''] \<in> {map_of (tree d) [''go.mod''], Some (Regular updated)}"

lemma writeManifest_leftover:
  assumes "only_gomod updated d d1" "well_formed (tree d)" "map_of (tree d) [''.wahoo''] = Some Directory"
    and "map_of (tree d) [''.wahoo'', ''project.json.wahoo.tmp''] \<noteq> None"
  shows "\<exists>e d'. writeManifest gen project d1 = (Inl e, d') \<and> same_disk d1 d'"
proof -
  have "direct (tree d) (segments metadataPath)"
    using well_formed_direct [OF assms(2,4)] direct_temporary [of "tree d" metadataPath] by (simp add: leftover_segments)
  then have direct: "direct (tree d1) (segments metadataPath)"
    using direct_cong [of "segments metadataPath" "tree d1" "tree d"] assms(1)
    by (simp add: leftover_segments only_gomod_def)
  have there: "map_of (tree d1) (segments (temporary metadataPath)) \<noteq> None" "map_of (tree d1) [''.wahoo''] = Some Directory"
    using assms(1,3,4) by (simp_all add: only_gomod_def leftover_segments)
  obtain r d' where w: "writeManifest gen project d1 = (r, d')" by (metis surj_pair)
  with writeManifest_existing [OF there(2) w]
    writeAtomic_leftover [OF direct there(1), of "gen_os gen" "metadata_text project"]
  show ?thesis by (cases r) auto
qed

lemma upgrade_write_metadata_leftover:
  assumes "well_formed (tree d)" "map_of (tree d) [''.wahoo''] = Some Directory"
    and "map_of (tree d) [''.wahoo'', ''project.json.wahoo.tmp''] \<noteq> None" "FrameworkVersion project \<noteq> v"
  shows "\<exists>e d'. upgrade_write gen v True project current updated d = (Inl e, d') \<and> only_gomod updated d d'"
proof -
  obtain r d1 where w: "(if current \<noteq> v then io_wrap WriteGoMod (writeAtomic (gen_os gen) ''go.mod'' updated)
      else io_return ()) d = (r, d1)" by (metis surj_pair)
  have one: "only_gomod updated d d1"
  proof (cases "current = v")
    case False
    obtain r1 where "writeAtomic (gen_os gen) ''go.mod'' updated d = (r1, d1)"
      using w False by (auto simp: io_wrap_def split: prod.splits sum.splits)
    from writeAtomic_replaces [OF leftover_segments(5) this] show ?thesis
      by (auto simp: evolves_def replaced_def only_gomod_def leftover_segments)
  qed (use w in \<open>simp add: only_gomod_def io_return_def\<close>)
  from writeManifest_leftover [OF this assms(1-3)] obtain e d' where
    m: "writeManifest gen (project\<lparr>FrameworkVersion := v\<rparr>) d1 = (Inl e, d')" "same_disk d1 d'" by blast
  from one m(2) have "only_gomod updated d d'" by (simp add: only_gomod_def same_disk_def)
  with one w m(1) assms(4) show ?thesis
    by (cases r) (auto simp: upgrade_write_def io_bind_def)
qed

text \<open>
  C38. An upgrade that was interrupted cannot be completed: a run that dies between opening and renaming
  leaves its temporary file behind, which every later run opens exclusively. As long as nobody has removed
  it by hand, every later \<open>Upgrade\<close> to a version that needs that write fails: with the temporary file of
  \<open>go.mod\<close> left and another version in \<open>go.mod\<close>, nothing is changed; with that of the metadata left and
  another version in the metadata, \<open>go.mod\<close> and its temporary file may change, but the metadata does not,
  and its temporary file stays.
\<close>

theorem Upgrade_blocked_by_leftover:
  assumes "well_formed (tree d)" "map_of (tree d) [''go.mod''] = Some (Regular s)"
    and "replaceFrameworkRequirement s v = Inr (cur, s')" "stored_manifest gen (tree d) = Inr project"
  shows "(map_of (tree d) [''go.mod.wahoo.tmp''] \<noteq> None \<and> cur \<noteq> v \<longrightarrow>
      (\<exists>e d'. Upgrade gen v True d = (Inl e, d') \<and> same_disk d d')) \<and>
    (map_of (tree d) [''.wahoo'', ''project.json.wahoo.tmp''] \<noteq> None \<and> FrameworkVersion project \<noteq> v \<longrightarrow>
      (\<exists>e d'. Upgrade gen v True d = (Inl e, d') \<and>
        map_of (tree d') [''go.mod''] \<in> {Some (Regular s), Some (Regular s')} \<and>
        (\<forall>q. q \<noteq> [''go.mod''] \<longrightarrow> q \<noteq> [''go.mod.wahoo.tmp''] \<longrightarrow> map_of (tree d') q = map_of (tree d) q)))"
proof -
  obtain rp d1 where plan: "upgrade_plan gen v d = (rp, d1)" by (metis surj_pair)
  have same: "same_disk d d1" using readonlyD [OF readonly_upgrade_plan plan] .
  show ?thesis
  proof (cases rp)
    case (Inl e)
    with plan same assms(2) show ?thesis by (simp add: Upgrade_def io_bind_def same_disk_def)
  next
    case (Inr x)
    obtain project' current updated where x: "x = (project', current, updated)" by (cases x)
    from plan [unfolded Inr x] assms(1) obtain s1 where reads: "stored_manifest gen (tree d) = Inr project'"
      "map_of (tree d) [''.wahoo''] = Some Directory" "map_of (tree d) [''go.mod''] = Some (Regular s1)"
      "replaceFrameworkRequirement s1 v = Inr (current, updated)"
      by (rule upgrade_plan_reads)
    with assms(2-4) have read: "project' = project" "current = cur" "updated = s'" by simp_all
    have t: "tree d1 = tree d" using same by (simp add: same_disk_def)
    have run: "Upgrade gen v True d = upgrade_write gen v True project cur s' d1"
      using plan by (simp add: Upgrade_def io_bind_def Inr x read)
    show ?thesis
      unfolding run
    proof (intro conjI impI; elim conjE)
      assume "map_of (tree d) [''go.mod.wahoo.tmp''] \<noteq> None" "cur \<noteq> v"
      then obtain e d' where "upgrade_write gen v True project cur s' d1 = (Inl e, d')" "same_disk d1 d'"
        using upgrade_write_gomod_leftover [of d1 cur v gen project s'] t by metis
      with same_disk_trans [OF same]
      show "\<exists>e d'. upgrade_write gen v True project cur s' d1 = (Inl e, d') \<and> same_disk d d'" by blast
    next
      assume "map_of (tree d) [''.wahoo'', ''project.json.wahoo.tmp''] \<noteq> None" "FrameworkVersion project \<noteq> v"
      then obtain e d' where "upgrade_write gen v True project cur s' d1 = (Inl e, d')" "only_gomod s' d1 d'"
        using upgrade_write_metadata_leftover [of d1 project v gen cur s'] assms(1) reads(2) t by metis
      then show "\<exists>e d'. upgrade_write gen v True project cur s' d1 = (Inl e, d') \<and>
          map_of (tree d') [''go.mod''] \<in> {Some (Regular s), Some (Regular s')} \<and>
          (\<forall>q. q \<noteq> [''go.mod''] \<longrightarrow> q \<noteq> [''go.mod.wahoo.tmp''] \<longrightarrow> map_of (tree d') q = map_of (tree d) q)"
        unfolding only_gomod_def t assms(2) by blast
    qed
  qed
qed

text \<open>The directories that an upgrade of the project dies with after its first write of each file.\<close>

definition demo_interrupted :: disk where
  "demo_interrupted = demo_project\<lparr>tree := AList.update [''go.mod.wahoo.tmp''] (Regular []) (tree demo_project)\<rparr>"

definition demo_half_upgraded :: disk where
  "demo_half_upgraded = demo_project\<lparr>tree :=
     AList.update [''.wahoo'', ''project.json.wahoo.tmp''] (Regular [])
       (AList.update [''go.mod''] (Regular (demo_gomod ''v0.4.0'')) (tree demo_project))\<rparr>"

lemma demo_died:
  "let ts = trail (snd (Upgrade demo_generator ''v0.4.0'' True demo_project)) in
   list_all (\<lambda>d. list_ex (\<lambda>t. list_all (\<lambda>(q, n). map_of t q = Some n) (tree d) \<and> length t = length (tree d)) ts)
     [demo_interrupted, demo_half_upgraded]"
  by code_simp

lemma demo_died_facts:
  "well_formed (tree demo_interrupted)" "well_formed (tree demo_half_upgraded)"
  "replaceFrameworkRequirement (demo_gomod ''v0.3.0'') ''v0.5.0'' = Inr (''v0.3.0'', demo_gomod ''v0.5.0'')"
  "replaceFrameworkRequirement (demo_gomod ''v0.4.0'') ''v0.4.0'' = Inr (''v0.4.0'', demo_gomod ''v0.4.0'')"
  "stored_manifest demo_generator (tree demo_interrupted) = Inr (demo_manifest ''v0.3.0'')"
  "stored_manifest demo_generator (tree demo_half_upgraded) = Inr (demo_manifest ''v0.3.0'')"
  by (code_simp, code_simp, code_simp, code_simp, code_simp, code_simp)

theorem Upgrade_blocked_by_leftover_witness:
  "(\<exists>e d'. Upgrade demo_generator ''v0.5.0'' True demo_interrupted = (Inl e, d') \<and> same_disk demo_interrupted d') \<and>
   (\<exists>e d'. Upgrade demo_generator ''v0.4.0'' True demo_half_upgraded = (Inl e, d') \<and>
      map_of (tree d') [''.wahoo'', ''project.json''] = map_of (tree demo_project) [''.wahoo'', ''project.json''])"
proof
  have t: "map_of (tree demo_interrupted) [''go.mod.wahoo.tmp''] \<noteq> None"
    "map_of (tree demo_interrupted) [''go.mod''] = Some (Regular (demo_gomod ''v0.3.0''))"
    by (simp_all add: demo_interrupted_def demo_project_def)
  show "\<exists>e d'. Upgrade demo_generator ''v0.5.0'' True demo_interrupted = (Inl e, d') \<and> same_disk demo_interrupted d'"
    using Upgrade_blocked_by_leftover [OF demo_died_facts(1) t(2) demo_died_facts(3,5)] t(1) by simp
  have h: "map_of (tree demo_half_upgraded) [''.wahoo'', ''project.json.wahoo.tmp''] \<noteq> None"
    "map_of (tree demo_half_upgraded) [''go.mod''] = Some (Regular (demo_gomod ''v0.4.0''))"
    "map_of (tree demo_half_upgraded) [''.wahoo'', ''project.json''] = map_of (tree demo_project) [''.wahoo'', ''project.json'']"
    by (simp_all add: demo_half_upgraded_def demo_project_def)
  have "FrameworkVersion (demo_manifest ''v0.3.0'') \<noteq> ''v0.4.0''" by code_simp
  then obtain e d' where "Upgrade demo_generator ''v0.4.0'' True demo_half_upgraded = (Inl e, d')"
    "map_of (tree d') [''.wahoo'', ''project.json''] = map_of (tree demo_half_upgraded) [''.wahoo'', ''project.json'']"
    using Upgrade_blocked_by_leftover [OF demo_died_facts(2) h(2) demo_died_facts(4,6)] h(1) by auto
  with h(3) show "\<exists>e d'. Upgrade demo_generator ''v0.4.0'' True demo_half_upgraded = (Inl e, d') \<and>
      map_of (tree d') [''.wahoo'', ''project.json''] = map_of (tree demo_project) [''.wahoo'', ''project.json'']"
    by simp
qed

text \<open>
  C39. An interrupted \<open>Add\<close> cannot be repeated: a module's file that is there already, by another's hand or
  left by a run that died before the metadata was written, makes \<open>Add\<close> of that module fail, and it changes
  nothing.
\<close>

theorem Add_refuses_existing_target:
  assumes "well_formed (tree d)" "addition_of gen base values (tree d) = Some a"
    and "(p, s) \<in> set (new_files a)" "map_of (tree d) (segments p) \<noteq> None"
  shows "\<exists>e d'. Add gen base values d = (Inl e, d') \<and> same_disk d d'"
proof -
  obtain rp d1 where plan: "add_plan gen values d = (rp, d1)" by (metis surj_pair)
  have same: "same_disk d d1" using readonlyD [OF readonly_add_plan plan] .
  show ?thesis
  proof (cases rp)
    case (Inl e)
    with plan same show ?thesis by (simp add: Add_def io_bind_def)
  next
    case (Inr x)
    obtain project routes mp new where x: "x = (project, routes, mp, new)" by (cases x)
    from plan [unfolded Inr x] assms(1) show ?thesis
    proof (rule add_plan_reads)
      fix ms gomod
      assume r: "ParseModules values = Inr ms" "stored_manifest gen (tree d) = Inr project"
        "map_of (tree d) (segments routesPath) = Some (Regular routes)"
        "map_of (tree d) [''go.mod''] = Some (Regular gomod)" "module_path gomod = Some mp"
        "new = filter (\<lambda>m. m \<notin> set (Modules project)) ms"
        and ok: "\<forall>m \<in> set new. list_all (target_ok (tree d)) (files (module_spec_of m))"
      have "new_files a = module_contents gen mp (ProjectName (unicode gen) base) new"
        using assms(2) r by (auto simp: addition_of_def Let_def)
      then obtain f where "f \<in> set (all_files new)" "p = target_path f"
        using assms(3) by (auto simp: module_contents_all)
      with ok have "map_of (tree d) (segments p) = None"
        by (auto simp: all_files_def list_all_iff target_ok_def)
      with assms(4) show ?thesis by simp
    qed
  qed
qed

text \<open>The directory that an \<open>Add\<close> to the project dies with before its second file.\<close>

definition demo_half_added :: disk where
  "demo_half_added = demo_project\<lparr>tree := trail (snd (Add demo_generator ''shop'' [''sse''] demo_project)) ! 1\<rparr>"

theorem Add_refuses_existing_target_witness:
  "\<exists>e d'. Add demo_generator ''shop'' [''sse''] demo_half_added = (Inl e, d') \<and> same_disk demo_half_added d'"
proof -
  have "map_option new_files (addition_of demo_generator ''shop'' [''sse''] (tree demo_half_added)) =
      Some [(''app/sse.go'', ''package app // m'')]" by code_simp
  then obtain a where a: "addition_of demo_generator ''shop'' [''sse''] (tree demo_half_added) = Some a"
    "(''app/sse.go'', ''package app // m'') \<in> set (new_files a)" by auto
  moreover have "well_formed (tree demo_half_added)" "map_of (tree demo_half_added) (segments ''app/sse.go'') \<noteq> None"
    by code_simp+
  ultimately show ?thesis by (intro Add_refuses_existing_target)
qed

end
