(* ===== verification/Scaffold_Create.thy ===== *)
theory Scaffold_Create
  imports Scaffold_Add
begin

text \<open>
  What \<open>Create\<close> makes of an empty directory: the files of the templates, the metadata and the modules
  asked for, and nothing else.
\<close>

section \<open>Directories that hold given files\<close>

text \<open>\<open>extended fs t0 t\<close>: \<open>t\<close> is \<open>t0\<close> with the files \<open>fs\<close> and the directories they are in.\<close>

definition extended :: "(string \<times> string) list \<Rightarrow> tree \<Rightarrow> tree \<Rightarrow> bool" where
  "extended fs t0 t \<longleftrightarrow> (\<forall>q n. map_of t q = Some n \<longleftrightarrow> map_of t0 q = Some n \<or>
     (\<exists>(p, s) \<in> set fs. n = Regular s \<and> q = segments p \<or> n = Directory \<and> q \<in> set (parents (segments p))))"

abbreviation laid_out :: "(string \<times> string) list \<Rightarrow> tree \<Rightarrow> bool" where
  "laid_out fs \<equiv> extended fs []"

lemma extended_refl [simp]: "extended [] t t"
  by (simp add: extended_def)

lemma extended_append: "extended fs t0 t1 \<Longrightarrow> extended gs t1 t2 \<Longrightarrow> extended (fs @ gs) t0 t2"
  unfolding extended_def by (simp add: bex_Un)

lemma extended_no_link: "extended fs t0 t \<Longrightarrow> \<not> is_symlink (map_of t0 q) \<Longrightarrow> \<not> is_symlink (map_of t q)"
  by (auto simp: extended_def is_symlink_def split: option.splits node.splits)

lemma laid_out_no_link: "laid_out fs t \<Longrightarrow> \<not> is_symlink (map_of t q)"
  by (erule extended_no_link) (simp add: is_symlink_def del: map_of.simps(2))

lemma parents_trans: "x \<in> set (parents q) \<Longrightarrow> set (parents x) \<subseteq> set (parents q)"
  by (auto simp: parents_def min_def split: if_splits)

lemma laid_out_well_formed:
  assumes "laid_out fs t"
  shows "well_formed t"
  unfolding well_formed_def list_all_iff
proof
  fix x assume x: "x \<in> set t"
  obtain q n where [simp]: "x = (q, n)" by (cases x)
  from x obtain m where "map_of t q = Some m" using weak_map_of_SomeI [of q n t] by auto
  then obtain p s where p: "(p, s) \<in> set fs" "q = segments p \<or> q \<in> set (parents (segments p))"
    using assms by (auto simp: extended_def)
  then have "set (parents q) \<subseteq> set (parents (segments p))" using parents_trans by blast
  then have "map_of t y = Some Directory" if "y \<in> set (parents q)" for y
    using assms p(1) that by (auto simp: extended_def)
  then show "case x of (p, _) \<Rightarrow> direct t p" by (simp add: direct_def list_all_iff)
qed

lemma segments_inject [simp]: "segments p = segments q \<longleftrightarrow> p = q"
  by (metis join_split segments_def)

lemma laid_out_file:
  assumes "laid_out fs t" "map_of t (segments p) = Some (Regular s)"
  shows "(p, s) \<in> set fs"
  using assms by (auto simp: extended_def)

lemma laid_out_holds: "laid_out fs t \<Longrightarrow> (p, s) \<in> set fs \<Longrightarrow> map_of t (segments p) = Some (Regular s)"
  by (auto simp: extended_def)

lemma laid_out_lookup:
  assumes "laid_out fs t" "map_of t (segments p) = Some (Regular s)"
  shows "map_of fs p = Some s"
proof -
  have "p \<in> fst ` set fs" using laid_out_file [OF assms] by force
  then obtain s' where s': "map_of fs p = Some s'" by (cases "map_of fs p") (auto simp: map_of_eq_None_iff)
  then have "map_of t (segments p) = Some (Regular s')" using assms(1) map_of_SomeD [OF s'] by (auto simp: extended_def)
  with s' assms(2) show ?thesis by simp
qed

text \<open>A file with new contents.\<close>

definition overwrite :: "string \<Rightarrow> string \<Rightarrow> (string \<times> string) list \<Rightarrow> (string \<times> string) list" where
  "overwrite p s fs = map (\<lambda>(q, s'). (q, if q = p then s else s')) fs"

lemma set_overwrite: "(q, r) \<in> set (overwrite p s fs) \<longleftrightarrow> (\<exists>s'. (q, s') \<in> set fs \<and> r = (if q = p then s else s'))"
  by (force simp: overwrite_def)

lemma laid_out_overwrite:
  assumes "laid_out fs t" "map_of t (segments p) = Some (Regular s0)"
    and "map_of t' = (map_of t)(segments p \<mapsto> Regular s)"
  shows "laid_out (overwrite p s fs) t'"
proof -
  have no_parent: "segments p \<notin> set (parents (segments q))" if "(q, s') \<in> set fs" for q s'
  proof
    assume "segments p \<in> set (parents (segments q))"
    then have "map_of t (segments p) = Some Directory" using assms(1) that unfolding extended_def by blast
    with assms(2) show False by simp
  qed
  have p: "(p, s0) \<in> set fs" by (rule laid_out_file [OF assms(1,2)])
  show ?thesis
    unfolding extended_def
  proof (intro allI)
    fix q n
    have all: "map_of t q = Some n \<longleftrightarrow> (\<exists>(p, s) \<in> set fs. n = Regular s \<and> q = segments p \<or> n = Directory \<and> q \<in> set (parents (segments p)))"
      using assms(1) by (simp add: extended_def)
    show "map_of t' q = Some n \<longleftrightarrow> map_of [] q = Some n \<or> (\<exists>(p, s) \<in> set (overwrite p s fs).
        n = Regular s \<and> q = segments p \<or> n = Directory \<and> q \<in> set (parents (segments p)))"
    proof (cases "q = segments p")
      case True
      then show ?thesis using no_parent p by (auto simp: assms(3) Bex_def split_paired_Ex set_overwrite)
    next
      case False
      then show ?thesis using all by (fastforce simp: assms(3) Bex_def split_paired_Ex set_overwrite split: if_splits)
    qed
  qed
qed

section \<open>One file\<close>

lemma direct_grown: "grown N t t' \<Longrightarrow> direct t q \<Longrightarrow> direct t' q"
  by (auto simp: direct_def list_all_iff dest: grown_Some)

lemma evolves_root: "evolves G d d' \<Longrightarrow> root_dir d' = root_dir d"
  by (simp add: evolves_def)

text \<open>A new file in directories that are there or made for it.\<close>

lemma write_one:
  assumes "evolves (grown (set (parents (segments p))) (tree d)) d d1" "direct (tree d1) (segments p)"
    and "writeNewFile os p s d1 = (Inr (), d2)"
  shows "extended [(p, s)] (tree d) (tree d2) \<and> root_dir d2 = root_dir d"
proof -
  let ?q = "segments p"
  have g1: "grown (set (parents ?q)) (tree d) (tree d1)" using assms(1) by (rule evolves_grown)
  from writeNewFile_grown [OF assms(2) singletonI assms(3)]
  have e2: "evolves (grown {?q} (tree d1)) d1 d2" and P: "map_of (tree d2) ?q = Some (Regular s)" by simp_all
  then have g2: "grown {?q} (tree d1) (tree d2)" by (simp add: evolves_grown)
  have dirs: "map_of (tree d2) x = Some Directory" if "x \<in> set (parents ?q)" for x
    using direct_grown [OF g2 assms(2)] that by (simp add: direct_def list_all_iff)
  have other: "map_of (tree d2) x = map_of (tree d) x" if "x \<noteq> ?q" "x \<notin> set (parents ?q)" for x
    using that grown_outside [OF g1] grown_outside [OF g2] by simp
  have old: "map_of (tree d2) x = Some n" if "map_of (tree d) x = Some n" for x n
    using that grown_Some [OF g1] grown_Some [OF g2] by blast
  have "map_of (tree d2) x = Some n \<longleftrightarrow> map_of (tree d) x = Some n \<or>
      n = Regular s \<and> x = ?q \<or> n = Directory \<and> x \<in> set (parents ?q)" for x n
    using P dirs other old by (cases "x = ?q \<or> x \<in> set (parents ?q)") (auto dest: parents_strict)
  then show ?thesis
    using evolves_root [OF assms(1)] evolves_root [OF e2] by (simp add: extended_def)
qed


text \<open>A file replaced as a whole.\<close>

lemma writeAtomic_updates:
  assumes "direct (tree d) (segments p)" "writeAtomic os p s d = (Inr (), d')"
  shows "map_of (tree d') = (map_of (tree d))(segments p \<mapsto> Regular s) \<and> root_dir d' = root_dir d"
proof -
  let ?P = "segments p" and ?T = "segments (temporary p)"
  from writeAtomic_replaces [OF assms] have e: "evolves (replaced (tree d) p s) d d'"
    and P: "map_of (tree d') ?P = Some (Regular s)" "map_of (tree d') ?T = None" by simp_all
  have r: "replaced (tree d) p s (tree d')" by (rule evolves_tree [OF e]) simp
  then have "map_of (tree d) ?T = None" using P(2) by (auto simp: replaced_def split: option.splits)
  then have "map_of (tree d') x = ((map_of (tree d))(?P \<mapsto> Regular s)) x" for x
    using r P by (cases "x = ?P"; cases "x = ?T") (auto simp: replaced_def)
  then show ?thesis using evolves_root [OF e] by blast
qed

section \<open>The modules' files\<close>

definition file_contents :: "generator \<Rightarrow> string \<Rightarrow> string \<Rightarrow> module_file list \<Rightarrow> (string \<times> string) list" where
  "file_contents gen mp app fs = map (\<lambda>f. (target_path f, renderTemplate
     (case map_of (templates gen) (template f) of Some s \<Rightarrow> s | None \<Rightarrow> []) mp app [] [])) fs"

lemma install_files_extended:
  assumes "install_files gen mp app m fs d = (Inr (), d')" "\<forall>f \<in> set fs. good_target f"
    and "list_all (target_free (tree d)) fs"
  shows "extended (file_contents gen mp app fs) (tree d) (tree d') \<and> root_dir d' = root_dir d"
  using assms
proof (induction fs arbitrary: d)
  case (Cons f fs)
  let ?q = "segments (target_path f)"
  obtain data d1 d2 where data: "map_of (templates gen) (template f) = Some data"
    and k: "MkdirAll (gen_os gen) (dir_of (target_path f)) d = (Inr (), d1)"
    and w: "writeNewFile (gen_os gen) (target_path f) (renderTemplate data mp app [] []) d1 = (Inr (), d2)"
    and rest: "install_files gen mp app m fs d2 = (Inr (), d')"
    using Cons.prems(1) by (auto simp: io_bind_Inr split: option.splits)
  have f: "segments (dir_of (target_path f)) = butlast ?q" "target_free (tree d) f"
    using Cons.prems by (auto simp: good_target_def)
  have "evolves (grown (set (parents ?q)) (tree d)) d d1 \<and> direct (tree d1) ?q"
    using MkdirAll_grown [OF k f(1) _ order_refl] f(2) by (simp add: target_free_def)
  with write_one [OF _ _ w] have one: "extended [(target_path f, renderTemplate data mp app [] [])] (tree d) (tree d2)"
    "root_dir d2 = root_dir d" by blast+
  have "list_all (target_free (tree d2)) fs"
    using Cons.prems(3) extended_no_link [OF one(1)] by (auto simp: list_all_iff target_free_def)
  then have "extended (file_contents gen mp app fs) (tree d2) (tree d') \<and> root_dir d' = root_dir d2"
    by (intro Cons.IH [OF rest]) (use Cons.prems in auto)
  with one extended_append [OF one(1)] data show ?case by (simp add: file_contents_def)
qed (simp add: file_contents_def)

lemma install_extended:
  assumes "install gen mp app ms st d = (Inr st', d')" "list_all (target_free (tree d)) (all_files ms)"
  shows "extended (file_contents gen mp app (all_files ms)) (tree d) (tree d') \<and> root_dir d' = root_dir d \<and>
    st' = fold register_module ms st"
  using assms
proof (induction ms arbitrary: st d)
  case (Cons m ms)
  let ?fs = "files (module_spec_of m)"
  have all: "all_files (m # ms) = ?fs @ all_files ms" by (simp add: all_files_def)
  obtain d1 where i: "install_files gen mp app m ?fs d = (Inr (), d1)"
    and rest: "install gen mp app ms (register_module m st) d1 = (Inr st', d')"
    using Cons.prems(1) by (auto simp: io_bind_Inr)
  have one: "extended (file_contents gen mp app ?fs) (tree d) (tree d1)" "root_dir d1 = root_dir d"
    using install_files_extended [OF i] Cons.prems(2) module_files_good by (auto simp: all)
  have "list_all (target_free (tree d1)) (all_files ms)"
    using Cons.prems(2) extended_no_link [OF one(1)] by (auto simp: all list_all_iff target_free_def)
  from Cons.IH [OF rest this] one extended_append [OF one(1)] show ?case
    by (simp add: all file_contents_def)
qed (simp add: file_contents_def all_files_def)

section \<open>A completed addition\<close>

lemma add_write_result:
  assumes t0: "map_of (tree d) [''.wahoo''] = Some Directory" "map_of (tree d) [''app''] = Some Directory"
    "map_of (tree d) (segments routesPath) = Some (Regular routes)" "contains_sub routes moduleMarker"
    "map_of (tree d) [''go.mod''] = Some (Regular gomod)"
    and new: "\<forall>m \<in> set new. list_all (target_ok (tree d)) (files (module_spec_of m))" "new \<noteq> []"
    and run: "add_write gen base project routes mp new d = (Inr (), d')"
  shows "\<exists>t1 v s. extended (module_contents gen mp (ProjectName (unicode gen) base) new) (tree d) t1 \<and>
    replaceFrameworkRequirement gomod [] = Inr (v, s) \<and>
    map_of (tree d') = (map_of t1)(segments routesPath \<mapsto> Regular (registered_routes new routes),
      segments metadataPath \<mapsto> Regular (metadata_text (project\<lparr>Modules := Modules project @ new, FrameworkVersion := v\<rparr>)))"
proof -
  let ?app = "ProjectName (unicode gen) base" and ?ch = "\<exists>m \<in> set new. registration (module_spec_of m) \<noteq> []"
  let ?proj = "project\<lparr>Modules := Modules project @ new\<rparr>" and ?rs = "registered_routes new routes"
  have free: "list_all (target_free (tree d)) (all_files new)"
    using new by (auto simp: all_files_def list_all_iff target_ok_def)
  obtain st d1 d2 d3 v where i: "install gen mp ?app new (routes, False, project) d = (Inr st, d1)"
    and w: "(if fst (snd st) then writeAtomic (gen_os gen) routesPath (fst st) d1 = (Inr (), d2) else d2 = d1)"
    and v: "frameworkDependencyVersion gen d2 = (Inr v, d3)"
    and m: "writeManifest gen (snd (snd st)\<lparr>FrameworkVersion := v\<rparr>) d3 = (Inr (), d')"
    using run new(2) by (fastforce simp: add_write_def io_bind_Inr split: prod.splits if_splits)
  from install_extended [OF i free] have x: "extended (module_contents gen mp ?app new) (tree d) (tree d1)"
    and st: "st = (?rs, ?ch, ?proj)"
    by (simp_all add: fold_register_module [OF t0(4)] module_contents_all file_contents_def)
  have keep: "map_of (tree d1) q = Some n" if "map_of (tree d) q = Some n" for q n
    using x that by (auto simp: extended_def)
  have "direct (tree d1) (segments routesPath)"
    using keep [OF t0(2)] by (simp add: direct_def parents_def managed_segments)
  from writeAtomic_updates [OF this] w st keep [OF t0(3)]
  have t2: "map_of (tree d2) = (map_of (tree d1))(segments routesPath \<mapsto> Regular ?rs)"
  proof (cases ?ch)
    case False
    then have "concat (map (\<lambda>m. registration (module_spec_of m)) new) = []" by simp
    then have "?rs = routes" by (simp only: registered_routes_def) (simp split: option.split)
    with False w st keep [OF t0(3)] show ?thesis by (simp add: fun_upd_idem)
  qed (use w st in auto)
  have s3: "tree d3 = tree d2" using readonlyD [OF readonly_gomod(1) v] by (simp add: same_disk_def)
  have go: "map_of (tree d2) [''go.mod''] = Some (Regular gomod)" and dir: "map_of (tree d3) [''.wahoo''] = Some Directory"
    using keep [OF t0(5)] keep [OF t0(1)] by (simp_all add: s3 t2 managed_segments)
  have "writeAtomic (gen_os gen) metadataPath (metadata_text (?proj\<lparr>FrameworkVersion := v\<rparr>)) d3 = (Inr (), d')"
    using writeManifest_existing [OF dir m] by (auto simp: st)
  moreover have "direct (tree d3) (segments metadataPath)"
    using dir by (simp add: direct_def parents_def managed_segments)
  ultimately have "map_of (tree d') = (map_of (tree d3))(segments metadataPath \<mapsto>
      Regular (metadata_text (?proj\<lparr>FrameworkVersion := v\<rparr>)))" using writeAtomic_updates by blast
  with x t2 s3 frameworkDependencyVersion_reads [OF v go] show ?thesis by auto
qed


section \<open>The templates' files\<close>

definition core_target :: "string \<Rightarrow> string" where
  "core_target p = (let relative = trim_prefix ''templates/'' p in
     if suffix ''.tmpl'' relative then trim_suffix ''.tmpl'' relative else relative)"

definition core_files :: "string \<Rightarrow> string \<Rightarrow> string \<Rightarrow> string list \<Rightarrow> (string \<times> string) list \<Rightarrow> (string \<times> string) list" where
  "core_files module app replace ms ts =
     map (\<lambda>(p, data). (core_target p, renderTemplate data module app replace ms))
       (filter (\<lambda>(p, _). \<not> prefix ''modules/'' (trim_prefix ''templates/'' p)) ts)"

text \<open>Template paths as \<open>embed\<close> has them, none of which is in the place of the metadata.\<close>

definition placed :: "string \<Rightarrow> bool" where
  "placed p \<longleftrightarrow> list_all (\<lambda>s. s \<noteq> [] \<and> s \<noteq> ''.'' \<and> s \<noteq> ''..'') (segments p) \<and>
     segments metadataPath \<notin> set (segments p # parents (segments p))"

definition templates_placed :: "generator \<Rightarrow> bool" where
  "templates_placed gen \<longleftrightarrow> list_all (\<lambda>(p, _). placed p) (core_files [] [] [] [] (templates gen))"

lemma core_targets: "map fst (core_files module app replace ms ts) = map fst (core_files [] [] [] [] ts)"
  by (simp add: core_files_def comp_def case_prod_unfold)

lemma placed_targets: "list_all (placed \<circ> fst) fs \<longleftrightarrow> list_all placed (map fst fs)"
  by (simp add: list.pred_map)

lemma templates_placed_core:
  assumes "templates_placed gen"
  shows "list_all (placed \<circ> fst) (core_files module app replace ms (templates gen))"
  unfolding placed_targets core_targets [of module app replace ms]
  using assms by (simp add: templates_placed_def list_all_iff case_prod_unfold)

lemma segments_dir_of:
  assumes "placed p" "butlast (segments p) \<noteq> []"
  shows "segments (dir_of p) = butlast (segments p) \<and> dir_of p \<noteq> ''.''"
proof -
  have "\<forall>s \<in> set (butlast (segments p)). CHR ''/'' \<notin> set s"
    using split_byte_no_sep in_set_butlastD unfolding segments_def by fast
  then have s: "segments (dir_of p) = butlast (segments p)"
    using assms(2) by (simp add: dir_of_def segments_def split_byte_join)
  moreover have "segments ''.'' = [''.'']" by code_simp
  ultimately have "dir_of p = ''.'' \<Longrightarrow> ''.'' \<in> set (butlast (segments p))" by (metis list.set_intros(1))
  then have "dir_of p = ''.'' \<Longrightarrow> ''.'' \<in> set (segments p)" by (rule in_set_butlastD)
  with s assms(1) show ?thesis by (auto simp: placed_def list_all_iff)
qed

text \<open>The directory of a template's target, made if there is any.\<close>

lemma parent_made:
  assumes "(if dir_of p \<noteq> ''.'' then io_wrap g (MkdirAll os (dir_of p)) else io_return ()) d = (Inr (), d1)"
    and "placed p" "\<And>q. \<not> is_symlink (map_of (tree d) q)"
  shows "evolves (grown (set (parents (segments p))) (tree d)) d d1 \<and> direct (tree d1) (segments p)"
proof (cases "butlast (segments p) = []")
  case True
  then obtain x where "segments p = [x]" using segments_nonempty by (metis append_butlast_last_id append_Nil)
  moreover have "d1 = d" using assms(1) True by (simp add: dir_of_def)
  ultimately show ?thesis by (simp add: direct_def parents_def)
next
  case False
  note s = segments_dir_of [OF assms(2) False]
  then have "MkdirAll os (dir_of p) d = (Inr (), d1)" using assms(1) by simp
  from MkdirAll_grown [OF this conjunct1 [OF s] assms(3) order_refl] show ?thesis by simp
qed

lemma io_bind_unit:
  fixes m :: "('e, unit) io"
  shows "io_bind m f d = (Inr y, d') \<longleftrightarrow> (\<exists>d1. m d = (Inr (), d1) \<and> f () d1 = (Inr y, d'))"
  by (auto simp: io_bind_Inr)

lemma write_templates_core:
  "\<not> prefix ''modules/'' (trim_prefix ''templates/'' p) \<Longrightarrow>
   write_templates gen module app replace ms ((p, data) # ts) =
     io_bind (if dir_of (core_target p) \<noteq> ''.'' then io_wrap (CreateParent (dir_of (core_target p)))
       (MkdirAll (gen_os gen) (dir_of (core_target p))) else io_return ()) (\<lambda>_.
     io_bind (io_wrap (WriteTemplate (core_target p))
       (writeNewFile (gen_os gen) (core_target p) (renderTemplate data module app replace ms))) (\<lambda>_.
     write_templates gen module app replace ms ts))"
  by (simp add: core_target_def Let_def)

lemma write_templates_extended:
  assumes "write_templates gen module app replace ms ts d = (Inr (), d')"
    and "list_all (placed \<circ> fst) (core_files module app replace ms ts)" "\<And>q. \<not> is_symlink (map_of (tree d) q)"
  shows "extended (core_files module app replace ms ts) (tree d) (tree d') \<and> root_dir d' = root_dir d"
  using assms
proof (induction ts arbitrary: d)
  case (Cons x ts)
  obtain p data where [simp]: "x = (p, data)" by (cases x)
  show ?case
  proof (cases "prefix ''modules/'' (trim_prefix ''templates/'' p)")
    case True
    then have "core_files module app replace ms (x # ts) = core_files module app replace ms ts" by (simp add: core_files_def)
    with True Cons show ?thesis by simp
  next
    case False
    let ?p = "core_target p" and ?s = "renderTemplate data module app replace ms"
    have core: "core_files module app replace ms ((p, data) # ts) = (?p, ?s) # core_files module app replace ms ts"
      using False by (simp add: core_files_def)
    obtain d1 d2 where k: "(if dir_of ?p \<noteq> ''.'' then io_wrap (CreateParent (dir_of ?p)) (MkdirAll (gen_os gen) (dir_of ?p))
          else io_return ()) d = (Inr (), d1)"
      and w: "writeNewFile (gen_os gen) ?p ?s d1 = (Inr (), d2)"
      and rest: "write_templates gen module app replace ms ts d2 = (Inr (), d')"
      using Cons.prems(1) unfolding \<open>x = (p, data)\<close> write_templates_core [OF False] by (auto simp only: io_bind_unit io_wrap_Inr)
    have "placed ?p" using Cons.prems(2) by (simp add: core)
    from write_one [OF conjunct1 conjunct2 w] parent_made [OF k this Cons.prems(3)]
    have one: "extended [(?p, ?s)] (tree d) (tree d2)" "root_dir d2 = root_dir d" by blast+
    have "extended (core_files module app replace ms ts) (tree d2) (tree d') \<and> root_dir d' = root_dir d2"
      by (rule Cons.IH [OF rest]) (use Cons.prems(2,3) extended_no_link [OF one(1)] in \<open>auto simp: core\<close>)
    with one extended_append [OF one(1)] show ?thesis by (simp add: core)
  qed
qed (simp add: core_files_def)

section \<open>The metadata of a new project\<close>

lemma writeManifest_new:
  assumes "writeManifest gen project d = (Inr (), d')" "laid_out fs (tree d)"
    and "list_all (placed \<circ> fst) fs"
  shows "laid_out (fs @ [(metadataPath, metadata_text project)]) (tree d') \<and> root_dir d' = root_dir d"
proof -
  let ?M = "segments metadataPath"
  obtain d1 where k: "MkdirAll (gen_os gen) ''.wahoo'' d = (Inr (), d1)"
    and w: "writeAtomic (gen_os gen) metadataPath (metadata_text project) d1 = (Inr (), d')"
    using assms(1) by (auto simp: writeManifest_def metadata_text_def Let_def io_bind_Inr)
  have "segments ''.wahoo'' = butlast ?M" by (simp add: managed_segments)
  from MkdirAll_grown [OF k this laid_out_no_link [OF assms(2)] order_refl]
  have g: "grown (set (parents ?M)) (tree d) (tree d1)" and dir: "direct (tree d1) ?M" and root: "root_dir d1 = root_dir d"
    by (auto intro: evolves_grown dest: evolves_root)
  from writeAtomic_updates [OF dir w]
  have t: "map_of (tree d') = (map_of (tree d1))(?M \<mapsto> Regular (metadata_text project))" and root': "root_dir d' = root_dir d"
    using root by simp_all
  have ps: "set (parents ?M) = {[''.wahoo'']}" by (simp add: managed_segments parents_def)
  have none: "map_of (tree d) ?M = None"
  proof (rule ccontr)
    assume "map_of (tree d) ?M \<noteq> None"
    then obtain p s where "(p, s) \<in> set fs" "?M = segments p \<or> ?M \<in> set (parents (segments p))"
      using assms(2) by (auto simp: extended_def)
    with assms(3) show False by (auto simp: placed_def list_all_iff)
  qed
  have "extended [(metadataPath, metadata_text project)] (tree d) (tree d')"
    unfolding extended_def
  proof (intro allI)
    fix q n
    show "map_of (tree d') q = Some n \<longleftrightarrow> map_of (tree d) q = Some n \<or> (\<exists>(p, s) \<in> set [(metadataPath, metadata_text project)].
        n = Regular s \<and> q = segments p \<or> n = Directory \<and> q \<in> set (parents (segments p)))"
    proof (cases "q = ?M")
      case True
      then show ?thesis using none parents_strict [of q q] by (auto simp: t)
    next
      case M: False
      show ?thesis
      proof (cases "q \<in> set (parents ?M)")
        case True
        then have "map_of (tree d1) q = Some Directory" using dir by (simp add: direct_def list_all_iff)
        then show ?thesis using M True grown_Some [OF g, of q n] by (auto simp: t)
      next
        case False
        then show ?thesis using M grown_outside [OF g, of q] by (simp add: t)
      qed
    qed
  qed
  from extended_append [OF assms(2) this] root' show ?thesis by simp
qed


section \<open>The project as a list of files\<close>

definition new_project :: manifest where
  "new_project = \<lparr>FormatVersion = 0, FrameworkVersion = FrameworkVersion_new, Modules = []\<rparr>"

definition core_project :: "generator \<Rightarrow> string \<Rightarrow> string \<Rightarrow> string \<Rightarrow> string list \<Rightarrow> (string \<times> string) list" where
  "core_project gen base module fp ms =
     core_files module (ProjectName (unicode gen) base)
       (if fp \<noteq> [] then ''replace github.com/bjarneo/wahoo => '' @ fp else []) ms (templates gen) @
     [(metadataPath, metadata_text new_project)]"

text \<open>
  With modules: their files beside the core, their registrations in the routes, and they and the version
  \<open>go.mod\<close> requires in the metadata. No list where the templates make no project that modules can be
  added to.
\<close>

definition project_contents :: "generator \<Rightarrow> string \<Rightarrow> string \<Rightarrow> string \<Rightarrow> string list \<Rightarrow> (string \<times> string) list option" where
  "project_contents gen base module fp ms =
     (let core = core_project gen base module fp ms in
      if ms = [] then Some core
      else case (map_of core routesPath, map_of core ''go.mod'') of
        (Some routes, Some gomod) \<Rightarrow>
          (case (module_path gomod, replaceFrameworkRequirement gomod []) of
            (Some mp, Inr (v, _)) \<Rightarrow>
              Some (overwrite metadataPath (metadata_text (new_project\<lparr>Modules := ms, FrameworkVersion := v\<rparr>))
                (overwrite routesPath (registered_routes ms routes)
                  (core @ module_contents gen mp (ProjectName (unicode gen) base) ms)))
          | _ \<Rightarrow> None)
      | _ \<Rightarrow> None)"

lemma core_project_unfold:
  "core_project gen base module fp ms = core_files module (ProjectName (unicode gen) base)
     (if fp \<noteq> [] then ''replace github.com/bjarneo/wahoo => '' @ fp else []) ms (templates gen) @
     [(metadataPath, metadata_text new_project)]"
  by (simp add: core_project_def)

text \<open>What \<open>Add\<close> makes of a new project.\<close>

lemma Add_new_project:
  assumes "laid_out core (tree d)" "core = core_project gen base module fp ms" "ms \<noteq> []" "ParseModules ms = Inr ms"
    and "map_of (tree d) (segments metadataPath) = Some (Regular (metadata_text new_project))"
    and "unmarshal gen (metadata_text new_project) = Inr (new_project\<lparr>FormatVersion := metadataFormatVersion\<rparr>)"
    and "Add gen base ms d = (Inr (), d')"
  shows "\<exists>fs. project_contents gen base module fp ms = Some fs \<and> laid_out fs (tree d')"
proof -
  let ?p1 = "new_project\<lparr>FormatVersion := metadataFormatVersion\<rparr>" and ?app = "ProjectName (unicode gen) base"
  obtain project routes mp new d1 where plan: "add_plan gen ms d = (Inr (project, routes, mp, new), d1)"
    and run: "add_write gen base project routes mp new d1 = (Inr (), d')"
    using assms(7) by (auto simp: Add_def io_bind_Inr)
  have "ParseModules (Modules new_project) = Inr (Modules new_project)"
    by (intro ParseModules_known) (simp_all add: new_project_def)
  with stored_manifest_new [OF assms(5) _ assms(6)] have stored: "stored_manifest gen (tree d) = Inr ?p1" by blast
  from plan laid_out_well_formed [OF assms(1)] show ?thesis
  proof (rule add_plan_reads)
    fix ms' gomod
    assume same: "same_disk d d1" and p: "ParseModules ms = Inr ms'" "stored_manifest gen (tree d) = Inr project"
      and t: "map_of (tree d) [''.wahoo''] = Some Directory" "map_of (tree d) [''app''] = Some Directory"
        "map_of (tree d) (segments routesPath) = Some (Regular routes)" "contains_sub routes moduleMarker"
        "map_of (tree d) [''go.mod''] = Some (Regular gomod)" "module_path gomod = Some mp"
        "new = filter (\<lambda>m. m \<notin> set (Modules project)) ms'"
        "\<forall>m \<in> set new. list_all (target_ok (tree d)) (files (module_spec_of m))"
    have project: "project = ?p1" using p(2) stored by simp
    then have new: "new = ms" using p(1) t(7) assms(4) by (simp add: new_project_def)
    have d1: "tree d1 = tree d" using same by (simp add: same_disk_def)
    from add_write_result [OF _ _ _ t(4) _ _ _ run] t assms(3) obtain t1 v s where
      x: "extended (module_contents gen mp ?app ms) (tree d) t1" and v: "replaceFrameworkRequirement gomod [] = Inr (v, s)"
      and t': "map_of (tree d') = (map_of t1)(segments routesPath \<mapsto> Regular (registered_routes ms routes),
        segments metadataPath \<mapsto> Regular (metadata_text (?p1\<lparr>Modules := ms, FrameworkVersion := v\<rparr>)))"
      unfolding d1 new project by (auto simp: new_project_def)
    have keep: "map_of t1 q = Some n" if "map_of (tree d) q = Some n" for q n
      using x that by (auto simp: extended_def)
    have all: "laid_out (core @ module_contents gen mp ?app ms) t1" by (rule extended_append [OF assms(1) x])
    define t2 where "t2 = AList.update (segments routesPath) (Regular (registered_routes ms routes)) t1"
    have t2: "map_of t2 = (map_of t1)(segments routesPath \<mapsto> Regular (registered_routes ms routes))"
      by (simp add: t2_def update_conv')
    have rts: "laid_out (overwrite routesPath (registered_routes ms routes) (core @ module_contents gen mp ?app ms)) t2"
      by (rule laid_out_overwrite [OF all keep [OF t(3)] t2])
    have meta: "map_of t2 (segments metadataPath) = Some (Regular (metadata_text new_project))"
      using keep [OF assms(5)] by (simp add: t2 routesPath_def metadataPath_def)
    have "map_of (tree d') = (map_of t2)(segments metadataPath \<mapsto>
        Regular (metadata_text (new_project\<lparr>Modules := ms, FrameworkVersion := v\<rparr>)))"
      by (simp add: t' t2 metadata_text_def)
    from laid_out_overwrite [OF rts meta this]
    have "laid_out (overwrite metadataPath (metadata_text (new_project\<lparr>Modules := ms, FrameworkVersion := v\<rparr>))
        (overwrite routesPath (registered_routes ms routes) (core @ module_contents gen mp ?app ms))) (tree d')" .
    moreover have "map_of core routesPath = Some routes" by (rule laid_out_lookup [OF assms(1) t(3)])
    moreover have "map_of core ''go.mod'' = Some gomod"
      by (rule laid_out_lookup [OF assms(1)]) (simp add: managed_segments t(5))
    ultimately show ?thesis
      using assms(3) t(6) v by (simp add: project_contents_def assms(2) [symmetric])
  qed
qed

lemma LstatRoot_missing: "LstatRoot os d = (Inl ENOENT, d') \<Longrightarrow> root_dir d = Missing"
  by (auto simp: LstatRoot_def elim!: attempt_cases split: if_splits)

lemma ReadRootDir_entries: "ReadRootDir os d = (r, d') \<Longrightarrow> tree d' = tree d \<and> (r = Inr [] \<longrightarrow> tree d = [])"
  by (auto simp: ReadRootDir_def elim!: attempt_cases split: if_splits)

lemma check_new_directory_empty:
  assumes "check_new_directory gen d = (Inr (), d')" "root_dir d = Missing \<longrightarrow> tree d = []"
  shows "tree d = [] \<and> tree d' = []"
proof -
  obtain r1 d1 where l: "LstatRoot (gen_os gen) d = (r1, d1)" by (metis surj_pair)
  obtain r2 d2 where e: "ReadRootDir (gen_os gen) d1 = (r2, d2)" by (metis surj_pair)
  have t1: "tree d1 = tree d" using readonlyD [OF readonly_calls(1) l] by (simp add: same_disk_def)
  consider "r1 = Inl ENOENT" "d' = d1" | "r2 = Inr []" "d' = d2"
    using assms(1) l e by (auto simp: check_new_directory_def split: sum.splits if_splits)
  then show ?thesis
  proof cases
    case 1
    with LstatRoot_missing l assms(2) t1 show ?thesis by simp
  next
    case 2
    with ReadRootDir_entries [OF e] t1 show ?thesis by simp
  qed
qed

lemma MkdirAllRoot_tree: "MkdirAllRoot os d = (r, d') \<Longrightarrow> tree d' = tree d"
  by (auto simp: MkdirAllRoot_def split: root_node.splits elim!: attempt_cases)

section \<open>Creating a project\<close>

lemma Create_lays_out:
  assumes "root_dir d = Missing \<longrightarrow> tree d = []" "templates_placed gen"
    and "unmarshal gen (metadata_text new_project) = Inr (new_project\<lparr>FormatVersion := metadataFormatVersion\<rparr>)"
    and "Create gen base module fp values d = (Inr (), d')"
  shows "tree d = [] \<and> (\<exists>ms fs. ParseModules values = Inr ms \<and>
    project_contents gen base module fp ms = Some fs \<and> laid_out fs (tree d'))"
proof -
  let ?replace = "if fp \<noteq> [] then ''replace github.com/bjarneo/wahoo => '' @ fp else []"
  obtain ms where ms: "ParseModules values = Inr ms" and run: "io_bind (check_new_directory gen) (\<lambda>_.
      io_bind (io_wrap CreateDirectory (MkdirAllRoot (gen_os gen))) (\<lambda>_.
      io_bind (io_wrap OpenProject (OpenRoot (gen_os gen))) (\<lambda>_.
      io_bind (write_templates gen module (ProjectName (unicode gen) base) ?replace ms (templates gen)) (\<lambda>_.
      io_bind (writeManifest gen new_project) (\<lambda>_.
      if ms = [] then io_return () else Add gen base ms))))) d = (Inr (), d')"
    using assms(4) by (cases "ParseModules values")
      (simp_all add: Create_def Let_def io_bind_def [of "io_lift _"] io_lift_def new_project_def)
  from run obtain d1 d2 d3 d4 d5 where
    c: "check_new_directory gen d = (Inr (), d1)" "MkdirAllRoot (gen_os gen) d1 = (Inr (), d2)"
      "OpenRoot (gen_os gen) d2 = (Inr (), d3)"
    and w: "write_templates gen module (ProjectName (unicode gen) base) ?replace ms (templates gen) d3 = (Inr (), d4)"
    and m: "writeManifest gen new_project d4 = (Inr (), d5)"
    and last: "(if ms = [] then io_return () else Add gen base ms) d5 = (Inr (), d')"
    unfolding io_bind_unit io_wrap_Inr by blast
  then have a: "if ms = [] then d' = d5 else Add gen base ms d5 = (Inr (), d')" by (simp split: if_splits)
  have empty: "tree d = []" "tree d3 = []"
    using check_new_directory_empty [OF c(1) assms(1)] MkdirAllRoot_tree [OF c(2)] readonlyD [OF readonly_calls(2) c(3)]
    by (simp_all add: same_disk_def)
  let ?core = "core_project gen base module fp ms"
  note placed = templates_placed_core [OF assms(2)]
  have "\<not> is_symlink (map_of (tree d3) q)" for q by (simp add: empty(2) is_symlink_def)
  from write_templates_extended [OF w placed this]
  have "laid_out (core_files module (ProjectName (unicode gen) base) ?replace ms (templates gen)) (tree d4)"
    by (simp add: empty(2))
  from conjunct1 [OF writeManifest_new [OF m this placed]] have core: "laid_out ?core (tree d5)" by (simp add: core_project_unfold)
  then have meta: "map_of (tree d5) (segments metadataPath) = Some (Regular (metadata_text new_project))"
    by (auto simp: extended_def core_project_unfold)
  have "\<exists>fs. project_contents gen base module fp ms = Some fs \<and> laid_out fs (tree d')"
  proof (cases "ms = []")
    case True
    with a core show ?thesis by (simp add: project_contents_def)
  next
    case False
    have "ParseModules ms = Inr ms" using ParseModules_known ParseModules_Inr [OF ms] by blast
    with Add_new_project [OF core refl False _ meta assms(3)] a False show ?thesis by simp
  qed
  with ms empty(1) show ?thesis by blast
qed

text \<open>
  C7. When \<open>Create\<close> returns nil, the directory, which was empty or not there, holds exactly the project:
  every template outside \<open>templates/modules/\<close> rendered in its place without the suffix \<open>.tmpl\<close>, the
  metadata, the files of the modules asked for with the module path that the new \<open>go.mod\<close> declares, their
  registrations in the routes in the order given, and the metadata listing them; and no other file, no
  temporary one either, and no directory but those these are in. (The templates have clean slash paths;
  decoding the JSON that was encoded gives the metadata back.)
\<close>

theorem Create_result:
  assumes "root_dir d = Missing \<longrightarrow> tree d = []" "templates_placed gen"
    and "unmarshal gen (metadata_text new_project) = Inr (new_project\<lparr>FormatVersion := metadataFormatVersion\<rparr>)"
    and "Create gen base module fp values d = (Inr (), d')"
  shows "tree d = [] \<and> (\<exists>ms fs. ParseModules values = Inr ms \<and>
    project_contents gen base module fp ms = Some fs \<and> laid_out fs (tree d'))"
  by (rule Create_lays_out [OF assms])

text \<open>A generator with three templates, and a directory that is not there yet.\<close>

definition demo_templates :: generator where
  "demo_templates = demo_generator\<lparr>
     templates := [(''templates/app/routes.go.tmpl'', moduleMarker),
       (''templates/go.mod.tmpl'', ''module __MODULE__'' @ [LF] @ ''require github.com/bjarneo/wahoo v1''),
       (''templates/modules/sse.go.tmpl'', ''package app // __MODULE__'')],
     unmarshal := (\<lambda>s. if s = metadata_text new_project then Inr (new_project\<lparr>FormatVersion := metadataFormatVersion\<rparr>)
       else Inl ''bad JSON'')\<rparr>"

definition demo_nowhere :: disk where
  "demo_nowhere = \<lparr>root_dir = Missing, tree = [], trail = [], clock = 0\<rparr>"

lemma demo_created: "fst (Create demo_templates ''a'' ''m'' [] [''sse''] demo_nowhere) = Inr ()"
  by code_simp

lemma demo_contents:
  "map_option (\<lambda>fs. map_of fs ''app/sse.go'') (project_contents demo_templates ''a'' ''m'' [] [''sse'']) =
     Some (Some ''package app // m'')"
  by code_simp

theorem Create_result_witness:
  "map_of (tree (snd (Create demo_templates ''a'' ''m'' [] [''sse''] demo_nowhere))) [''app'', ''sse.go''] =
     Some (Regular ''package app // m'')"
proof -
  let ?d = "snd (Create demo_templates ''a'' ''m'' [] [''sse''] demo_nowhere)"
  from demo_created have run: "Create demo_templates ''a'' ''m'' [] [''sse''] demo_nowhere = (Inr (), ?d)" by (metis prod.collapse)
  have "templates_placed demo_templates" by code_simp
  moreover have "unmarshal demo_templates (metadata_text new_project) =
      Inr (new_project\<lparr>FormatVersion := metadataFormatVersion\<rparr>)" by (simp add: demo_templates_def)
  ultimately obtain ms fs where fs: "ParseModules [''sse''] = Inr ms"
    "project_contents demo_templates ''a'' ''m'' [] ms = Some fs" "laid_out fs (tree ?d)"
    using Create_result [OF _ _ _ run] by (auto simp: demo_nowhere_def)
  have "ParseModules [''sse''] = Inr [''sse'']" by code_simp
  then have "map_of fs ''app/sse.go'' = Some ''package app // m''" using fs(1,2) demo_contents by auto
  then have "map_of (tree ?d) (segments ''app/sse.go'') = Some (Regular ''package app // m'')"
    by (rule laid_out_holds [OF fs(3) map_of_SomeD])
  moreover have "segments ''app/sse.go'' = [''app'', ''sse.go'']" by code_simp
  ultimately show ?thesis by (rule subst [rotated])
qed

end
