(* ===== verification/Scaffold_Success.thy ===== *)
theory Scaffold_Success
  imports Scaffold_Create
begin

text \<open>
  That \<open>Create\<close> succeeds when no system call fails: the operations of \<open>Project_Files\<close>, the checks in front
  of \<open>Add\<close> and the writing, each with what it needs of the directory.
\<close>

section \<open>Free places\<close>

definition free :: "tree \<Rightarrow> path \<Rightarrow> bool" where
  "free t q \<longleftrightarrow> map_of t q = None \<and> (\<forall>x \<in> set (parents q). map_of t x \<in> {None, Some Directory})"

text \<open>Two files that can be in one directory.\<close>

definition apart :: "string \<Rightarrow> string \<Rightarrow> bool" where
  "apart p q \<longleftrightarrow> p \<noteq> q \<and> segments p \<notin> set (parents (segments q)) \<and> segments q \<notin> set (parents (segments p))"

lemma laid_out_free:
  assumes "laid_out fs t" "\<forall>p \<in> set (map fst fs). apart p q"
  shows "free t (segments q)"
proof -
  have "map_of t (segments q) \<noteq> Some n" for n
    using assms by (fastforce simp: extended_def apart_def)
  moreover have "map_of t x \<in> {None, Some Directory}" if "x \<in> set (parents (segments q))" for x
  proof (cases "map_of t x")
    case (Some n)
    have "n = Directory"
    proof (rule ccontr)
      assume "n \<noteq> Directory"
      then obtain p s where "(p, s) \<in> set fs" "x = segments p" using assms(1) Some by (auto simp: extended_def)
      with assms(2) that show False by (force simp: apart_def)
    qed
    with Some show ?thesis by simp
  qed simp
  ultimately show ?thesis by (auto simp: free_def)
qed

section \<open>The operations\<close>

lemma mkdir_from_calm:
  assumes "calm os" "\<And>i. i < length ss \<Longrightarrow> map_of (tree d) (base @ take (Suc i) ss) \<in> {None, Some Directory}"
  shows "\<exists>d'. mkdir_from os base ss d = (Inr (), d')"
  using assms(2)
proof (induction ss arbitrary: base d)
  case (Cons s ss)
  let ?q = "base @ [s]"
  have q: "map_of (tree d) ?q \<in> {None, Some Directory}" using Cons.prems [of 0] by simp
  have rest: "map_of (tree d) (?q @ take (Suc i) ss) \<in> {None, Some Directory}" if "i < length ss" for i
    using Cons.prems [of "Suc i"] that by simp
  show ?case
  proof (cases "map_of (tree d) ?q")
    case None
    let ?d = "put_tree (AList.update ?q Directory (tree d)) (tick d)"
    have "\<exists>d'. mkdir_from os ?q ss ?d = (Inr (), d')"
      by (rule Cons.IH) (use rest in \<open>auto simp: update_conv'\<close>)
    with None show ?thesis by (simp add: attempt_calm [OF assms(1)] Let_def)
  next
    case (Some n)
    with q have "map_of (tree d) ?q = Some Directory" by simp
    moreover have "\<exists>d'. mkdir_from os ?q ss d = (Inr (), d')" by (rule Cons.IH [OF rest])
    ultimately show ?thesis by (simp add: Let_def)
  qed
qed simp

lemma MkdirAll_calm:
  assumes "calm os" "segments p = butlast q" "\<forall>x \<in> set (parents q). map_of (tree d) x \<in> {None, Some Directory}"
  shows "\<exists>d'. MkdirAll os p d = (Inr (), d')"
proof -
  have "take (Suc i) (butlast q) \<in> set (parents q)" if "i < length (butlast q)" for i
    using that by (auto simp: parents_def take_butlast)
  with assms(3) have "map_of (tree d) ([] @ take (Suc i) (butlast q)) \<in> {None, Some Directory}" if "i < length (butlast q)" for i
    using that by auto
  from mkdir_from_calm [OF assms(1) this] assms(2) show ?thesis by (simp add: MkdirAll_def)
qed

lemma OpenExcl_calm:
  assumes "calm os" "direct (tree d) (segments p)" "map_of (tree d) (segments p) = None"
  shows "OpenExcl os p d = (Inr (segments p), put_tree (AList.update (segments p) (Regular []) (tree d)) (tick d))"
  using assms by (simp add: OpenExcl_def attempt_calm locate_direct)

lemma FileWrite_calm:
  assumes "calm os"
  shows "\<exists>s. FileWrite os q data d = ((length data, None), put_tree (AList.update q (Regular s) (tree d)) (tick d))"
  using assms by (auto simp: FileWrite_def calm_def Let_def)

lemma CloseFile_calm: "calm os \<Longrightarrow> CloseFile os d = (Inr (), tick d)"
  by (simp add: CloseFile_def attempt_calm)

lemma writeNewFile_calm:
  assumes "calm os" "direct (tree d) (segments p)" "map_of (tree d) (segments p) = None"
  shows "\<exists>d'. writeNewFile os p data d = (Inr (), d')"
proof -
  let ?d = "put_tree (AList.update (segments p) (Regular []) (tree d)) (tick d)"
  obtain s where "FileWrite os (segments p) data ?d = ((length data, None), put_tree (AList.update (segments p) (Regular s) (tree ?d)) (tick ?d))"
    using FileWrite_calm [OF assms(1)] by blast
  then show ?thesis by (simp add: writeNewFile_def OpenExcl_calm [OF assms] CloseFile_calm [OF assms(1)])
qed

lemma writeAtomic_calm:
  assumes "calm os" "direct (tree d) (segments p)" "map_of (tree d) (segments (temporary p)) = None"
    and "map_of (tree d) (segments p) \<noteq> Some Directory"
  shows "\<exists>d'. writeAtomic os p data d = (Inr (), d')"
proof -
  let ?T = "segments (temporary p)" and ?P = "segments p"
  let ?d1 = "put_tree (AList.update ?T (Regular []) (tree d)) (tick d)"
  have dT: "direct (tree d) ?T" using assms(2) by (simp add: direct_temporary)
  obtain s d2 where w: "FileWrite os ?T data ?d1 = ((length data, None), d2)"
    and d2: "tree d2 = AList.update ?T (Regular s) (tree ?d1)"
    using FileWrite_calm [OF assms(1), of ?T data ?d1] by auto
  have look: "map_of (tree (tick d2)) x = (if x = ?T then Some (Regular s) else map_of (tree d) x)" for x
    by (simp add: d2 update_conv')
  have "direct (tree (tick d2)) x \<longleftrightarrow> direct (tree d) x" if "length x = length ?P" for x
    by (rule direct_cong) (use look parents_strict [of ?T x] that length_segments_temporary [of p] in force)
  then have "locate os (tree (tick d2)) False ?T = Inr ?T" "locate os (tree (tick d2)) False ?P = Inr ?P"
    using assms(2) dT length_segments_temporary [of p] by (simp_all add: locate_direct)
  then have "\<exists>d3. Rename os (temporary p) p (tick d2) = (Inr (), d3)"
    using assms(4) segments_temporary_neq [of p] look [of ?T] look [of ?P] by (simp add: Rename_def attempt_calm [OF assms(1)])
  then show ?thesis
    by (auto simp: writeAtomic_def OpenExcl_calm [OF assms(1) dT assms(3)] w CloseFile_calm [OF assms(1)] split: prod.split)
qed

text \<open>A new file in a free place.\<close>

lemma make_file_calm:
  assumes "calm os" "free (tree d) (segments p)" "segments p' = butlast (segments p)"
  shows "\<exists>d1 d2. MkdirAll os p' d = (Inr (), d1) \<and> writeNewFile os p s d1 = (Inr (), d2)"
proof -
  let ?q = "segments p"
  from assms(2) have f: "\<forall>x \<in> set (parents ?q). map_of (tree d) x \<in> {None, Some Directory}" by (simp add: free_def)
  obtain d1 where k: "MkdirAll os p' d = (Inr (), d1)" using MkdirAll_calm [OF assms(1,3) f] by blast
  have "\<not> is_symlink (map_of (tree d) x)" if "x \<in> set (parents ?q)" for x using f that by (auto simp: is_symlink_def)
  from MkdirAll_grown [OF k assms(3) this order_refl]
  have g: "grown (set (parents ?q)) (tree d) (tree d1)" and dir: "direct (tree d1) ?q" by (simp_all add: evolves_grown)
  have "map_of (tree d1) ?q = None"
    using grown_outside [OF g, of ?q] parents_strict [of ?q ?q] assms(2) by (auto simp: free_def)
  from writeNewFile_calm [OF assms(1) dir this] k show ?thesis by blast
qed


section \<open>Writing the files\<close>

lemma write_templates_calm:
  assumes "calm (gen_os gen)" "laid_out gs (tree d)"
    and "list_all (placed \<circ> fst) (core_files module app replace ms ts)"
    and "sorted_wrt apart (map fst (gs @ core_files module app replace ms ts))"
  shows "\<exists>d'. write_templates gen module app replace ms ts d = (Inr (), d')"
  using assms(2-)
proof (induction ts arbitrary: gs d)
  case (Cons x ts)
  obtain p data where [simp]: "x = (p, data)" by (cases x)
  show ?case
  proof (cases "prefix ''modules/'' (trim_prefix ''templates/'' p)")
    case True
    then have "core_files module app replace ms ((p, data) # ts) = core_files module app replace ms ts"
      by (simp add: core_files_def)
    with True Cons show ?thesis by simp
  next
    case False
    let ?p = "core_target p" and ?s = "renderTemplate data module app replace ms" and ?rest = "core_files module app replace ms ts"
    have core: "core_files module app replace ms ((p, data) # ts) = (?p, ?s) # ?rest"
      using False by (simp add: core_files_def)
    have pl: "placed ?p" and apart: "sorted_wrt apart (map fst ((gs @ [(?p, ?s)]) @ ?rest))"
      using Cons.prems(2,3) by (simp_all add: core)
    have free: "free (tree d) (segments ?p)"
      using apart by (intro laid_out_free [OF Cons.prems(1)]) (auto simp: sorted_wrt_append)
    let ?mk = "if dir_of ?p \<noteq> ''.'' then io_wrap (CreateParent (dir_of ?p)) (MkdirAll (gen_os gen) (dir_of ?p)) else io_return ()"
    have "\<exists>d1 d2. ?mk d = (Inr (), d1) \<and> writeNewFile (gen_os gen) ?p ?s d1 = (Inr (), d2)"
    proof (cases "butlast (segments ?p) = []")
      case True
      then obtain x where "segments ?p = [x]" using segments_nonempty by (metis append_butlast_last_id append_Nil)
      then have "parents (segments ?p) = []" by (simp add: parents_def)
      then have "\<exists>d2. writeNewFile (gen_os gen) ?p ?s d = (Inr (), d2)"
        using free by (intro writeNewFile_calm [OF assms(1)]) (simp_all add: direct_def free_def)
      with True show ?thesis by (simp add: dir_of_def)
    next
      case False
      note s = segments_dir_of [OF pl False]
      from make_file_calm [OF assms(1) free conjunct1 [OF s], of ?s] s show ?thesis by simp
    qed
    then obtain d1 d2 where k: "?mk d = (Inr (), d1)" and w: "writeNewFile (gen_os gen) ?p ?s d1 = (Inr (), d2)" by blast
    from write_one [OF conjunct1 conjunct2 w] parent_made [OF k pl laid_out_no_link [OF Cons.prems(1)]]
    have "extended [(?p, ?s)] (tree d) (tree d2)" by blast
    from extended_append [OF Cons.prems(1) this] have "laid_out (gs @ [(?p, ?s)]) (tree d2)" .
    from Cons.IH [OF this _ apart] Cons.prems(2) obtain d' where
      "write_templates gen module app replace ms ts d2 = (Inr (), d')" by (auto simp: core)
    then show ?thesis
      using k w by (simp only: write_templates_core [OF False] \<open>x = (p, data)\<close> io_bind_unit io_wrap_Inr) blast
  qed
qed simp

text \<open>The templates of a module's files are there.\<close>

definition has_templates :: "generator \<Rightarrow> module_file list \<Rightarrow> bool" where
  "has_templates gen fs \<longleftrightarrow> list_all (\<lambda>f. map_of (templates gen) (template f) \<noteq> None) fs"

lemma install_files_calm:
  assumes "calm (gen_os gen)" "laid_out gs (tree d)" "\<forall>f \<in> set fs. good_target f" "has_templates gen fs"
    and "sorted_wrt apart (map fst gs @ map target_path fs)"
  shows "\<exists>d'. install_files gen mp app m fs d = (Inr (), d')"
  using assms(2-)
proof (induction fs arbitrary: gs d)
  case (Cons f fs)
  obtain data where data: "map_of (templates gen) (template f) = Some data" and has: "has_templates gen fs"
    using Cons.prems(3) by (auto simp: has_templates_def)
  let ?p = "target_path f" and ?s = "renderTemplate data mp app [] []"
  have apart: "sorted_wrt apart (map fst (gs @ [(?p, ?s)]) @ map target_path fs)" using Cons.prems(4) by simp
  have free: "free (tree d) (segments ?p)"
    using Cons.prems(4) by (intro laid_out_free [OF Cons.prems(1)]) (auto simp: sorted_wrt_append)
  have s: "segments (dir_of ?p) = butlast (segments ?p)" using Cons.prems(2) by (simp add: good_target_def)
  obtain d1 d2 where k: "MkdirAll (gen_os gen) (dir_of ?p) d = (Inr (), d1)"
    and w: "writeNewFile (gen_os gen) ?p ?s d1 = (Inr (), d2)"
    using make_file_calm [OF assms(1) free s] by blast
  have "evolves (grown (set (parents (segments ?p))) (tree d)) d d1 \<and> direct (tree d1) (segments ?p)"
    using MkdirAll_grown [OF k s laid_out_no_link [OF Cons.prems(1)] order_refl] by simp
  with write_one [OF _ _ w] have "extended [(?p, ?s)] (tree d) (tree d2)" by blast
  from extended_append [OF Cons.prems(1) this] have "laid_out (gs @ [(?p, ?s)]) (tree d2)" .
  from Cons.IH [OF this _ has apart] Cons.prems(2) obtain d' where "install_files gen mp app m fs d2 = (Inr (), d')" by auto
  with data k w show ?case by (auto simp: io_bind_Inr)
qed simp

lemma file_contents_targets: "map fst (file_contents gen mp app fs) = map target_path fs"
  by (simp add: file_contents_def comp_def)

lemma install_calm:
  assumes "calm (gen_os gen)" "laid_out gs (tree d)" "has_templates gen (all_files ms)"
    and "sorted_wrt apart (map fst gs @ map target_path (all_files ms))"
  shows "\<exists>st' d'. install gen mp app ms st d = (Inr st', d')"
  using assms(2-)
proof (induction ms arbitrary: gs st d)
  case (Cons m ms)
  let ?fs = "files (module_spec_of m)"
  have all: "all_files (m # ms) = ?fs @ all_files ms" by (simp add: all_files_def)
  have has: "has_templates gen ?fs" "has_templates gen (all_files ms)"
    and apart: "sorted_wrt apart (map fst gs @ map target_path ?fs)"
      "sorted_wrt apart (map fst (gs @ file_contents gen mp app ?fs) @ map target_path (all_files ms))"
    using Cons.prems(2,3) by (auto simp: all has_templates_def file_contents_targets sorted_wrt_append)
  obtain d1 where i: "install_files gen mp app m ?fs d = (Inr (), d1)"
    using install_files_calm [OF assms(1) Cons.prems(1) _ has(1) apart(1)] module_files_good by blast
  have "list_all (target_free (tree d)) ?fs" using laid_out_no_link [OF Cons.prems(1)] by (simp add: list_all_iff target_free_def)
  with install_files_extended [OF i] module_files_good
  have "extended (file_contents gen mp app ?fs) (tree d) (tree d1)" by blast
  from Cons.IH [OF extended_append [OF Cons.prems(1) this] has(2) apart(2)]
  obtain st' d' where "install gen mp app ms (register_module m st) d1 = (Inr st', d')" by blast
  with i show ?case by (cases st') (auto simp: io_bind_Inr)
qed simp

section \<open>The checks\<close>

lemma Lstat_open:
  assumes "calm os" "well_formed (tree d)" "\<forall>x \<in> set (parents (segments p)). map_of (tree d) x \<in> {None, Some Directory}"
  shows "Lstat os p d = ((case map_of (tree d) (segments p) of None \<Rightarrow> Inl ENOENT | Some n \<Rightarrow> Inr n), tick d)"
proof (cases "direct (tree d) (segments p)")
  case True
  then show ?thesis by (rule Lstat_calm [OF assms(1)])
next
  case False
  have "walk_parents t qs \<in> {Here, Stop ENOENT}" if "\<forall>x \<in> set qs. map_of t x \<in> {None, Some Directory}" for t qs
    using that by (induction qs) auto
  then have "walk_parents (tree d) (parents (segments p)) = Stop ENOENT"
    using assms(3) False walk_direct [of "tree d" "parents (segments p)"] by (auto simp: direct_def)
  moreover have "map_of (tree d) (segments p) = None" using well_formed_direct [OF assms(2)] False by blast
  ultimately show ?thesis by (simp add: Lstat_def attempt_calm [OF assms(1)] locate_def)
qed

lemma reject_parts_calm:
  assumes "calm os" "well_formed (tree d)" "\<forall>x \<in> set parts. x \<noteq> [] \<and> CHR ''/'' \<notin> set x"
    and "if p = [] then pre = [] else segments p = pre"
    and "\<And>k. k \<le> length (pre @ parts) \<Longrightarrow> 1 \<le> k \<Longrightarrow> map_of (tree d) (take k (pre @ parts)) \<in> {None, Some Directory}"
  shows "\<exists>d'. reject_parts os p parts d = (Inr (), d')"
  using assms(2-)
proof (induction parts arbitrary: p pre d)
  case (Cons part parts)
  let ?p = "if p = [] then part else p @ ''/'' @ part"
  have part: "part \<noteq> []" "CHR ''/'' \<notin> set part" using Cons.prems(2) by simp_all
  have seg: "segments ?p = pre @ [part]" "?p \<noteq> []"
    using Cons.prems(3) part by (auto simp: segments_def split_byte_sep split: if_splits)
  have par: "map_of (tree d) x \<in> {None, Some Directory}" if x: "x \<in> set (parents (segments ?p))" for x
  proof -
    from x obtain k where "1 \<le> k" "k < length (pre @ [part])" "x = take k (pre @ [part])"
      unfolding seg(1) by (auto simp: parents_def)
    with Cons.prems(4) [of k] show ?thesis by simp
  qed
  have "map_of (tree d) (segments ?p) \<in> {None, Some Directory}"
    using Cons.prems(4) [of "Suc (length pre)"] seg(1) by simp
  with Lstat_open [OF assms(1) Cons.prems(1), of ?p] par
  have l: "Lstat os ?p d = (Inl ENOENT, tick d) \<or> Lstat os ?p d = (Inr Directory, tick d)" by auto
  have "\<exists>d'. reject_parts os ?p parts (tick d) = (Inr (), d')"
    by (rule Cons.IH [where pre = "pre @ [part]"]) (use Cons.prems seg in auto)
  with l show ?case by (auto simp: Let_def is_symlink_def split del: if_split)
qed simp

lemma check_targets_calm:
  assumes "calm os" "well_formed (tree d)" "\<forall>f \<in> set fs. good_target f \<and> free (tree d) (segments (target_path f))"
  shows "\<exists>d'. check_targets os m fs d = (Inr (), d')"
  using assms(2-)
proof (induction fs arbitrary: d)
  case (Cons f fs)
  let ?q = "segments (target_path f)"
  have f: "good_target f" "free (tree d) ?q" using Cons.prems(2) by simp_all
  have parts: "\<forall>x \<in> set ?q. x \<noteq> [] \<and> CHR ''/'' \<notin> set x"
    using f(1) split_byte_no_sep by (auto simp: good_target_def segments_def)
  have "map_of (tree d) (take k ([] @ ?q)) \<in> {None, Some Directory}" if "k \<le> length ([] @ ?q)" "1 \<le> k" for k
  proof (cases "k = length ?q")
    case False
    then have "take k ?q \<in> set (parents ?q)" using that by (auto simp: parents_def)
    with f(2) show ?thesis by (simp add: free_def)
  qed (use f(2) in \<open>simp add: free_def\<close>)
  from reject_parts_calm [OF assms(1) Cons.prems(1) parts, of "[]" "[]"] this
  obtain d1 where j: "rejectTargetSymlinks os (target_path f) d = (Inr (), d1)" by (auto simp: rejectTargetSymlinks_def)
  have t: "tree d1 = tree d" using readonlyD [OF readonly_target j] by (simp add: same_disk_def)
  have l: "Lstat os (target_path f) d1 = (Inl ENOENT, tick d1)"
    using Lstat_open [OF assms(1), of d1 "target_path f"] Cons.prems(1) f(2) by (simp add: t free_def)
  have "\<exists>d'. check_targets os m fs (tick d1) = (Inr (), d')" by (rule Cons.IH) (use Cons.prems t in auto)
  with j l show ?case by simp
qed simp

lemma plan_additions_calm:
  assumes "calm os" "well_formed (tree d)" "\<forall>f \<in> set (all_files ms). free (tree d) (segments (target_path f))"
  shows "\<exists>d'. plan_additions os [] ms acc d = (Inr (acc @ ms), d')"
  using assms(2-)
proof (induction ms arbitrary: acc d)
  case (Cons m ms)
  have all: "all_files (m # ms) = files (module_spec_of m) @ all_files ms" by (simp add: all_files_def)
  have "\<forall>f \<in> set (files (module_spec_of m)). good_target f \<and> free (tree d) (segments (target_path f))"
    using Cons.prems(2) module_files_good by (simp add: all)
  from check_targets_calm [OF assms(1) Cons.prems(1) this]
  obtain d1 where c: "check_targets os m (files (module_spec_of m)) d = (Inr (), d1)" by blast
  have t: "tree d1 = tree d" using readonlyD [OF readonly_check c] by (simp add: same_disk_def)
  have "\<exists>d'. plan_additions os [] ms (acc @ [m]) d1 = (Inr ((acc @ [m]) @ ms), d')"
    by (rule Cons.IH) (use Cons.prems t in \<open>auto simp: all\<close>)
  with c show ?case by simp
qed simp


section \<open>Adding modules to a new project\<close>

lemma writeManifest_calm:
  assumes "calm (gen_os gen)" "map_of (tree d) [''.wahoo''] = Some Directory"
    and "map_of (tree d) (segments (temporary metadataPath)) = None" "map_of (tree d) (segments metadataPath) \<noteq> Some Directory"
  shows "\<exists>d'. writeManifest gen project d = (Inr (), d')"
proof -
  have "direct (tree d) (segments metadataPath)" using assms(2) by (simp add: direct_def parents_def managed_segments)
  from writeAtomic_calm [OF assms(1) this assms(3,4)] MkdirAll_existing [OF assms(2)] show ?thesis
    by (simp add: writeManifest_def metadata_text_def Let_def io_bind_Inr)
qed

lemma frameworkDependencyVersion_calm:
  assumes "calm (gen_os gen)" "map_of (tree d) [''go.mod''] = Some (Regular gomod)"
    and "replaceFrameworkRequirement gomod [] = Inr (v, s)"
  shows "frameworkDependencyVersion gen d = (Inr v, tick d)"
proof -
  have "ReadFile (gen_os gen) ''go.mod'' d = (Inr gomod, tick d)"
    using assms(2) by (intro ReadFile_calm [OF assms(1)]) (simp_all add: direct_def parents_def managed_segments)
  with assms(3) show ?thesis by (simp add: frameworkDependencyVersion_def io_bind_def io_wrap_def io_lift_def)
qed

lemma add_write_calm:
  assumes "calm (gen_os gen)" "laid_out core (tree d)" "has_templates gen (all_files ms)"
    and t: "map_of (tree d) (segments routesPath) = Some (Regular routes)" "contains_sub routes moduleMarker"
      "map_of (tree d) [''go.mod''] = Some (Regular gomod)" "replaceFrameworkRequirement gomod [] = Inr (v, s)"
      "map_of (tree d) (segments metadataPath) = Some (Regular meta)"
    and apart: "sorted_wrt apart (map fst core @ map target_path (all_files ms) @ [temporary routesPath, temporary metadataPath])"
  shows "\<exists>d'. add_write gen base project routes mp ms d = (Inr (), d')"
proof -
  let ?app = "ProjectName (unicode gen) base"
  have "sorted_wrt apart (map fst core @ map target_path (all_files ms))" using apart by (simp add: sorted_wrt_append)
  from install_calm [OF assms(1-3) this] obtain st d1 where
    i: "install gen mp ?app ms (routes, False, project) d = (Inr st, d1)" by blast
  have "list_all (target_free (tree d)) (all_files ms)"
    using laid_out_no_link [OF assms(2)] by (simp add: list_all_iff target_free_def)
  from install_extended [OF i this] have x: "extended (file_contents gen mp ?app (all_files ms)) (tree d) (tree d1)" by simp
  note all = extended_append [OF assms(2) x]
  have keep: "map_of (tree d1) q = Some n" if "map_of (tree d) q = Some n" for q n
    using x that by (auto simp: extended_def)
  have temp: "map_of (tree d1) (segments (temporary p)) = None" if "p \<in> {routesPath, metadataPath}" for p
    using laid_out_free [OF all, of "temporary p"] that apart by (auto simp: free_def file_contents_targets sorted_wrt_append)
  have dirs: "direct (tree d1) (segments p)" if "map_of (tree d1) (segments p) \<noteq> None" for p
    by (rule well_formed_direct [OF laid_out_well_formed [OF all] that])
  obtain rs changed project' where st: "st = (rs, changed, project')" by (cases st)
  let ?w = "if changed then io_wrap WriteRoutes (writeAtomic (gen_os gen) routesPath rs) else io_return ()"
  have "\<exists>d2. ?w d1 = (Inr (), d2) \<and> (\<forall>q. q \<noteq> segments routesPath \<longrightarrow> map_of (tree d2) q = map_of (tree d1) q)"
  proof (cases changed)
    case True
    have R: "map_of (tree d1) (segments routesPath) = Some (Regular routes)" by (rule keep [OF t(1)])
    obtain d2 where "writeAtomic (gen_os gen) routesPath rs d1 = (Inr (), d2)"
      using writeAtomic_calm [OF assms(1) dirs temp] R by fastforce
    with writeAtomic_updates [OF dirs this] R True show ?thesis by simp
  qed simp
  then obtain d2 where w: "?w d1 = (Inr (), d2)"
    and t2: "\<And>q. q \<noteq> segments routesPath \<Longrightarrow> map_of (tree d2) q = map_of (tree d1) q" by blast
  have M: "map_of (tree d2) (segments metadataPath) = Some (Regular meta)"
    "map_of (tree d2) (segments (temporary metadataPath)) = None" "map_of (tree d2) [''go.mod''] = Some (Regular gomod)"
    using t2 keep [OF t(5)] keep [OF t(3)] temp project_paths_apart by (auto simp: managed_segments)
  have "map_of (tree d1) [''.wahoo''] = Some Directory"
    using dirs [of metadataPath] keep [OF t(5)] by (simp add: direct_def parents_def managed_segments)
  with t2 have dir: "map_of (tree d2) [''.wahoo''] = Some Directory" by (simp add: managed_segments)
  note v = frameworkDependencyVersion_calm [OF assms(1) M(3) t(4)]
  have "\<exists>d'. writeManifest gen (project'\<lparr>FrameworkVersion := v\<rparr>) (tick d2) = (Inr (), d')"
    by (rule writeManifest_calm [OF assms(1)]) (use dir M in simp_all)
  with i w v show ?thesis by (auto simp: add_write_def io_bind_Inr st)
qed

lemma add_plan_calm:
  assumes "calm (gen_os gen)" "root_dir d = RootDirectory" "laid_out core (tree d)" "ParseModules ms = Inr ms" "ms \<noteq> []"
    and t: "map_of (tree d) (segments routesPath) = Some (Regular routes)" "contains_sub routes moduleMarker"
      "map_of (tree d) [''go.mod''] = Some (Regular gomod)" "module_path gomod = Some mp"
      "map_of (tree d) (segments metadataPath) = Some (Regular meta)"
    and m: "stored_manifest gen (tree d) = Inr project" "Modules project = []"
    and free: "\<forall>f \<in> set (all_files ms). free (tree d) (segments (target_path f))"
  shows "\<exists>d'. add_plan gen ms d = (Inr (project, routes, mp, ms), d')"
proof -
  have dirs: "direct (tree d) (segments p)" if "map_of (tree d) (segments p) \<noteq> None" for p
    by (rule well_formed_direct [OF laid_out_well_formed [OF assms(3)] that])
  have up: "map_of (tree d) [''.wahoo''] = Some Directory" "map_of (tree d) [''app''] = Some Directory"
    using dirs [of metadataPath] dirs [of routesPath] t(1,5) by (simp_all add: direct_def parents_def managed_segments)
  obtain d1 where o: "open_project gen d = (Inr (), d1)" using open_project_calm [OF assms(1,2)] by blast
  have t1: "tree d1 = tree d" "root_dir d1 = root_dir d" using readonlyD [OF readonly_open o] by (simp_all add: same_disk_def)
  have "\<forall>p \<in> set managed_paths. direct (tree d1) (segments p) \<and> \<not> is_symlink (map_of (tree d1) (segments p))"
    using up laid_out_no_link [OF assms(3)] by (simp add: t1 managed_paths_def direct_def parents_def managed_segments)
  from reject_calm [OF assms(1) this] obtain d2 where
    j: "rejectManagedSymlinks (gen_os gen) managed_paths d1 = (Inr (), d2)" by blast
  have t2: "tree d2 = tree d" "root_dir d2 = root_dir d"
    using readonlyD [OF readonly_reject j] t1 by (simp_all add: same_disk_def)
  have "upgradable gen d2" "stored_manifest gen (tree d2) = Inr project"
    using assms(2) up(1) t m(1) laid_out_no_link [OF assms(3)] by (simp_all add: upgradable_def t2)
  from readManifest_calm [OF assms(1) this] obtain d3 where r: "readManifest gen d2 = (Inr project, d3)" by blast
  have t3: "tree d3 = tree d" using readonlyD [OF readonly_manifest r] t2 by (simp add: same_disk_def)
  have f: "ReadFile (gen_os gen) routesPath d3 = (Inr routes, tick d3)"
    "ReadFile (gen_os gen) ''go.mod'' (tick d3) = (Inr gomod, tick (tick d3))"
    using up t t3 by (auto intro!: ReadFile_calm [OF assms(1)] simp: direct_def parents_def managed_segments)
  have wf: "well_formed (tree (tick (tick d3)))" using laid_out_well_formed [OF assms(3)] by (simp add: t3)
  obtain d4 where p: "plan_additions (gen_os gen) [] ms [] (tick (tick d3)) = (Inr ms, d4)"
    using plan_additions_calm [OF assms(1) wf, of ms "[]"] free t3 by auto
  show ?thesis
    using o j r f p assms(4,5) t(2,4) m(2)
    by (simp add: add_plan_def projectModulePath_def io_bind_def io_wrap_def io_lift_def io_return_def
        del: rejectManagedSymlinks.simps plan_additions.simps)
qed

section \<open>Creating a project\<close>

lemma check_new_directory_calm:
  assumes "calm (gen_os gen)" "root_dir d = Missing \<or> root_dir d = RootDirectory \<and> tree d = []"
  shows "\<exists>d'. check_new_directory gen d = (Inr (), d') \<and> same_disk d d'"
  using assms(2)
  by (auto simp: check_new_directory_def LstatRoot_def ReadRootDir_def attempt_calm [OF assms(1)] same_disk_def)

lemma open_root_calm:
  assumes "calm os" "root_dir d = Missing \<or> root_dir d = RootDirectory"
  shows "\<exists>d1 d2. MkdirAllRoot os d = (Inr (), d1) \<and> OpenRoot os d1 = (Inr (), d2) \<and> root_dir d2 = RootDirectory \<and> tree d2 = tree d"
  using assms(2) by (auto simp: MkdirAllRoot_def OpenRoot_def attempt_calm [OF assms(1)])

lemma writeManifest_new_calm:
  assumes "calm (gen_os gen)" "laid_out fs (tree d)"
    and "\<forall>p \<in> set (map fst fs). apart p metadataPath \<and> apart p (temporary metadataPath)"
  shows "\<exists>d'. writeManifest gen project d = (Inr (), d')"
proof -
  let ?M = "segments metadataPath" and ?T = "segments (temporary metadataPath)"
  have M: "free (tree d) ?M" "free (tree d) ?T" using laid_out_free [OF assms(2)] assms(3) by auto
  have q: "segments ''.wahoo'' = butlast ?M" by (simp add: managed_segments)
  from M(1) have "\<forall>x \<in> set (parents ?M). map_of (tree d) x \<in> {None, Some Directory}" by (simp add: free_def)
  from MkdirAll_calm [OF assms(1) q this] obtain d1 where k: "MkdirAll (gen_os gen) ''.wahoo'' d = (Inr (), d1)" by blast
  from MkdirAll_grown [OF k q laid_out_no_link [OF assms(2)] order_refl]
  have g: "grown (set (parents ?M)) (tree d) (tree d1)" and dir: "direct (tree d1) ?M" by (simp_all add: evolves_grown)
  have "map_of (tree d1) x = None" if "x \<in> {?M, ?T}" for x
  proof -
    have "x \<notin> set (parents ?M)" using that parents_strict [of x ?M] length_segments_temporary [of metadataPath] by auto
    from grown_outside [OF g this] that M show ?thesis by (auto simp: free_def)
  qed
  then show ?thesis
    using writeAtomic_calm [OF assms(1) dir] k by (simp add: writeManifest_def metadata_text_def Let_def io_bind_Inr)
qed

text \<open>
  Templates a project can be made of: the files asked for and the two temporary names do not get in each
  other's way, the templates of the modules exist, and the routes have the marker if there are modules.
\<close>

definition installable :: "generator \<Rightarrow> string \<Rightarrow> string \<Rightarrow> string \<Rightarrow> string list \<Rightarrow> bool" where
  "installable gen base module fp ms \<longleftrightarrow>
     sorted_wrt apart (map fst (core_project gen base module fp ms) @ map target_path (all_files ms) @
       [temporary routesPath, temporary metadataPath]) \<and>
     has_templates gen (all_files ms) \<and>
     (ms = [] \<or> (case map_of (core_project gen base module fp ms) routesPath of
        None \<Rightarrow> False | Some routes \<Rightarrow> contains_sub routes moduleMarker))"

lemma Add_new_project_calm:
  assumes "calm (gen_os gen)" "root_dir d = RootDirectory" "laid_out (core_project gen base module fp ms) (tree d)"
    and "ms \<noteq> []" "ParseModules ms = Inr ms" "installable gen base module fp ms"
    and "project_contents gen base module fp ms = Some fs"
    and "unmarshal gen (metadata_text new_project) = Inr (new_project\<lparr>FormatVersion := metadataFormatVersion\<rparr>)"
  shows "\<exists>d'. Add gen base ms d = (Inr (), d')"
proof -
  let ?core = "core_project gen base module fp ms" and ?p1 = "new_project\<lparr>FormatVersion := metadataFormatVersion\<rparr>"
  obtain routes gomod mp v s where c: "map_of ?core routesPath = Some routes" "map_of ?core ''go.mod'' = Some gomod"
    "module_path gomod = Some mp" "replaceFrameworkRequirement gomod [] = Inr (v, s)"
    using assms(4,7) by (auto simp: project_contents_def Let_def split: option.splits sum.splits)
  have marker: "contains_sub routes moduleMarker" and has: "has_templates gen (all_files ms)"
    and apart: "sorted_wrt apart (map fst ?core @ map target_path (all_files ms) @ [temporary routesPath, temporary metadataPath])"
    using assms(4,6) c(1) by (simp_all add: installable_def)
  have t: "map_of (tree d) (segments routesPath) = Some (Regular routes)" "map_of (tree d) [''go.mod''] = Some (Regular gomod)"
    using laid_out_holds [OF assms(3) map_of_SomeD] c by (fastforce simp: managed_segments [symmetric] simp del: managed_segments)+
  have meta: "map_of (tree d) (segments metadataPath) = Some (Regular (metadata_text new_project))"
    by (rule laid_out_holds [OF assms(3)]) (simp add: core_project_unfold)
  have "ParseModules (Modules new_project) = Inr (Modules new_project)"
    by (intro ParseModules_known) (simp_all add: new_project_def)
  with stored_manifest_new [OF meta _ assms(8)] have stored: "stored_manifest gen (tree d) = Inr ?p1" by blast
  have free: "\<forall>f \<in> set (all_files ms). free (tree d) (segments (target_path f))"
    using apart by (intro ballI laid_out_free [OF assms(3)]) (auto simp: sorted_wrt_append)
  have "Modules ?p1 = []" by (simp add: new_project_def)
  from add_plan_calm [OF assms(1-3,5,4) t(1) marker t(2) c(3) meta stored this free]
  obtain d1 where plan: "add_plan gen ms d = (Inr (?p1, routes, mp, ms), d1)" by blast
  have "tree d1 = tree d" using readonlyD [OF readonly_add_plan plan] by (simp add: same_disk_def)
  then have "\<exists>d'. add_write gen base ?p1 routes mp ms d1 = (Inr (), d')"
    using add_write_calm [OF assms(1) _ has _ marker _ c(4) _ apart, of d1] assms(3) t meta by simp
  with plan show ?thesis by (auto simp: Add_def io_bind_Inr)
qed

text \<open>
  C14. When no system call fails, \<open>Create\<close> succeeds in every directory that is empty or not there, for every
  list of known modules for which the templates make a project, and leaves exactly that project.
\<close>

theorem Create_succeeds:
  assumes "calm (gen_os gen)" "tree d = []" "root_dir d = Missing \<or> root_dir d = RootDirectory"
    and "ParseModules values = Inr ms" "project_contents gen base module fp ms = Some fs"
    and "templates_placed gen" "installable gen base module fp ms"
    and "unmarshal gen (metadata_text new_project) = Inr (new_project\<lparr>FormatVersion := metadataFormatVersion\<rparr>)"
  shows "\<exists>d'. Create gen base module fp values d = (Inr (), d') \<and> laid_out fs (tree d')"
proof -
  let ?replace = "if fp \<noteq> [] then ''replace github.com/bjarneo/wahoo => '' @ fp else []"
  let ?app = "ProjectName (unicode gen) base"
  let ?files = "core_files module ?app ?replace ms (templates gen)"
  obtain d1 where c1: "check_new_directory gen d = (Inr (), d1)" and s1: "same_disk d d1"
    using check_new_directory_calm [OF assms(1), of d] assms(2,3) by blast
  then obtain d2 d3 where c2: "MkdirAllRoot (gen_os gen) d1 = (Inr (), d2)" "OpenRoot (gen_os gen) d2 = (Inr (), d3)"
    and root: "root_dir d3 = RootDirectory" and empty: "tree d3 = []"
    using open_root_calm [OF assms(1), of d1] assms(2,3) by (auto simp: same_disk_def)
  note placed = templates_placed_core [OF assms(6)]
  have l3: "laid_out [] (tree d3)" by (simp add: empty)
  have "sorted_wrt apart (map fst ([] @ ?files))"
    using assms(7) by (simp add: installable_def core_project_unfold sorted_wrt_append)
  from write_templates_calm [OF assms(1) l3 placed this] obtain d4 where
    w: "write_templates gen module ?app ?replace ms (templates gen) d3 = (Inr (), d4)" by blast
  from write_templates_extended [OF w placed laid_out_no_link [OF l3]]
  have l4: "laid_out ?files (tree d4)" and r4: "root_dir d4 = RootDirectory" using root by (simp_all add: empty)
  have "\<forall>p \<in> set (map fst ?files). apart p metadataPath \<and> apart p (temporary metadataPath)"
    using assms(7) by (auto simp: installable_def core_project_unfold sorted_wrt_append)
  from writeManifest_new_calm [OF assms(1) l4 this] obtain d5 where m: "writeManifest gen new_project d4 = (Inr (), d5)" by blast
  from writeManifest_new [OF m l4 placed] r4
  have l5: "laid_out (core_project gen base module fp ms) (tree d5)" and r5: "root_dir d5 = RootDirectory"
    by (simp_all add: core_project_unfold)
  have "\<exists>d'. (if ms = [] then io_return () else Add gen base ms) d5 = (Inr (), d')"
  proof (cases "ms = []")
    case False
    have "ParseModules ms = Inr ms" using ParseModules_known ParseModules_Inr [OF assms(4)] by blast
    from Add_new_project_calm [OF assms(1) r5 l5 False this assms(7,5,8)] False show ?thesis by simp
  qed simp
  then obtain d' where last: "(if ms = [] then io_return () else Add gen base ms) d5 = (Inr (), d')" by blast
  have run: "Create gen base module fp values d = (Inr (), d')"
    using c1 c2 w m last assms(4) unfolding new_project_def
    by (simp add: Create_def Let_def io_bind_def io_wrap_def io_lift_def del: write_templates.simps)
  with Create_lays_out [OF _ assms(6,8) run] assms(2,4,5) show ?thesis by auto
qed

theorem Create_succeeds_witness:
  "\<exists>d'. Create demo_templates ''a'' ''m'' [] [''sse''] demo_nowhere = (Inr (), d') \<and>
     map_of (tree d') [''app'', ''sse.go''] = Some (Regular ''package app // m'')"
proof -
  obtain fs where fs: "project_contents demo_templates ''a'' ''m'' [] [''sse''] = Some fs"
    "map_of fs ''app/sse.go'' = Some ''package app // m''" using demo_contents by auto
  have start: "tree demo_nowhere = []" "root_dir demo_nowhere = Missing \<or> root_dir demo_nowhere = RootDirectory"
    by (simp_all add: demo_nowhere_def)
  have calm: "calm (gen_os demo_templates)" by (simp add: calm_def demo_templates_def demo_generator_def)
  have ms: "ParseModules [''sse''] = Inr [''sse'']" by code_simp
  have good: "templates_placed demo_templates" "installable demo_templates ''a'' ''m'' [] [''sse'']" by code_simp+
  have "unmarshal demo_templates (metadata_text new_project) =
      Inr (new_project\<lparr>FormatVersion := metadataFormatVersion\<rparr>)" by (simp add: demo_templates_def)
  from Create_succeeds [OF calm start ms fs(1) good this] obtain d' where
    d': "Create demo_templates ''a'' ''m'' [] [''sse''] demo_nowhere = (Inr (), d')" "laid_out fs (tree d')" by blast
  have "segments ''app/sse.go'' = [''app'', ''sse.go'']" by code_simp
  with laid_out_holds [OF d'(2) map_of_SomeD [OF fs(2)]] d'(1) show ?thesis by auto
qed

end
