(* ===== verification/Go_Command.thy ===== *)
theory Go_Command
  imports Go_Text "HOL-Library.AList"
begin

text \<open>
  What a command-line program uses of Go's standard library: \<open>flag.FlagSet.Parse\<close> for boolean and string
  flags, \<open>filepath.Clean\<close>, \<open>Abs\<close>, \<open>Join\<close> and \<open>Base\<close> on Unix, and \<open>bufio.Reader.ReadString\<close>.
\<close>

section \<open>Flags\<close>

datatype flag_value = BoolFlag bool | StringFlag string

datatype flag_error = BadSyntax string | HelpRequested | NotDefined string | BadBool string string | NeedsArgument string

type_synonym flag_set = "(string \<times> flag_value) list"

text \<open>\<open>strconv.ParseBool\<close>.\<close>

definition parse_bool :: "string \<Rightarrow> bool option" where
  "parse_bool s =
     (if s \<in> set [''1'', ''t'', ''T'', ''true'', ''TRUE'', ''True''] then Some True
      else if s \<in> set [''0'', ''f'', ''F'', ''false'', ''FALSE'', ''False''] then Some False
      else None)"

text \<open>The name of a flag and the value after an equals sign, if there is one.\<close>

definition flag_parts :: "string \<Rightarrow> string \<times> string option" where
  "flag_parts s = (let name = (if s ! 1 = CHR ''-'' then drop 2 s else drop 1 s) in
     case cut_byte (CHR ''='') name of (n, v, found) \<Rightarrow> (n, if found then Some v else None))"

definition bad_flag :: "string \<Rightarrow> bool" where
  "bad_flag s = (let name = (if s ! 1 = CHR ''-'' then drop 2 s else drop 1 s) in
     name = [] \<or> hd name = CHR ''-'' \<or> hd name = CHR ''='')"

fun parse_flags :: "flag_set \<Rightarrow> string list \<Rightarrow> flag_error + flag_set \<times> string list" where
  "parse_flags flags [] = Inr (flags, [])"
| "parse_flags flags (s # args) =
     (if length s < 2 \<or> hd s \<noteq> CHR ''-'' then Inr (flags, s # args)
      else if s = ''--'' then Inr (flags, args)
      else if bad_flag s then Inl (BadSyntax s)
      else case flag_parts s of (name, value) \<Rightarrow>
        (case map_of flags name of
           None \<Rightarrow> Inl (if name = ''help'' \<or> name = ''h'' then HelpRequested else NotDefined name)
         | Some (BoolFlag _) \<Rightarrow>
             (case parse_bool (case value of None \<Rightarrow> ''true'' | Some v \<Rightarrow> v) of
                None \<Rightarrow> Inl (BadBool name (the value))
              | Some b \<Rightarrow> parse_flags (AList.update name (BoolFlag b) flags) args)
         | Some (StringFlag _) \<Rightarrow>
             (case value of
                Some v \<Rightarrow> parse_flags (AList.update name (StringFlag v) flags) args
              | None \<Rightarrow>
                  (case args of
                     [] \<Rightarrow> Inl (NeedsArgument name)
                   | v # args \<Rightarrow> parse_flags (AList.update name (StringFlag v) flags) args))))"

definition flag_bool :: "flag_set \<Rightarrow> string \<Rightarrow> bool" where
  "flag_bool flags name = (case map_of flags name of Some (BoolFlag b) \<Rightarrow> b | _ \<Rightarrow> False)"

definition flag_string :: "flag_set \<Rightarrow> string \<Rightarrow> string" where
  "flag_string flags name = (case map_of flags name of Some (StringFlag s) \<Rightarrow> s | _ \<Rightarrow> [])"

section \<open>Paths\<close>

fun clean_parts :: "bool \<Rightarrow> string list \<Rightarrow> string list \<Rightarrow> string list" where
  "clean_parts rooted acc [] = acc"
| "clean_parts rooted acc (p # ps) =
     (if p = [] \<or> p = ''.'' then clean_parts rooted acc ps
      else if p = ''..'' then
        (if acc \<noteq> [] \<and> last acc \<noteq> ''..'' then clean_parts rooted (butlast acc) ps
         else if rooted then clean_parts rooted acc ps
         else clean_parts rooted (acc @ [p]) ps)
      else clean_parts rooted (acc @ [p]) ps)"

definition Clean :: "string \<Rightarrow> string" where
  "Clean p = (let rooted = prefix ''/'' p; parts = clean_parts rooted [] (split_byte (CHR ''/'') p) in
     if rooted then ''/'' @ join_bytes ''/'' parts
     else if parts = [] then ''.'' else join_bytes ''/'' parts)"

text \<open>\<open>Abs\<close> with the result of \<open>os.Getwd\<close>, an error or the working directory.\<close>

definition Abs :: "string + string \<Rightarrow> string \<Rightarrow> string + string" where
  "Abs cwd p =
     (if prefix ''/'' p then Inr (Clean p)
      else case cwd of
        Inl e \<Rightarrow> Inl e
      | Inr wd \<Rightarrow> Inr (Clean (if p = [] then wd else wd @ ''/'' @ p)))"

definition path_join :: "string \<Rightarrow> string \<Rightarrow> string" where
  "path_join a b =
     (if a = [] then if b = [] then [] else Clean b
      else if b = [] then Clean a else Clean (a @ ''/'' @ b))"

definition Base :: "string \<Rightarrow> string" where
  "Base p =
     (if p = [] then ''.''
      else let q = rev (dropWhile (\<lambda>c. c = CHR ''/'') (rev p)); b = last (split_byte (CHR ''/'') q) in
        if b = [] then ''/'' else b)"

section \<open>Lines\<close>

text \<open>
  \<open>ReadString('\n')\<close> on the bytes still to come: the line with its line break, or at the end what is left,
  then whether the line break was missing, and the bytes after it.
\<close>

definition read_string :: "string \<Rightarrow> string \<times> bool \<times> string" where
  "read_string s = (case cut_byte LF s of (line, rest, found) \<Rightarrow>
     if found then (line @ [LF], False, rest) else (s, True, []))"

section \<open>Facts\<close>

text \<open>What parsing leaves is the end of the arguments.\<close>

lemma parse_flags_suffix: "parse_flags flags args = Inr (flags', rest) \<Longrightarrow> suffix rest args"
proof (induction flags args rule: parse_flags.induct)
  case (2 flags s args)
  then show ?case
    by (auto simp: suffix_Cons split: if_splits prod.splits option.splits flag_value.splits list.splits)
qed simp

lemma Clean_examples:
  "Clean ''/srv//shop/../blog/.'' = ''/srv/blog''" "Clean ''a/../..'' = ''..''" "Clean ''/..'' = ''/''" "Clean [] = ''.''"
  "Base ''/srv/blog'' = ''blog''" "Base ''/'' = ''/''"
  by (code_simp, code_simp, code_simp, code_simp, code_simp, code_simp)

end
