(* ===== verification/Cli.thy ===== *)
theory Cli
  imports Scaffold Go_Command
begin

text \<open>
  \<open>cmd/wahoo/main.go\<close>: the command line over the project generator. The world is the console, the project
  directories by absolute path, and the external commands that were run. External commands (\<open>exec.Command\<close>),
  which may change the project, and what is installed on the machine are parameters. What goes to the
  standard error stream is the returned error.
\<close>

section \<open>The world\<close>

record cli_env =
  cli_gen :: generator
  cli_version :: string
  cwd :: "string + string"
  plain_os :: os
  goroot :: string
  stat_ok :: "string \<Rightarrow> bool"
  look_path :: "string \<Rightarrow> bool"
  exec_command :: "string list \<Rightarrow> string \<Rightarrow> disk \<Rightarrow> (string \<times> string option) \<times> disk"

text \<open>\<open>stdin_error\<close> is what ends the standard input: the end of the file or an error.\<close>

record world =
  stdin :: string
  stdin_error :: "string option"
  stdout :: string
  project_dir :: "string \<Rightarrow> disk"
  executed :: "(string \<times> string list) list"

datatype cli_error = CommandRequired | UnknownCommand string | Usage string | FlagErr flag_error
  | ResolveDirectory string | ResolveFramework string | ScaffoldErr scaffold_error
  | ReadSelection string | InvalidAnswer string | GoModuleFailed string "string list" | ReadGoModFile errno

type_synonym 'a cli = "world \<Rightarrow> (cli_error + 'a) \<times> world"

definition cli_return :: "'a \<Rightarrow> 'a cli" where
  "cli_return x w = (Inr x, w)"

definition cli_fail :: "cli_error \<Rightarrow> 'a cli" where
  "cli_fail e w = (Inl e, w)"

definition cli_bind :: "'a cli \<Rightarrow> ('a \<Rightarrow> 'b cli) \<Rightarrow> 'b cli" where
  "cli_bind m f w = (case m w of (Inl e, w) \<Rightarrow> (Inl e, w) | (Inr x, w) \<Rightarrow> f x w)"

definition print_text :: "string \<Rightarrow> unit cli" where
  "print_text s w = (Inr (), w\<lparr>stdout := stdout w @ s\<rparr>)"

definition Println :: "string \<Rightarrow> unit cli" where
  "Println s = print_text (s @ [LF])"

definition on_project :: "string \<Rightarrow> ('e \<Rightarrow> cli_error) \<Rightarrow> ('e, 'a) io \<Rightarrow> 'a cli" where
  "on_project dir g m w = (case m (project_dir w dir) of
     (Inl e, d) \<Rightarrow> (Inl (g e), w\<lparr>project_dir := (project_dir w)(dir := d)\<rparr>)
   | (Inr x, d) \<Rightarrow> (Inr x, w\<lparr>project_dir := (project_dir w)(dir := d)\<rparr>))"

section \<open>Asking for modules\<close>

definition questions :: "(string \<times> string) list" where
  "questions = [(''auth'', ''Add authentication route stubs? [y/N]: ''),
     (''sse'', ''Add an SSE endpoint? [y/N]: ''),
     (''websocket'', ''Add a WebSocket endpoint? [y/N]: '')]"

fun ask :: "unicode_tables \<Rightarrow> (string \<times> string) list \<Rightarrow> string list \<Rightarrow> string list cli" where
  "ask uni [] modules = cli_return modules"
| "ask uni ((m, prompt) # qs) modules =
     cli_bind (print_text prompt) (\<lambda>_ w.
       case read_string (stdin w) of (answer, ended, rest) \<Rightarrow>
         let w = w\<lparr>stdin := rest\<rparr> in
         if ended \<and> stdin_error w \<noteq> None then (Inl (ReadSelection (the (stdin_error w))), w)
         else let answer = trim_space (ToLower uni answer) in
           if answer \<in> set [[], ''n'', ''no''] then ask uni qs modules w
           else if answer \<in> set [''y'', ''yes''] then ask uni qs (modules @ [m]) w
           else (Inl (InvalidAnswer m), w))"

definition promptModules :: "cli_env \<Rightarrow> string list cli" where
  "promptModules env = ask (unicode (cli_gen env)) questions []"

definition joinModules :: "string list \<Rightarrow> string" where
  "joinModules modules = join_bytes '', '' modules"

section \<open>The go command\<close>

definition go_commands :: "cli_env \<Rightarrow> string list list" where
  "go_commands env =
     (let goBin = path_join (path_join (goroot env) ''bin'') ''go'' in
      (if stat_ok env goBin then [[goBin]] else []) @ [[''go'']] @
      (if look_path env ''mise'' then [[''mise'', ''exec'', ''go@1.25.12'', ''--'', ''go'']] else []))"

fun run_commands :: "cli_env \<Rightarrow> string \<Rightarrow> string \<Rightarrow> string list list \<Rightarrow> string list \<Rightarrow> unit cli" where
  "run_commands env directory operation [] errs = cli_fail (GoModuleFailed operation errs)"
| "run_commands env directory operation (command # cs) errs = (\<lambda>w.
     let argv = command @ [''mod'', operation] in
     case exec_command env argv directory (project_dir w directory) of ((output, err), d) \<Rightarrow>
       let w = w\<lparr>project_dir := (project_dir w)(directory := d), executed := executed w @ [(directory, argv)]\<rparr> in
       case err of
         None \<Rightarrow> (Inr (), w)
       | Some err \<Rightarrow>
           let detail = trim_space output;
               err = (if detail \<noteq> [] then err @ '': '' @ detail else err) in
           run_commands env directory operation cs (errs @ [err]) w)"

definition runGoModuleCommand :: "cli_env \<Rightarrow> string \<Rightarrow> string \<Rightarrow> unit cli" where
  "runGoModuleCommand env directory operation = run_commands env directory operation (go_commands env) []"

definition tidyProject :: "cli_env \<Rightarrow> string \<Rightarrow> unit cli" where
  "tidyProject env directory = runGoModuleCommand env directory ''tidy''"

definition vendorProject :: "cli_env \<Rightarrow> string \<Rightarrow> unit cli" where
  "vendorProject env directory = runGoModuleCommand env directory ''vendor''"

definition usesLocalFramework :: "cli_env \<Rightarrow> string \<Rightarrow> bool cli" where
  "usesLocalFramework env directory =
     cli_bind (on_project directory ReadGoModFile (ReadFile (plain_os env) ''go.mod'')) (\<lambda>goMod.
     cli_return (contains_sub goMod ''replace github.com/bjarneo/wahoo =>''))"

section \<open>The commands\<close>

definition new_flags :: flag_set where
  "new_flags = [(''module'', StringFlag []), (''local'', BoolFlag False), (''modules'', StringFlag []), (''yes'', BoolFlag False)]"

definition new_usage :: string where
  "new_usage = ''usage: wahoo new [--module path] [--local] [--modules names] [--yes] <directory>''"

definition next_steps :: "string \<Rightarrow> string \<Rightarrow> unit cli" where
  "next_steps directory arg =
     cli_bind (print_text (''created '' @ directory @ [LF])) (\<lambda>_.
     cli_bind (Println ''next steps:'') (\<lambda>_.
     cli_bind (print_text (''  cd '' @ arg @ [LF])) (\<lambda>_.
     cli_bind (Println ''  npm ci --prefix web'') (\<lambda>_.
     Println ''  npm run dev --prefix web''))))"

definition parse_cli_modules :: "string list \<Rightarrow> string list cli" where
  "parse_cli_modules values =
     (case ParseModules values of Inl m \<Rightarrow> cli_fail (ScaffoldErr (UnknownModule m)) | Inr ms \<Rightarrow> cli_return ms)"

definition newProject :: "cli_env \<Rightarrow> string list \<Rightarrow> unit cli" where
  "newProject env args =
     (case parse_flags new_flags args of
        Inl e \<Rightarrow> cli_fail (FlagErr e)
      | Inr (flags, rest) \<Rightarrow>
          if length rest \<noteq> 1 then cli_fail (Usage new_usage)
          else case Abs (cwd env) (hd rest) of
            Inl e \<Rightarrow> cli_fail (ResolveDirectory e)
          | Inr directory \<Rightarrow>
              let module = flag_string flags ''module'';
                  module = (if module = []
                    then ''example.com/'' @ ProjectName (unicode (cli_gen env)) (Base directory) else module) in
              case (if flag_bool flags ''local'' then cwd env else Inr []) of
                Inl e \<Rightarrow> cli_fail (ResolveFramework e)
              | Inr frameworkPath \<Rightarrow>
                  cli_bind (parse_cli_modules [flag_string flags ''modules'']) (\<lambda>selected.
                  cli_bind (if flag_string flags ''modules'' = [] \<and> \<not> flag_bool flags ''yes''
                            then promptModules env else cli_return selected) (\<lambda>selected.
                  cli_bind (on_project directory ScaffoldErr
                    (Create (cli_gen env) (Base directory) module frameworkPath selected)) (\<lambda>_.
                  cli_bind (tidyProject env directory) (\<lambda>_.
                  cli_bind (if flag_bool flags ''local'' then vendorProject env directory else cli_return ()) (\<lambda>_.
                  next_steps directory (hd rest)))))))"

definition addModules :: "cli_env \<Rightarrow> string list \<Rightarrow> unit cli" where
  "addModules env args =
     (if length args < 2 then cli_fail (Usage ''usage: wahoo add <project-directory> <module...>'')
      else case Abs (cwd env) (hd args) of
        Inl e \<Rightarrow> cli_fail (ResolveDirectory e)
      | Inr directory \<Rightarrow>
          cli_bind (parse_cli_modules (tl args)) (\<lambda>modules.
          cli_bind (on_project directory ScaffoldErr (Add (cli_gen env) (Base directory) modules)) (\<lambda>_.
          cli_bind (tidyProject env directory) (\<lambda>_.
          cli_bind (usesLocalFramework env directory) (\<lambda>uses_local.
          cli_bind (if uses_local then vendorProject env directory else cli_return ()) (\<lambda>_.
          print_text (''added modules to '' @ directory @ '': '' @ joinModules modules @ [LF])))))))"

definition upgrade_flags :: flag_set where
  "upgrade_flags = [(''check'', BoolFlag False), (''apply'', BoolFlag False), (''to'', StringFlag [])]"

definition upgrade_usage :: string where
  "upgrade_usage = ''usage: wahoo upgrade <project-directory> --check|--apply --to <version>''"

definition upgrade_report :: "bool \<Rightarrow> upgrade_result \<Rightarrow> string" where
  "upgrade_report check result =
     (if \<not> Changed result then ''Wahoo dependency is already '' @ To result @ [LF]
      else if check then ''would update Wahoo dependency from '' @ From result @ '' to '' @ To result @ '' and project metadata'' @ [LF]
      else ''updated Wahoo dependency from '' @ From result @ '' to '' @ To result @ '' and project metadata'' @ [LF])"

definition upgradeProject :: "cli_env \<Rightarrow> string list \<Rightarrow> unit cli" where
  "upgradeProject env args =
     (if args = [] then cli_fail (Usage upgrade_usage)
      else case Abs (cwd env) (hd args) of
        Inl e \<Rightarrow> cli_fail (ResolveDirectory e)
      | Inr directory \<Rightarrow>
          (case parse_flags upgrade_flags (tl args) of
             Inl e \<Rightarrow> cli_fail (FlagErr e)
           | Inr (flags, rest) \<Rightarrow>
               if rest \<noteq> [] \<or> flag_bool flags ''check'' = flag_bool flags ''apply'' \<or> flag_string flags ''to'' = []
               then cli_fail (Usage upgrade_usage)
               else
                 cli_bind (on_project directory ScaffoldErr
                   (Upgrade (cli_gen env) (flag_string flags ''to'') (flag_bool flags ''apply''))) (\<lambda>result.
                 print_text (upgrade_report (flag_bool flags ''check'') result))))"

definition usage_lines :: "string list" where
  "usage_lines = [''Wahoo, Go + React + Tailwind SaaS framework'', [], ''Usage:'',
     ''  wahoo new [--module path] [--local] [--modules names] [--yes] <directory>'',
     ''  wahoo add <project-directory> <module...>'',
     ''  wahoo upgrade <project-directory> --check|--apply --to <version>'',
     ''  wahoo modules'', ''  wahoo version'']"

fun print_lines :: "string list \<Rightarrow> unit cli" where
  "print_lines [] = cli_return ()"
| "print_lines (l # ls) = cli_bind (Println l) (\<lambda>_. print_lines ls)"

definition printUsage :: "unit cli" where
  "printUsage = print_lines usage_lines"

definition usageError :: "unit cli" where
  "usageError = cli_bind printUsage (\<lambda>_. cli_fail CommandRequired)"

definition module_lines :: "string list" where
  "module_lines = [''Optional modules:'', ''  auth       Account route stubs'', ''  sse        Server-Sent Events endpoint'',
     ''  websocket  Development WebSocket endpoint'', ''  openapi    Application-owned OpenAPI document'',
     ''  jobs       Worker command and job seams'', ''  uploads    Upload configuration stub'',
     ''  mail       Mail configuration stub'', ''  audit      Audit configuration stub'',
     ''  webhooks   Webhook configuration stub'', ''  entitlements  Entitlement configuration stub'',
     ''  billing    Billing configuration stub'']"

definition printModules :: "unit cli" where
  "printModules = print_lines module_lines"

definition run_cli :: "cli_env \<Rightarrow> string list \<Rightarrow> unit cli" where
  "run_cli env args =
     (case args of
        [] \<Rightarrow> usageError
      | command # rest \<Rightarrow>
          if command = ''new'' then newProject env rest
          else if command = ''add'' then addModules env rest
          else if command = ''upgrade'' then upgradeProject env rest
          else if command = ''modules'' then printModules
          else if command \<in> set [''version'', ''--version'', ''-v''] then Println (cli_version env)
          else if command \<in> set [''help'', ''--help'', ''-h''] then printUsage
          else cli_fail (UnknownCommand command))"

text \<open>The exit status of \<open>main\<close>.\<close>

definition exit_status :: "cli_env \<Rightarrow> string list \<Rightarrow> world \<Rightarrow> nat \<times> world" where
  "exit_status env args w = (case run_cli env args w of (Inl _, w) \<Rightarrow> (1, w) | (Inr _, w) \<Rightarrow> (0, w))"

end
