(* ===== verification/Cli_Safety.thy ===== *)
theory Cli_Safety
  imports Cli Scaffold_Upgrade
begin

text \<open>
  What a run of the command line may touch, that \<open>upgrade --check\<close> previews \<open>upgrade --apply\<close>, that \<open>new\<close>
  leaves a directory with contents alone, and how the modules are asked for.
\<close>

section \<open>Sequences of commands\<close>

declare parse_flags.simps [simp del]

lemma cli_bind_cases:
  assumes "cli_bind m f w = (r, w')"
  obtains e where "m w = (Inl e, w')" "r = Inl e" | x w1 where "m w = (Inr x, w1)" "f x w1 = (r, w')"
  using assms by (auto simp: cli_bind_def split: prod.splits sum.splits)

lemma cli_simps [simp]:
  "cli_return x w = (r, w') \<longleftrightarrow> r = Inr x \<and> w' = w"
  "cli_fail e w = (q, w') \<longleftrightarrow> q = Inl e \<and> w' = w"
  "print_text s w = (u, w') \<longleftrightarrow> u = Inr () \<and> w' = w\<lparr>stdout := stdout w @ s\<rparr>"
  by (auto simp: cli_return_def cli_fail_def print_text_def)

text \<open>The external commands there are.\<close>

definition module_commands :: "cli_env \<Rightarrow> string list set" where
  "module_commands env = {c @ [''mod'', operation] |c operation. c \<in> set (go_commands env) \<and> operation \<in> {''tidy'', ''vendor''}}"

text \<open>Between two worlds only one project differs, and commands were run there only.\<close>

definition confined :: "cli_env \<Rightarrow> string \<Rightarrow> world \<Rightarrow> world \<Rightarrow> bool" where
  "confined env dir w w' \<longleftrightarrow> (\<forall>x. x \<noteq> dir \<longrightarrow> project_dir w' x = project_dir w x) \<and>
     (\<exists>cs. executed w' = executed w @ map (Pair dir) cs \<and> set cs \<subseteq> module_commands env)"

text \<open>No project differs and nothing was run.\<close>

definition idle :: "world \<Rightarrow> world \<Rightarrow> bool" where
  "idle w w' \<longleftrightarrow> project_dir w' = project_dir w \<and> executed w' = executed w"

lemma idle_trans: "idle w w1 \<Longrightarrow> idle w1 w2 \<Longrightarrow> idle w w2"
  by (simp add: idle_def)

lemma idle_simps [simp]: "idle w w" "idle w (w\<lparr>stdout := s\<rparr>)" "idle w (w\<lparr>stdin := s\<rparr>)"
  by (simp_all add: idle_def)

lemma confined_refl [simp]: "confined env dir w w"
  by (simp add: confined_def)

lemma confined_trans: "confined env dir w w1 \<Longrightarrow> confined env dir w1 w2 \<Longrightarrow> confined env dir w w2"
proof -
  assume a: "confined env dir w w1" "confined env dir w1 w2"
  then obtain cs ds where c: "executed w1 = executed w @ map (Pair dir) cs" "set cs \<subseteq> module_commands env"
    and d: "executed w2 = executed w1 @ map (Pair dir) ds" "set ds \<subseteq> module_commands env"
    unfolding confined_def by blast
  have "executed w2 = executed w @ map (Pair dir) (cs @ ds)" unfolding d(1) c(1) by simp
  moreover have "set (cs @ ds) \<subseteq> module_commands env" using c(2) d(2) by simp
  moreover have "project_dir w2 x = project_dir w x" if "x \<noteq> dir" for x using a that by (simp add: confined_def)
  ultimately show ?thesis unfolding confined_def by blast
qed

lemma idle_confined: "idle w w1 \<Longrightarrow> confined env dir w1 w2 \<Longrightarrow> confined env dir w w2"
  unfolding idle_def confined_def by metis

lemma confined_idle: "confined env dir w w1 \<Longrightarrow> idle w1 w2 \<Longrightarrow> confined env dir w w2"
  unfolding idle_def confined_def by metis

lemma bind_idle:
  assumes "cli_bind m f w = (r, w')" "\<And>r w1. m w = (r, w1) \<Longrightarrow> idle w w1"
    and "\<And>x w1. f x w1 = (r, w') \<Longrightarrow> idle w1 w'"
  shows "idle w w'"
  using assms(1) by (rule cli_bind_cases) (use assms(2,3) idle_trans in blast)+

lemma bind_confined:
  assumes "cli_bind m f w = (r, w')" "\<And>r w1. m w = (r, w1) \<Longrightarrow> confined env dir w w1"
    and "\<And>x w1. f x w1 = (r, w') \<Longrightarrow> confined env dir w1 w'"
  shows "confined env dir w w'"
  using assms(1) by (rule cli_bind_cases) (use assms(2,3) confined_trans in blast)+

lemma Println_idle: "Println s w = (r, w') \<Longrightarrow> idle w w'"
  by (auto simp: Println_def)

lemma if_idle:
  "(if b then m else f) w = (r, w') \<Longrightarrow> (m w = (r, w') \<Longrightarrow> idle w w') \<Longrightarrow>
   (f w = (r, w') \<Longrightarrow> idle w w') \<Longrightarrow> idle w w'"
  by (cases b) simp_all

lemma fail_idle: "cli_fail e w = (r, w') \<Longrightarrow> idle w w'"
  by simp

lemma print_lines_idle: "print_lines ls w = (r, w') \<Longrightarrow> idle w w'"
proof (induction ls arbitrary: w)
  case (Cons l ls)
  then show ?case by (auto elim!: bind_idle dest: Println_idle)
qed simp

lemma ask_idle: "ask uni qs ms w = (r, w') \<Longrightarrow> idle w w'"
proof (induction qs arbitrary: ms w)
  case (Cons q qs)
  obtain m prompt where [simp]: "q = (m, prompt)" by (cases q)
  show ?case
    using Cons.prems
    by (auto simp: cli_bind_def print_text_def Let_def idle_def split: prod.splits if_splits dest!: Cons.IH)
qed simp

lemma parse_cli_modules_idle: "parse_cli_modules vs w = (r, w') \<Longrightarrow> idle w w'"
  by (auto simp: parse_cli_modules_def split: sum.splits)

lemma on_project_confined: "on_project dir g m w = (r, w') \<Longrightarrow> confined env dir w w'"
  by (auto simp: on_project_def confined_def split: prod.splits sum.splits)

lemma run_commands_confined:
  assumes "run_commands env dir operation cs errs w = (r, w')" "set cs \<subseteq> set (go_commands env)"
    and "operation \<in> {''tidy'', ''vendor''}"
  shows "confined env dir w w'"
  using assms(1,2)
proof (induction cs arbitrary: errs w)
  case (Cons c cs)
  obtain out err d where e: "exec_command env (c @ [''mod'', operation]) dir (project_dir w dir) = ((out, err), d)"
    by (metis surj_pair)
  let ?w = "w\<lparr>project_dir := (project_dir w)(dir := d), executed := executed w @ [(dir, c @ [''mod'', operation])]\<rparr>"
  have "c @ [''mod'', operation] \<in> module_commands env"
    using Cons.prems(2) assms(3) by (auto simp: module_commands_def)
  then have 1: "confined env dir w ?w" by (auto simp: confined_def intro!: exI [of _ "[c @ [''mod'', operation]]"])
  from Cons.prems(1) e have "w' = ?w \<or> (\<exists>errs'. run_commands env dir operation cs errs' ?w = (r, w'))"
    by (auto simp: Let_def split: option.splits)
  with Cons.IH [of _ ?w] Cons.prems(2) 1 show ?case using confined_trans by auto
qed simp

lemma go_confined:
  "tidyProject env dir w = (r, w') \<Longrightarrow> confined env dir w w'"
  "vendorProject env dir w = (r, w') \<Longrightarrow> confined env dir w w'"
  by (auto simp: tidyProject_def vendorProject_def runGoModuleCommand_def intro: run_commands_confined)

lemma next_steps_idle: "next_steps dir arg w = (r, w') \<Longrightarrow> idle w w'"
  unfolding next_steps_def by (auto elim!: bind_idle dest: Println_idle)

lemma bind_idle_first:
  assumes "cli_bind m f w = (r, w')" "\<And>q w1. m w = (q, w1) \<Longrightarrow> idle w w1"
  obtains "idle w w'" | x w1 where "idle w w1" "f x w1 = (r, w')"
  using assms(1) by (rule cli_bind_cases) (use assms(2) that in blast)+

text \<open>Commands follow only a generator that has returned without an error.\<close>

lemma project_first:
  assumes "cli_bind (on_project dir g m) f w = (r, w')" "\<And>x w1. f x w1 = (r, w') \<Longrightarrow> confined env dir w1 w'"
  shows "confined env dir w w' \<and> (executed w' = executed w \<or> (\<exists>x d. m (project_dir w dir) = (Inr x, d)))"
  using assms(1)
proof (rule cli_bind_cases)
  fix e
  assume run: "on_project dir g m w = (Inl e, w')"
  then have "executed w' = executed w" by (auto simp: on_project_def split: prod.splits sum.splits)
  with on_project_confined [OF run] show ?thesis by blast
next
  fix x w1
  assume run: "on_project dir g m w = (Inr x, w1)" and "f x w1 = (r, w')"
  then have "confined env dir w w'" using on_project_confined [OF run] assms(2) confined_trans by blast
  moreover have "\<exists>x d. m (project_dir w dir) = (Inr x, d)"
    using run by (auto simp: on_project_def split: prod.splits sum.splits)
  ultimately show ?thesis by blast
qed

lemma confined_stdout: "confined env dir w (w\<lparr>stdout := s\<rparr>)"
  by (simp add: confined_def)

lemma uses_confined: "usesLocalFramework env dir w = (r, w') \<Longrightarrow> confined env dir w w'"
  unfolding usesLocalFramework_def by (erule bind_confined) (auto intro: on_project_confined)

definition generated :: "cli_env \<Rightarrow> string list \<Rightarrow> string \<Rightarrow> disk \<Rightarrow> bool" where
  "generated env args dir d \<longleftrightarrow> (\<exists>d'.
     hd args = ''new'' \<and> (\<exists>module framework ms. Create (cli_gen env) (Base dir) module framework ms d = (Inr (), d')) \<or>
     hd args = ''add'' \<and> (\<exists>ms. Add (cli_gen env) (Base dir) ms d = (Inr (), d')))"

definition run_within :: "cli_env \<Rightarrow> string list \<Rightarrow> world \<Rightarrow> world \<Rightarrow> bool" where
  "run_within env args w w' \<longleftrightarrow> (\<exists>dir. confined env dir w w' \<and>
     (executed w' = executed w \<or> generated env args dir (project_dir w dir)))"

lemma idle_within: "idle w w' \<Longrightarrow> run_within env args w w'"
  unfolding run_within_def idle_def confined_def by (intro exI [of _ "[]"]) simp

lemma idle_first_within: "idle w w1 \<Longrightarrow> run_within env args w1 w' \<Longrightarrow> run_within env args w w'"
  unfolding run_within_def using idle_confined by (simp add: idle_def) metis

lemma newProject_within:
  assumes "newProject env args w = (r, w')"
  shows "run_within env (''new'' # args) w w'"
proof -
  consider "idle w w'"
    | directory flags m fp arg where "cli_bind (parse_cli_modules [flag_string flags ''modules'']) (\<lambda>selected.
        cli_bind (if flag_string flags ''modules'' = [] \<and> \<not> flag_bool flags ''yes''
                  then promptModules env else cli_return selected) (\<lambda>selected.
        cli_bind (on_project directory ScaffoldErr
          (Create (cli_gen env) (Base directory) m fp selected)) (\<lambda>_.
        cli_bind (tidyProject env directory) (\<lambda>_.
        cli_bind (if flag_bool flags ''local'' then vendorProject env directory else cli_return ()) (\<lambda>_.
        next_steps directory arg))))) w = (r, w')"
    using assms unfolding newProject_def Let_def
    by (force split: sum.splits prod.splits if_splits)
  then show ?thesis
  proof cases
    case 1
    then show ?thesis by (rule idle_within)
  next
    case (2 directory flags m fp arg)
    then show ?thesis
    proof (rule bind_idle_first)
      fix x w1
      assume w1: "idle w w1" and "cli_bind (if flag_string flags ''modules'' = [] \<and> \<not> flag_bool flags ''yes''
          then promptModules env else cli_return x) (\<lambda>selected.
        cli_bind (on_project directory ScaffoldErr
          (Create (cli_gen env) (Base directory) m fp selected)) (\<lambda>_.
        cli_bind (tidyProject env directory) (\<lambda>_.
        cli_bind (if flag_bool flags ''local'' then vendorProject env directory else cli_return ()) (\<lambda>_.
        next_steps directory arg)))) w1 = (r, w')"
      from this(2) show ?thesis
      proof (rule bind_idle_first)
        fix selected w2
        assume w2: "idle w1 w2" and run: "cli_bind (on_project directory ScaffoldErr
            (Create (cli_gen env) (Base directory) m fp selected)) (\<lambda>_.
          cli_bind (tidyProject env directory) (\<lambda>_.
          cli_bind (if flag_bool flags ''local'' then vendorProject env directory else cli_return ()) (\<lambda>_.
          next_steps directory arg))) w2 = (r, w')"
        have "confined env directory w2 w' \<and> (executed w' = executed w2 \<or>
            (\<exists>x d. Create (cli_gen env) (Base directory) m fp selected (project_dir w2 directory) = (Inr x, d)))"
          by (rule project_first [OF run])
            (auto elim!: bind_confined intro: go_confined idle_confined [OF next_steps_idle] split: if_splits)
        then have "run_within env (''new'' # args) w2 w'" by (auto simp: run_within_def generated_def)
        with w1 w2 show ?thesis using idle_trans idle_first_within by blast
      qed (auto simp: promptModules_def dest: ask_idle split: if_splits intro: idle_within idle_trans [OF w1])
    qed (auto intro: idle_within dest: parse_cli_modules_idle)
  qed
qed

lemma addModules_within:
  assumes "addModules env args w = (r, w')"
  shows "run_within env (''add'' # args) w w'"
proof -
  let ?rest = "\<lambda>directory modules. cli_bind (on_project directory ScaffoldErr (Add (cli_gen env) (Base directory) modules)) (\<lambda>_.
      cli_bind (tidyProject env directory) (\<lambda>_.
      cli_bind (usesLocalFramework env directory) (\<lambda>uses_local.
      cli_bind (if uses_local then vendorProject env directory else cli_return ()) (\<lambda>_.
      print_text (''added modules to '' @ directory @ '': '' @ joinModules modules @ [LF])))))"
  consider "idle w w'" | directory where "cli_bind (parse_cli_modules (tl args)) (?rest directory) w = (r, w')"
    using assms unfolding addModules_def by (force split: sum.splits if_splits)
  then show ?thesis
  proof cases
    case 1
    then show ?thesis by (rule idle_within)
  next
    case (2 directory)
    then show ?thesis
    proof (rule bind_idle_first)
      fix modules w1
      assume w1: "idle w w1" and run: "?rest directory modules w1 = (r, w')"
      have "confined env directory w1 w' \<and> (executed w' = executed w1 \<or>
          (\<exists>x d. Add (cli_gen env) (Base directory) modules (project_dir w1 directory) = (Inr x, d)))"
        by (rule project_first [OF run])
          (auto elim!: bind_confined intro: go_confined uses_confined split: if_splits simp: confined_stdout)
      then have "run_within env (''add'' # args) w1 w'" by (auto simp: run_within_def generated_def)
      with w1 show ?thesis by (rule idle_first_within)
    qed (auto intro: idle_within dest: parse_cli_modules_idle)
  qed
qed

lemma upgradeProject_within:
  assumes "upgradeProject env args w = (r, w')"
  shows "run_within env (''upgrade'' # args) w w'"
proof -
  consider "idle w w'" | directory v ap ck where
    "cli_bind (on_project directory ScaffoldErr (Upgrade (cli_gen env) v ap)) (\<lambda>result.
       print_text (upgrade_report ck result)) w = (r, w')"
    using assms unfolding upgradeProject_def by (force split: sum.splits prod.splits if_splits)
  then show ?thesis
  proof cases
    case 1
    then show ?thesis by (rule idle_within)
  next
    case (2 directory v ap ck)
    have "confined env directory w w'"
      using 2 by (rule bind_confined) (auto intro: on_project_confined simp: confined_stdout)
    moreover have "executed w' = executed w"
      using 2 by (auto simp: cli_bind_def print_text_def on_project_def split: prod.splits sum.splits)
    ultimately show ?thesis by (auto simp: run_within_def)
  qed
qed

text \<open>
  C12. A run of the command line stays in one project: whatever the arguments and whatever fails, at most one
  project directory is changed, the only external commands are \<open>go mod tidy\<close> and \<open>go mod vendor\<close> by way of one
  of the installed \<open>go\<close>s, all in that directory, and none is run unless \<open>new\<close> or \<open>add\<close> was asked for and the
  generator has returned without an error.
\<close>

theorem run_cli_confined:
  assumes "run_cli env args w = (r, w')"
  shows "\<exists>dir cs. (\<forall>x. x \<noteq> dir \<longrightarrow> project_dir w' x = project_dir w x) \<and>
    executed w' = executed w @ map (Pair dir) cs \<and> set cs \<subseteq> module_commands env \<and>
    (cs = [] \<or> generated env args dir (project_dir w dir))"
proof -
  have "run_within env args w w'"
  proof (cases args)
    case Nil
    with assms have "idle w w'"
      by (auto simp: run_cli_def usageError_def printUsage_def dest: print_lines_idle elim!: bind_idle)
    then show ?thesis by (rule idle_within)
  next
    case (Cons command rest)
    note run = assms [unfolded Cons run_cli_def list.case]
    consider "command = ''new''" | "command = ''add''" | "command = ''upgrade''"
      | "command \<noteq> ''new''" "command \<noteq> ''add''" "command \<noteq> ''upgrade''" by blast
    then show ?thesis
    proof cases
      case 1
      with run show ?thesis unfolding Cons by (simp add: newProject_within)
    next
      case 2
      with run show ?thesis unfolding Cons by (simp add: addModules_within)
    next
      case 3
      with run show ?thesis unfolding Cons by (simp add: upgradeProject_within)
    next
      case 4
      note run = run [unfolded if_not_P [OF 4(1)] if_not_P [OF 4(2)] if_not_P [OF 4(3)] printModules_def printUsage_def]
      have "idle w w'"
        by (rule if_idle [OF run print_lines_idle if_idle [OF _ Println_idle if_idle [OF _ print_lines_idle fail_idle]]])
      then show ?thesis by (rule idle_within)
    qed
  qed
  then obtain dir where "confined env dir w w'" "executed w' = executed w \<or> generated env args dir (project_dir w dir)"
    by (auto simp: run_within_def)
  then obtain cs where c: "\<forall>x. x \<noteq> dir \<longrightarrow> project_dir w' x = project_dir w x"
    "executed w' = executed w @ map (Pair dir) cs" "set cs \<subseteq> module_commands env"
    "executed w' = executed w \<or> generated env args dir (project_dir w dir)" unfolding confined_def by blast
  have "cs = [] \<or> generated env args dir (project_dir w dir)"
    using c(4)
  proof
    assume "executed w' = executed w"
    with c(2) have "executed w = executed w @ map (Pair dir) cs" by (rule subst [rotated])
    then show ?thesis by (simp only: self_append_conv map_is_Nil_conv) simp
  qed blast
  with c(1-3) show ?thesis by blast
qed

text \<open>A machine with one \<open>go\<close> and the project of \<open>Scaffold_Upgrade\<close> in every directory, for the witnesses.\<close>

definition demo_env :: cli_env where
  "demo_env = \<lparr>cli_gen = demo_generator, cli_version = ''v0.4.0'', cwd = Inr ''/home'', plain_os = gen_os demo_generator,
     goroot = ''/usr/lib/go'', stat_ok = (\<lambda>_. False), look_path = (\<lambda>_. False),
     exec_command = (\<lambda>argv dir d. (([], None), d))\<rparr>"

definition demo_world :: world where
  "demo_world = \<lparr>stdin = [], stdin_error = None, stdout = [], project_dir = (\<lambda>_. demo_project), executed = []\<rparr>"

theorem run_cli_confined_witness:
  "project_dir (snd (run_cli demo_env [''add'', ''/srv/shop'', ''sse''] demo_world)) ''/srv/blog'' = demo_project"
proof -
  let ?w = "snd (run_cli demo_env [''add'', ''/srv/shop'', ''sse''] demo_world)"
  have ex: "executed ?w = [(''/srv/shop'', [''go'', ''mod'', ''tidy''])]" by code_simp
  obtain dir cs where d: "\<forall>x. x \<noteq> dir \<longrightarrow> project_dir ?w x = project_dir demo_world x"
    "executed ?w = executed demo_world @ map (Pair dir) cs"
    using run_cli_confined [OF prod.collapse [symmetric], of demo_env "[''add'', ''/srv/shop'', ''sse'']" demo_world] by blast
  from d(2) ex have "dir = ''/srv/shop''" by (auto simp: demo_world_def)
  with d(1) show ?thesis by (simp add: demo_world_def)
qed

section \<open>Checking an upgrade\<close>

text \<open>The two modes read the same; without \<open>apply\<close> the result is returned and nothing is written.\<close>

lemma Upgrade_preview:
  assumes "Upgrade gen v True d = (Inr result, d1)"
  shows "\<exists>d2. Upgrade gen v False d = (Inr result, d2) \<and> same_disk d d2"
proof -
  obtain project current updated d2 where plan: "upgrade_plan gen v d = (Inr (project, current, updated), d2)"
    and run: "upgrade_write gen v True project current updated d2 = (Inr result, d1)"
    using assms by (auto simp: Upgrade_def io_bind_Inr)
  have "result = \<lparr>From = current, To = v,
      Changed = (current \<noteq> v \<or> FormatVersion project \<noteq> metadataFormatVersion \<or> FrameworkVersion project \<noteq> v)\<rparr>"
    using run by (auto simp: upgrade_write_def Let_def io_bind_Inr split: if_splits)
  then have "Upgrade gen v False d = (Inr result, d2)"
    using plan by (auto simp: Upgrade_def io_bind_def upgrade_write_def io_return_def)
  with readonlyD [OF readonly_upgrade_plan plan] show ?thesis by blast
qed

lemma upgrade_args:
  "parse_flags upgrade_flags [''--apply'', ''--to'', v] = Inr ([(''check'', BoolFlag False), (''apply'', BoolFlag True), (''to'', StringFlag v)], [])"
  "parse_flags upgrade_flags [''--check'', ''--to'', v] = Inr ([(''check'', BoolFlag True), (''apply'', BoolFlag False), (''to'', StringFlag v)], [])"
  by (simp_all add: parse_flags.simps upgrade_flags_def bad_flag_def flag_parts_def cut_byte_def parse_bool_def)

text \<open>
  C37. \<open>upgrade --check\<close> is a faithful preview of \<open>upgrade --apply\<close>: if applying succeeds, checking in the same
  situation succeeds too, changes no project, runs no command, and reports the same versions and whether there is
  anything to change; of the two only applying changes the directory.
\<close>

theorem upgrade_check_previews:
  assumes "run_cli env [''upgrade'', p, ''--apply'', ''--to'', v] w = (Inr (), w1)"
  shows "\<exists>w2 dir result.
    run_cli env [''upgrade'', p, ''--check'', ''--to'', v] w = (Inr (), w2) \<and>
    Abs (cwd env) p = Inr dir \<and> Upgrade (cli_gen env) v True (project_dir w dir) = (Inr result, project_dir w1 dir) \<and>
    stdout w1 = stdout w @ upgrade_report False result \<and> stdout w2 = stdout w @ upgrade_report True result \<and>
    executed w2 = executed w \<and> (\<forall>x. same_disk (project_dir w x) (project_dir w2 x))"
proof -
  from assms obtain dir where dir: "Abs (cwd env) p = Inr dir" and v: "v \<noteq> []"
    and run: "cli_bind (on_project dir ScaffoldErr (Upgrade (cli_gen env) v True)) (\<lambda>result.
        print_text (upgrade_report False result)) w = (Inr (), w1)"
    by (auto simp: run_cli_def upgradeProject_def upgrade_args flag_bool_def flag_string_def split: sum.splits if_splits)
  obtain ru d1 where u: "Upgrade (cli_gen env) v True (project_dir w dir) = (ru, d1)" by (metis surj_pair)
  from run u obtain result where r: "ru = Inr result" and w1: "w1 = w\<lparr>project_dir := (project_dir w)(dir := d1),
      stdout := stdout w @ upgrade_report False result\<rparr>"
    by (auto simp: cli_bind_def on_project_def print_text_def split: sum.splits)
  from Upgrade_preview u r obtain d2 where d2: "Upgrade (cli_gen env) v False (project_dir w dir) = (Inr result, d2)"
    "same_disk (project_dir w dir) d2" by blast
  let ?w2 = "w\<lparr>project_dir := (project_dir w)(dir := d2), stdout := stdout w @ upgrade_report True result\<rparr>"
  have "run_cli env [''upgrade'', p, ''--check'', ''--to'', v] w = (Inr (), ?w2)"
    using v by (simp add: run_cli_def upgradeProject_def upgrade_args flag_bool_def flag_string_def dir cli_bind_def
        on_project_def print_text_def d2(1))
  with dir u r w1 d2(2) show ?thesis by (intro exI [of _ ?w2] exI [of _ dir] exI [of _ result]) simp
qed

theorem upgrade_check_previews_witness:
  "stdout (snd (run_cli demo_env [''upgrade'', ''/srv/shop'', ''--check'', ''--to'', ''v0.4.0''] demo_world)) =
     ''would update Wahoo dependency from v0.3.0 to v0.4.0 and project metadata'' @ [LF]"
proof -
  let ?apply = "[''upgrade'', ''/srv/shop'', ''--apply'', ''--to'', ''v0.4.0'']"
  have "fst (run_cli demo_env ?apply demo_world) = Inr ()" by code_simp
  then have "run_cli demo_env ?apply demo_world = (Inr (), snd (run_cli demo_env ?apply demo_world))"
    by (metis prod.collapse)
  from upgrade_check_previews [OF this] obtain w2 dir result where
    w2: "run_cli demo_env [''upgrade'', ''/srv/shop'', ''--check'', ''--to'', ''v0.4.0''] demo_world = (Inr (), w2)"
    "Abs (cwd demo_env) ''/srv/shop'' = Inr dir"
    "Upgrade (cli_gen demo_env) ''v0.4.0'' True (project_dir demo_world dir) =
       (Inr result, project_dir (snd (run_cli demo_env ?apply demo_world)) dir)"
    "stdout w2 = stdout demo_world @ upgrade_report True result" by blast
  have "cli_gen demo_env = demo_generator" "project_dir demo_world dir = demo_project" "stdout demo_world = []"
    by (simp_all add: demo_env_def demo_world_def)
  with w2(3) demo_upgrade have "result = \<lparr>From = ''v0.3.0'', To = ''v0.4.0'', Changed = True\<rparr>" by simp
  with w2(1,4) \<open>stdout demo_world = []\<close> show ?thesis by (simp add: upgrade_report_def)
qed

section \<open>A directory that is in use\<close>

definition occupied :: "disk \<Rightarrow> bool" where
  "occupied d \<longleftrightarrow> root_dir d = RootSymlink \<or> root_dir d = RootFile \<or> root_dir d = RootDirectory \<and> tree d \<noteq> []"

lemma check_new_directory_occupied:
  assumes "occupied d"
  shows "\<exists>e d'. check_new_directory gen d = (Inl e, d') \<and> same_disk d d'"
  using assms
  by (auto simp: occupied_def check_new_directory_def LstatRoot_def ReadRootDir_def attempt_def same_disk_def
      split: option.splits)

lemma Create_occupied:
  assumes "occupied d"
  shows "\<exists>e d'. Create gen base m fp ms d = (Inl e, d') \<and> same_disk d d'"
proof (cases "ParseModules ms")
  case (Inl x)
  then show ?thesis by (simp add: Create_def io_bind_def io_lift_def)
next
  case (Inr modules)
  obtain e d' where "check_new_directory gen d = (Inl e, d')" "same_disk d d'"
    using check_new_directory_occupied [OF assms] by blast
  with Inr show ?thesis by (simp add: Create_def io_bind_def io_lift_def)
qed

lemma on_project_error:
  assumes "m (project_dir w dir) = (Inl e, d)"
  shows "cli_bind (on_project dir g m) f w = (Inl (g e), w\<lparr>project_dir := (project_dir w)(dir := d)\<rparr>)"
  using assms by (simp add: cli_bind_def on_project_def)

text \<open>
  C36. \<open>new\<close> never touches what is there: for a directory that has contents, is a symbolic link or is no
  directory, it fails, whatever its other arguments and the answers to its questions, runs no command and
  changes nothing.
\<close>

theorem new_refuses_contents:
  assumes "parse_flags new_flags args = Inr (flags, [p])" "Abs (cwd env) p = Inr dir" "occupied (project_dir w dir)"
    and "run_cli env (''new'' # args) w = (r, w')"
  shows "(\<exists>e. r = Inl e) \<and> executed w' = executed w \<and> (\<forall>x. same_disk (project_dir w x) (project_dir w' x))"
proof -
  let ?ok = "\<lambda>w1. (\<exists>e. r = Inl e) \<and> executed w' = executed w1 \<and> (\<forall>x. same_disk (project_dir w1 x) (project_dir w' x))"
  have idle_ok: "?ok w1" if "idle w1 w'" "r = Inl e" for w1 e using that by (simp add: idle_def)
  have create: "?ok w1" if same: "project_dir w1 = project_dir w"
    and run1: "cli_bind (on_project dir ScaffoldErr (Create (cli_gen env) (Base dir) m fp ms)) f w1 = (r, w')" for w1 m fp ms f
  proof -
    obtain e d' where c: "Create (cli_gen env) (Base dir) m fp ms (project_dir w1 dir) = (Inl e, d')" "same_disk (project_dir w1 dir) d'"
      using Create_occupied [OF assms(3), of "cli_gen env" "Base dir" m fp ms] unfolding same by blast
    from run1 have "(Inl (ScaffoldErr e), w1\<lparr>project_dir := (project_dir w1)(dir := d')\<rparr>) = (r, w')"
      by (simp only: on_project_error [where m = "Create (cli_gen env) (Base dir) m fp ms", OF c(1)])
    with c(2) show ?thesis by auto
  qed
  from assms(4) have run: "newProject env args w = (r, w')" by (simp add: run_cli_def)
  show ?thesis
  proof (cases "if flag_bool flags ''local'' then cwd env else Inr []")
    case (Inl e)
    with run assms(1,2) show ?thesis by (simp add: newProject_def Let_def)
  next
    case (Inr fp)
    obtain m f where "cli_bind (parse_cli_modules [flag_string flags ''modules'']) (\<lambda>selected.
        cli_bind (if flag_string flags ''modules'' = [] \<and> \<not> flag_bool flags ''yes''
                  then promptModules env else cli_return selected) (\<lambda>selected.
        cli_bind (on_project dir ScaffoldErr (Create (cli_gen env) (Base dir) m fp selected)) f)) w = (r, w')"
      using run assms(1,2) Inr by (auto simp: newProject_def Let_def)
    then show ?thesis
    proof (rule cli_bind_cases)
      fix e assume "parse_cli_modules [flag_string flags ''modules''] w = (Inl e, w')" "r = Inl e"
      with idle_ok parse_cli_modules_idle show ?thesis by blast
    next
      fix sel w1 assume 1: "parse_cli_modules [flag_string flags ''modules''] w = (Inr sel, w1)"
        and "cli_bind (if flag_string flags ''modules'' = [] \<and> \<not> flag_bool flags ''yes''
              then promptModules env else cli_return sel) (\<lambda>selected.
            cli_bind (on_project dir ScaffoldErr (Create (cli_gen env) (Base dir) m fp selected)) f) w1 = (r, w')"
      from this(2) show ?thesis
      proof (rule cli_bind_cases)
        fix e assume p: "(if flag_string flags ''modules'' = [] \<and> \<not> flag_bool flags ''yes''
              then promptModules env else cli_return sel) w1 = (Inl e, w')" "r = Inl e"
        then have "idle w1 w'" by (auto simp: promptModules_def dest: ask_idle split: if_splits)
        with p(2) parse_cli_modules_idle [OF 1] show ?thesis using idle_ok idle_trans by blast
      next
        fix sel' w2 assume p: "(if flag_string flags ''modules'' = [] \<and> \<not> flag_bool flags ''yes''
              then promptModules env else cli_return sel) w1 = (Inr sel', w2)"
          and c: "cli_bind (on_project dir ScaffoldErr (Create (cli_gen env) (Base dir) m fp sel')) f w2 = (r, w')"
        from p have "idle w1 w2" by (auto simp: promptModules_def dest: ask_idle split: if_splits)
        with parse_cli_modules_idle [OF 1] have i: "idle w w2" by (rule idle_trans)
        with create [OF _ c] show ?thesis by (simp add: idle_def)
      qed
    qed
  qed
qed

theorem new_refuses_contents_witness:
  "executed (snd (run_cli demo_env [''new'', ''--yes'', ''/srv/shop''] demo_world)) = []"
proof -
  have "parse_flags new_flags [''--yes'', ''/srv/shop''] = Inr ([(''module'', StringFlag []), (''local'', BoolFlag False),
      (''modules'', StringFlag []), (''yes'', BoolFlag True)], [''/srv/shop''])" by code_simp
  moreover have "Abs (cwd demo_env) ''/srv/shop'' = Inr ''/srv/shop''" by code_simp
  moreover have "occupied (project_dir demo_world ''/srv/shop'')"
    by (simp add: occupied_def demo_world_def demo_project_def)
  moreover have "executed demo_world = []" by (simp add: demo_world_def)
  ultimately show ?thesis
    using new_refuses_contents [OF _ _ _ prod.collapse [symmetric], of "[''--yes'', ''/srv/shop'']" _ "''/srv/shop''" demo_env
        "''/srv/shop''" demo_world] by simp
qed

end
