(* ===== verification/Spec2Isabelle.thy ===== *)
theory Spec2Isabelle
  imports Authz Entitlement Ratelimit Webhook Auth Jobs Realtime Audit_Events Storage Mail Billing Database
    Server Rate_Limiting Api Server_Setup Web_Socket Scaffold_Recovery Scaffold_Success Cli_Safety
begin

text \<open>
  A verification development of \<open>wahoo\<close>, a Go framework for SaaS applications: a set of small packages
  that an application calls, an HTTP runtime they meet in, and a command-line generator of projects.

  \<^bold>\<open>The program.\<close> \<open>server\<close> runs handlers behind middlewares, with request identifiers, recovery from panics, an
  access log and an observer; \<open>ratelimit.Memory\<close> is a limiter its \<open>RateLimit\<close> middleware calls; \<open>api\<close> reads
  and writes JSON over it; \<open>realtime\<close> has the hub of server-sent events and the WebSocket upgrade. \<open>jobs\<close> is a
  runner of worker goroutines. \<open>auth\<close>, \<open>authz\<close>, \<open>entitlement\<close>, \<open>webhook\<close>, \<open>audit\<close>, \<open>storage\<close>, \<open>mail\<close>,
  \<open>billing\<close> and \<open>database\<close> validate and decide, over stores and providers of the application.
  \<open>internal/scaffold\<close> writes projects, and \<open>cmd/wahoo\<close> is the command line over it.

  \<^bold>\<open>How Go is read.\<close> \<open>Go_Prelude\<close>: an error result is \<open>'e + 'a\<close> or \<open>'e option\<close>, a value that may be nil an
  \<open>option\<close>, \<open>int64\<close> quantities are 64-bit words where they can wrap (\<open>entitlement\<close>) and integers with their range
  as a fact elsewhere, instants are integers of nanoseconds with the saturating subtraction of \<open>time.Time.Sub\<close>.
  \<open>Go_Strings\<close> and \<open>Go_Text\<close>: strings are byte lists, with the functions of \<open>strings\<close>, \<open>strconv\<close>, \<open>hex\<close> and
  \<open>utf8\<close> the code calls. \<open>Go_IO\<close>: readers; \<open>Go_Json\<close>: the scanner, stream decoder and encoder of
  \<open>encoding/json\<close>; \<open>Sha256\<close>: the hash and HMAC; \<open>Go_Command\<close>: \<open>flag\<close>, \<open>filepath\<close> and \<open>bufio\<close>; \<open>Http\<close>:
  requests, the response writer of a connection (no body for \<open>HEAD\<close>), and handlers as programs over its operations.

  \<^bold>\<open>The components.\<close> Each theory has the component's data, its constants, one definition per function with the
  name it has in the source (a suffix where two packages share one), and its lemmas.
  \<^item> \<open>Validators\<close>: the contract of all identifier checks as a locale, interpreted by \<open>Authz\<close>, \<open>Entitlement\<close>,
    \<open>Audit_Events\<close>, \<open>Storage\<close>, \<open>Billing\<close>, \<open>Realtime\<close> and \<open>Server\<close>. \<open>Metadata_Map\<close>: Go maps on a heap, and the
    contract of the function adapters, interpreted by \<open>Audit_Events\<close> and \<open>Mail\<close>.
  \<^item> \<open>Authz\<close> (\<open>authz/authz.go\<close>), \<open>Entitlement\<close> (\<open>entitlement/entitlement.go\<close>), \<open>Webhook\<close>
    (\<open>webhook/webhook.go\<close>), \<open>Auth\<close> (\<open>auth/auth.go\<close>, \<open>auth/session.go\<close>), \<open>Storage\<close>
    (\<open>storage/storage.go\<close>), \<open>Mail\<close> (\<open>mail/mail.go\<close>), \<open>Billing\<close> (\<open>billing/billing.go\<close>), \<open>Database\<close>
    (\<open>database/database.go\<close>): what is accepted and decided, as equivalences with declarative readings, and the round
    trip of signing and verifying.
  \<^item> \<open>Audit_Events\<close> (\<open>audit/audit.go\<close>): maps are addresses on a heap, because that events are immutable depends on
    what is copied; a client is any sequence of writes to maps it can reach (\<open>client_step\<close>).
  \<^item> \<open>Ratelimit\<close> (\<open>ratelimit/ratelimit.go\<close>): the limiter under its mutex, with clock readings in any order
    (\<open>Allow\<close> reads the clock before it waits for the lock); the bound on any interval, by a credit that every call
    pays out of, with what calls overtaken at the interval's ends (\<open>overtaken\<close>) add to it; and the refinement to
    the counter of a single key (\<open>explains\<close>, \<open>in_turn\<close>). \<open>Rate_Limiting\<close>: the contract of a limiter as a locale, interpreted on
    \<open>Memory\<close>, and the middleware over it end to end.
  \<^item> \<open>Jobs\<close> (\<open>jobs/jobs.go\<close>): the goroutines of \<open>Run\<close> as a step relation (\<open>worker_step\<close>, \<open>env_step\<close>) over
    any puller, handler and caller, in which the check of the run context and the start of \<open>Pull\<close> are two steps;
    conservation of jobs by rule induction, stopping by a measure.
  \<^item> \<open>Realtime\<close> (\<open>realtime/sse.go\<close>): the hub with its one-slot channels, whose send and close may panic, the
    connections as a step relation (\<open>hub_step\<close>), the wire format, and a reference decoder of event streams
    (\<open>sse_decode\<close>, with the last event id that persists), which gives what clients should see (\<open>seen\<close>).
    \<open>Web_Socket\<close> (\<open>realtime/websocket.go\<close>): the upgrade and the echo loop, as a partial function.
  \<^item> \<open>Server\<close> and \<open>Server_Setup\<close> (\<open>server/server.go\<close>): the recorder, the middlewares, \<open>ServeHTTP\<close> with its deferred
    function, the building of a server; \<open>exec\<close> runs any handler program. \<open>Api\<close> (\<open>api/api.go\<close>).
  \<^item> \<open>Framework_Requirement\<close>, \<open>Scaffold_Modules\<close>, \<open>Project_Files\<close>, \<open>Scaffold\<close>
    (\<open>internal/scaffold/scaffold.go\<close>): the version in \<open>go.mod\<close>, the module table and names, the project
    directory with the two ways of writing a file, and \<open>Create\<close>, \<open>Add\<close> and \<open>Upgrade\<close> over it. Any system
    call may fail, a write may be short, and the trail keeps every tree there ever was, so a statement about the
    trail is one about a process that dies at any moment. \<open>Scaffold\<close> has triples (\<open>hoare\<close>, \<open>readonly\<close>) for
    sequences of steps; \<open>Project_Growth\<close> what creating adds; \<open>Scaffold_Upgrade\<close>, \<open>Scaffold_Add\<close> and
    \<open>Scaffold_Recovery\<close> the properties of \<open>Upgrade\<close> and \<open>Add\<close>, and of a run after an interrupted one;
    \<open>Scaffold_Create\<close> what \<open>Create\<close> leaves, as a list of files (\<open>project_contents\<close>), and
    \<open>Scaffold_Success\<close> that it succeeds when nothing fails.
  \<^item> \<open>Cli\<close> (\<open>cmd/wahoo/main.go\<close>): the commands over a world of console, projects and external commands;
    \<open>Cli_Safety\<close> what a run may touch.

  \<^bold>\<open>The properties\<close> are the theorems whose text begins with an identifier \<open>C\<close>\<open>n\<close>; a theorem with hypotheses is
  followed by one that applies it at a concrete input.

  \<^bold>\<open>Bounds and fuel.\<close> There is no fuel: loops are structural or have a measure, and the echo loop, which may run
  forever, is a partial function with a theorem when it ends. Executions of the step relations are finite
  sequences of any length, so every interleaving is covered up to any moment.

  \<^bold>\<open>What is assumed.\<close> bcrypt, the random source, \<open>mime.ParseMediaType\<close>, \<open>netmail.ParseAddress\<close>,
  \<open>url.ParseRequestURI\<close>, unmarshalling into application types, the Unicode tables, the stores and providers, the dispatch
  of \<open>http.ServeMux\<close>, template execution, WebSocket connections, external commands, and how the system follows
  symbolic links are parameters, with documented facts as hypotheses where one is needed. Constant-time comparison
  is equality.

  \<^bold>\<open>Not modelled.\<close> The standard error stream; file modes and times; changes of a project directory by others during
  a run; the goroutine scheduler beyond interleaving at the steps; write deadlines and HTTP headers of event streams; the
  buffers of \<open>net/http\<close>, from which a peer that breaks off may not get all the bytes that were taken for it, and its
  check of a \<open>Content-Length\<close> a handler declares; a handler that goes around the recorder by \<open>Unwrap\<close>; interfaces without code
  (\<open>storage.Store\<close>, \<open>billing.Provider\<close>, \<open>database.Migrator\<close>); the templates of generated projects, the build
  and release files and the examples.
\<close>

end
